(* ===== verification/Prelude.thy ===== *)
theory Prelude
  imports Complex_Main "HOL-Library.Multiset" "HOL-Library.AList"
begin

text \<open>
  Shared vocabulary of the development: Go's 64-bit integers with their wrap-around, instants and
  durations, results with errors and panics, slices, the iteration order of a Go map, and
  \<^verbatim>\<open>sort.Slice\<close>.  Nothing in this file is specific to the ad service; the component theories build
  on these types and lemmas.
\<close>

named_theorems go_simps \<open>evaluation rules of the Go vocabulary\<close>

section \<open>64-bit integers\<close>

text \<open>
  A Go \<^verbatim>\<open>int\<close> or \<^verbatim>\<open>int64\<close> is carried by \<^typ>\<open>int\<close>; every addition and subtraction of the code
  is followed by \<open>i64\<close>, two's complement reduction to 64 bits.
\<close>

definition i64 :: "int \<Rightarrow> int" where
  "i64 x = (x + 2 ^ 63) mod 2 ^ 64 - 2 ^ 63"

definition in_i64 :: "int \<Rightarrow> bool" where
  "in_i64 x \<longleftrightarrow> - (2 ^ 63) \<le> x \<and> x < 2 ^ 63"

lemma i64_id [go_simps]: "in_i64 x \<Longrightarrow> i64 x = x"
  by (simp add: i64_def in_i64_def)

lemma in_i64_i64 [simp]: "in_i64 (i64 x)"
proof -
  have "0 \<le> (x + 2 ^ 63) mod 2 ^ 64" "(x + 2 ^ 63) mod 2 ^ 64 < (2::int) ^ 64"
    by (rule pos_mod_sign, simp, rule pos_mod_bound, simp)
  then show ?thesis by (simp add: i64_def in_i64_def)
qed

lemma i64_small [go_simps]: "- 1000000000 \<le> x \<Longrightarrow> x \<le> 1000000000 \<Longrightarrow> i64 x = x"
  by (rule i64_id) (simp add: in_i64_def)

text \<open>The successor of a 64-bit value is never that value, also at the wrap-around.\<close>

lemma i64_succ_neq: "i64 (x + 1) \<noteq> x"
proof
  assume "i64 (x + 1) = x"
  then have eq: "(x + 1 + 2 ^ 63) mod 2 ^ 64 = x + 2 ^ 63" by (simp add: i64_def)
  moreover have "0 \<le> (x + 1 + 2 ^ 63) mod 2 ^ 64 \<and> (x + 1 + 2 ^ 63) mod 2 ^ 64 < (2::int) ^ 64"
    by simp
  ultimately have "0 \<le> x + 2 ^ 63" "x + 2 ^ 63 < (2::int) ^ 64" by linarith+
  then show False using eq
    by (cases "x + 2 ^ 63 = 2 ^ 64 - (1::int)") (auto simp: algebra_simps)
qed

text \<open>A saturating subtraction, as \<^verbatim>\<open>Time.Sub\<close> computes a \<^verbatim>\<open>Duration\<close>.\<close>

definition sat64 :: "int \<Rightarrow> int" where
  "sat64 x = max (- (2 ^ 63)) (min (2 ^ 63 - 1) x)"

lemma sat64_id [go_simps]: "in_i64 x \<Longrightarrow> sat64 x = x"
  by (simp add: sat64_def in_i64_def)

lemma in_i64_sat64 [simp]: "in_i64 (sat64 x)"
  by (simp add: sat64_def in_i64_def)

lemma sat64_mono: "x \<le> y \<Longrightarrow> sat64 x \<le> sat64 y"
  by (simp add: sat64_def)

section \<open>Time\<close>

text \<open>
  An instant (\<^verbatim>\<open>time.Time\<close>) is a number of nanoseconds on one clock; a \<^verbatim>\<open>time.Duration\<close> is a
  64-bit number of nanoseconds.  Every \<^verbatim>\<open>time.Now()\<close> of the code is an argument of its model.
\<close>

type_synonym instant = int
type_synonym duration = int

definition nsSecond :: duration where "nsSecond = 1000000000"
definition nsMinute :: duration where "nsMinute = 60 * nsSecond"
definition nsDay :: duration where "nsDay = 24 * 60 * nsMinute"

definition time_since :: "instant \<Rightarrow> instant \<Rightarrow> duration" where
  "time_since now t = sat64 (now - t)"

lemma time_since_mono: "now \<le> now' \<Longrightarrow> time_since now t \<le> time_since now' t"
  by (simp add: time_since_def sat64_mono)

section \<open>Lists updated and looked up by key\<close>

lemma map_of_map_values:
  "map_of (map (\<lambda>(k, a). (k, f a)) xs) k = map_option f (map_of xs k)"
  by (induction xs) auto

lemma map_fst_map_values [simp]: "map fst (map (\<lambda>(k, a). (k, f a)) xs) = map fst xs"
  by (induction xs) auto

lemma map_fst_map_entry [simp]: "map fst (AList.map_entry k f xs) = map fst xs"
  by (induction xs) auto

lemma map_of_map_entry_eq [simp]:
  "map_of (AList.map_entry k f xs) x = (if x = k then map_option f (map_of xs k) else map_of xs x)"
  by (induction xs) auto

lemma map_of_update_eq [simp]:
  "map_of (AList.update k v xs) x = (if x = k then Some v else map_of xs x)"
  by (induction xs) auto

lemma distinct_keys_update [simp]:
  "distinct (map fst xs) \<Longrightarrow> distinct (map fst (AList.update k v xs))"
  by (rule distinct_update)

lemma map_of_delete_eq [simp]:
  "map_of (AList.delete k xs) x = (if x = k then None else map_of xs x)"
  by (induction xs) (auto simp: AList.delete_eq)

lemma distinct_keys_filter: "distinct (map fst xs) \<Longrightarrow> distinct (map fst (filter P xs))"
  by (induction xs) auto

lemma map_of_filter_values:
  "distinct (map fst xs) \<Longrightarrow>
   map_of (filter (\<lambda>(k, a). P a) xs) k =
     (case map_of xs k of None \<Rightarrow> None | Some a \<Rightarrow> if P a then Some a else None)"
proof (induction xs)
  case Nil
  then show ?case by simp
next
  case (Cons x xs)
  obtain k' a where x: "x = (k', a)" by (cases x)
  from Cons.prems x have "k' \<notin> fst ` set xs" and d: "distinct (map fst xs)" by auto
  then have "map_of xs k' = None" by (simp add: map_of_eq_None_iff)
  with Cons.IH[OF d] x show ?case by auto
qed

section \<open>The iteration order of a map\<close>

text \<open>
  Ranging over a Go map visits its entries in an unspecified order.  A list of choices fixes one:
  each choice picks the next entry among those left.  Every permutation is the result of some
  list of choices (\<open>shuffle_complete\<close>), so a statement for all choices is one for all orders.
\<close>

fun shuffle :: "nat list \<Rightarrow> 'a list \<Rightarrow> 'a list" where
  "shuffle [] xs = xs"
| "shuffle (n # ns) [] = []"
| "shuffle (n # ns) (x # xs) =
     (let ys = x # xs; i = n mod length ys in ys ! i # shuffle ns (take i ys @ drop (Suc i) ys))"

lemma mset_take_nth_drop:
  "i < length ys \<Longrightarrow> add_mset (ys ! i) (mset (take i ys @ drop (Suc i) ys)) = mset ys"
proof -
  assume "i < length ys"
  then have "ys = take i ys @ ys ! i # drop (Suc i) ys" by (rule id_take_nth_drop)
  then have "mset ys = mset (take i ys @ ys ! i # drop (Suc i) ys)" by (rule arg_cong)
  then show ?thesis by simp
qed

lemma mset_shuffle [simp]: "mset (shuffle ns xs) = mset xs"
proof (induction ns xs rule: shuffle.induct)
  case (3 n ns x xs)
  let ?ys = "x # xs" and ?i = "n mod length (x # xs)"
  have "?i < length ?ys" by simp
  from mset_take_nth_drop[OF this] 3 show ?case by (simp add: Let_def)
qed auto

lemma set_shuffle [simp]: "set (shuffle ns xs) = set xs"
  by (metis mset_shuffle set_mset_mset)

lemma length_shuffle [simp]: "length (shuffle ns xs) = length xs"
  by (metis mset_shuffle size_mset)

lemma shuffle_complete: "mset ys = mset xs \<Longrightarrow> \<exists>ns. shuffle ns xs = ys"
proof (induction ys arbitrary: xs)
  case Nil
  then have "shuffle [] xs = []" by simp
  then show ?case by blast
next
  case (Cons y ys)
  from Cons.prems have "y \<in> set xs" by (metis list.set_intros(1) set_mset_mset)
  then obtain i where i: "i < length xs" "xs ! i = y" by (auto simp: in_set_conv_nth)
  from mset_take_nth_drop[OF i(1)] Cons.prems i(2)
  have "mset ys = mset (take i xs @ drop (Suc i) xs)"
    by (metis add_mset_add_single add_right_cancel mset.simps(2))
  then obtain ns where "shuffle ns (take i xs @ drop (Suc i) xs) = ys" using Cons.IH by blast
  with i have "shuffle (i # ns) xs = y # ys" by (cases xs) (auto simp: Let_def)
  then show ?case by blast
qed

section \<open>Sorting with a comparison\<close>

text \<open>
  \<^verbatim>\<open>sort.Slice\<close> leaves some sorted permutation of its slice and is not stable.  The model is
  insertion sort; applied to a shuffled list it yields every sorted permutation
  (\<open>sort_slice_complete\<close>), so no outcome of the code is lost.
\<close>

fun insert_by :: "('a \<Rightarrow> 'a \<Rightarrow> bool) \<Rightarrow> 'a \<Rightarrow> 'a list \<Rightarrow> 'a list" where
  "insert_by lt x [] = [x]"
| "insert_by lt x (y # ys) = (if lt y x then y # insert_by lt x ys else x # y # ys)"

fun sort_slice :: "('a \<Rightarrow> 'a \<Rightarrow> bool) \<Rightarrow> 'a list \<Rightarrow> 'a list" where
  "sort_slice lt [] = []"
| "sort_slice lt (x # xs) = insert_by lt x (sort_slice lt xs)"

lemma mset_insert_by [simp]: "mset (insert_by lt x xs) = add_mset x (mset xs)"
  by (induction xs) auto

lemma mset_sort_slice [simp]: "mset (sort_slice lt xs) = mset xs"
  by (induction xs) auto

lemma set_insert_by [simp]: "set (insert_by lt x xs) = insert x (set xs)"
  by (induction xs) auto

lemma set_sort_slice [simp]: "set (sort_slice lt xs) = set xs"
  by (induction xs) auto

lemma length_insert_by [simp]: "length (insert_by lt x xs) = Suc (length xs)"
  by (induction xs) auto

lemma length_sort_slice [simp]: "length (sort_slice lt xs) = length xs"
  by (induction xs) auto

lemma sort_slice_eq_Nil [simp]: "sort_slice lt xs = [] \<longleftrightarrow> xs = []"
  by (metis length_0_conv length_sort_slice)

text \<open>A list is in order when no element is less than one before it.\<close>

abbreviation in_order :: "('a \<Rightarrow> 'a \<Rightarrow> bool) \<Rightarrow> 'a list \<Rightarrow> bool" where
  "in_order lt \<equiv> sorted_wrt (\<lambda>x y. \<not> lt y x)"

lemma sort_slice_in_order_id: "in_order lt xs \<Longrightarrow> sort_slice lt xs = xs"
proof (induction xs)
  case (Cons x xs)
  then have "sort_slice lt xs = xs" by simp
  with Cons.prems show ?case by (cases xs) auto
qed simp

lemma sort_slice_complete:
  assumes "in_order lt ys" and "mset ys = mset xs"
  shows "\<exists>ns. sort_slice lt (shuffle ns xs) = ys"
proof -
  from shuffle_complete[OF assms(2)] obtain ns where "shuffle ns xs = ys" ..
  with sort_slice_in_order_id[OF assms(1)] show ?thesis by metis
qed

text \<open>The contract \<^verbatim>\<open>sort.Slice\<close> asks of its comparison: a strict weak order.\<close>

locale strict_weak_order =
  fixes lt :: "'a \<Rightarrow> 'a \<Rightarrow> bool"
  assumes lt_irrefl: "\<not> lt x x"
    and lt_trans: "lt x y \<Longrightarrow> lt y z \<Longrightarrow> lt x z"
    and lt_neg_trans: "\<not> lt x y \<Longrightarrow> \<not> lt y z \<Longrightarrow> \<not> lt x z"
begin

lemma lt_asym: "lt x y \<Longrightarrow> \<not> lt y x"
  using lt_irrefl lt_trans by blast

lemma insert_by_in_order: "in_order lt xs \<Longrightarrow> in_order lt (insert_by lt x xs)"
proof (induction xs)
  case (Cons y ys)
  show ?case
  proof (cases "lt y x")
    case True
    with Cons show ?thesis by (auto dest: lt_asym)
  next
    case False
    with Cons.prems show ?thesis by simp (blast dest: lt_neg_trans)
  qed
qed simp

lemma sort_slice_in_order: "in_order lt (sort_slice lt xs)"
  by (induction xs) (auto intro: insert_by_in_order)

lemma sort_slice_hd_minimal:
  "x \<in> set xs \<Longrightarrow> \<not> lt x (hd (sort_slice lt xs))"
proof -
  assume x: "x \<in> set xs"
  then obtain y ys where s: "sort_slice lt xs = y # ys"
    by (cases "sort_slice lt xs") auto
  have "x \<in> set (y # ys)" using x by (metis s set_sort_slice)
  moreover have "in_order lt (y # ys)" using sort_slice_in_order by (metis s)
  ultimately show ?thesis using lt_irrefl by (auto simp: s)
qed

end

section \<open>Results, errors and panics\<close>

text \<open>
  \<open>ErrorCode\<close> is the struct of \<^verbatim>\<open>pkg/errors/error.go\<close>; it is declared here because an application
  error is one of the error values a call can return.
\<close>

record ErrorCode =
  ec_status :: int
  ec_module :: int
  ec_detailCode :: int

text \<open>
  The error values of the program.  A sentinel made by \<^verbatim>\<open>errors.New\<close> is a constructor of its own.
  \<open>Wrapf pre e suf\<close> is what \<^verbatim>\<open>fmt.Errorf\<close> returns for a format with one \<^verbatim>\<open>%w\<close>; \<open>Errorf msg\<close>
  what it returns for a format without; \<open>RedisNil\<close> is the client library's sentinel for a missing
  key and \<open>ClientError\<close> any other error of a library.
\<close>

datatype goerr =
    ErrAdNotFound
  | ErrConcurrentModification
  | ErrInvalidAdData
  | ErrQueueEmpty
  | ErrQueueFull
  | ErrQueueClosed
  | ErrItemLocked
  | RedisNil
  | ClientError string
  | Errorf string
  | Wrapf string goerr string
  | AppError (ae_err: string) (ae_code: int) (ae_message: string) (ae_original: "goerr option")
      (ae_errorCode: ErrorCode)

text \<open>\<^verbatim>\<open>errors.Is\<close> unwraps; the operator \<^verbatim>\<open>==\<close> on errors does not.\<close>

fun errors_is :: "goerr \<Rightarrow> goerr \<Rightarrow> bool" where
  "errors_is (Wrapf pre e suf) t = (Wrapf pre e suf = t \<or> errors_is e t)"
| "errors_is e t = (e = t)"

lemma errors_is_refl [simp]: "errors_is e e"
  by (cases e) auto

text \<open>A call returns a value, returns an error, or panics.\<close>

datatype 'a result = Ok 'a | Err goerr | Panic

fun is_ok :: "'a result \<Rightarrow> bool" where
  "is_ok (Ok x) = True"
| "is_ok (Err e) = False"
| "is_ok Panic = False"

text \<open>The slice expression \<^verbatim>\<open>xs[lo:hi]\<close>, which panics out of range.\<close>

definition go_slice :: "'a list \<Rightarrow> int \<Rightarrow> int \<Rightarrow> 'a list result" where
  "go_slice xs lo hi =
     (if 0 \<le> lo \<and> lo \<le> hi \<and> hi \<le> int (length xs)
      then Ok (take (nat (hi - lo)) (drop (nat lo) xs)) else Panic)"

lemma go_slice_prefix [go_simps]:
  "0 \<le> n \<Longrightarrow> n \<le> int (length xs) \<Longrightarrow> go_slice xs 0 n = Ok (take (nat n) xs)"
  by (simp add: go_slice_def)

lemma go_slice_subset: "go_slice xs lo hi = Ok ys \<Longrightarrow> set ys \<subseteq> set xs"
  by (auto simp: go_slice_def split: if_splits dest: in_set_takeD in_set_dropD)

text \<open>Integer division truncates towards zero.\<close>

definition go_quot :: "int \<Rightarrow> int \<Rightarrow> int" where
  "go_quot a b = sgn a * sgn b * (\<bar>a\<bar> div \<bar>b\<bar>)"

end
