(* ===== verification/Floats.thy ===== *)
theory Floats
  imports Prelude "HOL-Library.Log_Nat"
begin

text \<open>
  IEEE 754 binary64 as Go's \<^verbatim>\<open>float64\<close>: finite values are rationals, every operation is the exact
  rational operation followed by rounding to nearest, ties to even, with gradual underflow and
  overflow to infinity.  The sign of zero is not kept; no operation of the program observes it
  (its only division by a float is by a converted integer, whose zero is positive, or by 10).
\<close>

section \<open>Rounding to nearest, ties to even\<close>

definition rne :: "rat \<Rightarrow> int" where
  "rne x = (let f = \<lfloor>x\<rfloor>; d = x - of_int f in
     if d < 1 / 2 then f else if 1 / 2 < d then f + 1 else if even f then f else f + 1)"

lemma rne_of_int [simp]: "rne (of_int n) = n"
  by (simp add: rne_def)

lemma rne_floor: "rne x = \<lfloor>x\<rfloor> \<or> rne x = \<lfloor>x\<rfloor> + 1"
  by (simp add: rne_def Let_def)

lemma rne_ge: "of_int n \<le> x \<Longrightarrow> n \<le> rne x"
proof -
  assume "of_int n \<le> x"
  then have "n \<le> \<lfloor>x\<rfloor>" by (simp add: le_floor_iff)
  with rne_floor[of x] show ?thesis by linarith
qed

lemma rne_mono: "x \<le> y \<Longrightarrow> rne x \<le> rne y"
proof -
  assume xy: "x \<le> y"
  then have "\<lfloor>x\<rfloor> \<le> \<lfloor>y\<rfloor>" by (rule floor_mono)
  then consider "\<lfloor>x\<rfloor> = \<lfloor>y\<rfloor>" | "\<lfloor>x\<rfloor> + 1 \<le> \<lfloor>y\<rfloor>" by linarith
  then show ?thesis
  proof cases
    case 1
    with xy show ?thesis by (auto simp: rne_def Let_def)
  next
    case 2
    with rne_floor[of x] rne_floor[of y] show ?thesis by linarith
  qed
qed

lemma rne_le: "x \<le> of_int n \<Longrightarrow> rne x \<le> n"
  using rne_mono[of x "of_int n"] by simp

section \<open>The binary exponent of a positive rational\<close>

definition ilog2 :: "rat \<Rightarrow> int" where
  "ilog2 x = (case quotient_of x of (p, q) \<Rightarrow>
     let e = bitlen p - bitlen q in if 2 powi e \<le> x then e else e - 1)"

lemma bitlen_bounds_rat:
  assumes "p > 0"
  shows "2 powi (bitlen p - 1) \<le> (of_int p :: rat)" and "(of_int p :: rat) < 2 powi bitlen p"
proof -
  have pos: "1 \<le> bitlen p" using bitlen_eq_zero_iff[of p] bitlen_nonneg[of p] assms by linarith
  have "(of_int (2 ^ nat (bitlen p - 1)) :: rat) \<le> of_int p"
    "(of_int p :: rat) < of_int (2 ^ nat (bitlen p))"
    using bitlen_bounds[OF assms] by (simp_all only: of_int_le_iff of_int_less_iff)
  then show "2 powi (bitlen p - 1) \<le> (of_int p :: rat)" "(of_int p :: rat) < 2 powi bitlen p"
    using pos by (simp_all add: power_int_def)
qed

lemma ilog2_bounds:
  assumes "x > 0"
  shows "2 powi ilog2 x \<le> x" and "x < 2 powi (ilog2 x + 1)"
proof -
  obtain p q where pq: "quotient_of x = (p, q)" by (cases "quotient_of x")
  then have q: "q > 0" and x: "x = of_int p / of_int q"
    using quotient_of_denom_pos quotient_of_div by auto
  with assms have p: "p > 0" by (simp add: zero_less_divide_iff)
  let ?a = "bitlen p" and ?b = "bitlen q"
  note P = bitlen_bounds_rat[OF p] and Q = bitlen_bounds_rat[OF q]
  have lo: "2 powi (?a - ?b - 1) \<le> x"
  proof -
    have "2 powi (?a - ?b - 1) * of_int q \<le> 2 powi (?a - ?b - 1) * (2 powi ?b :: rat)"
      using Q(2) by (intro mult_left_mono) auto
    also have "\<dots> = 2 powi (?a - 1)" by (simp flip: power_int_add)
    also have "\<dots> \<le> of_int p" by (rule P(1))
    finally show ?thesis unfolding x using q by (simp add: pos_le_divide_eq)
  qed
  have hi: "x < 2 powi (?a - ?b + 1)"
  proof -
    have "of_int p < (2 powi ?a :: rat)" by (rule P(2))
    also have "\<dots> = 2 powi (?a - ?b + 1) * 2 powi (?b - 1)" by (simp flip: power_int_add)
    also have "\<dots> \<le> 2 powi (?a - ?b + 1) * of_int q"
      using Q(1) by (intro mult_left_mono) auto
    finally show ?thesis unfolding x using q by (simp add: pos_divide_less_eq)
  qed
  show "2 powi ilog2 x \<le> x" "x < 2 powi (ilog2 x + 1)"
    using lo hi by (auto simp: ilog2_def pq Let_def algebra_simps)
qed

lemma ilog2_mono:
  assumes "0 < x" and "x \<le> y"
  shows "ilog2 x \<le> ilog2 y"
proof (rule ccontr)
  assume "\<not> ilog2 x \<le> ilog2 y"
  then have "ilog2 y + 1 \<le> ilog2 x" by simp
  then have "(2::rat) powi (ilog2 y + 1) \<le> 2 powi ilog2 x" by (intro power_int_increasing) auto
  with ilog2_bounds(1)[of x] ilog2_bounds(2)[of y] assms show False by linarith
qed

section \<open>Rounding to 53 significant bits\<close>

definition ulp_exp :: "rat \<Rightarrow> int" where
  "ulp_exp x = max (ilog2 x - 52) (- 1074)"

definition round_pos :: "rat \<Rightarrow> rat" where
  "round_pos x = of_int (rne (x / 2 powi ulp_exp x)) * 2 powi ulp_exp x"

definition round64 :: "rat \<Rightarrow> rat" where
  "round64 x = (if x = 0 then 0 else if 0 < x then round_pos x else - round_pos (- x))"

lemma round_pos_nonneg: "0 < x \<Longrightarrow> 0 \<le> round_pos x"
proof -
  assume "0 < x"
  then have "0 \<le> rne (x / 2 powi ulp_exp x)" by (intro rne_ge) simp
  then show ?thesis by (simp add: round_pos_def)
qed

text \<open>A multiple of the unit in the last place bounds the rounded value when it bounds the value.\<close>

lemma round_pos_le_multiple:
  assumes "x \<le> of_int n * 2 powi ulp_exp x"
  shows "round_pos x \<le> of_int n * 2 powi ulp_exp x"
proof -
  from assms have "x / 2 powi ulp_exp x \<le> of_int n" by (simp add: divide_le_eq)
  then have "rne (x / 2 powi ulp_exp x) \<le> n" by (rule rne_le)
  then have "(of_int (rne (x / 2 powi ulp_exp x)) :: rat) \<le> of_int n" by (simp only: of_int_le_iff)
  then show ?thesis unfolding round_pos_def by (rule mult_right_mono) simp
qed

lemma round_pos_ge_multiple:
  assumes "of_int n * 2 powi ulp_exp x \<le> x"
  shows "of_int n * 2 powi ulp_exp x \<le> round_pos x"
proof -
  from assms have "of_int n \<le> x / 2 powi ulp_exp x" by (simp add: le_divide_eq)
  then have "n \<le> rne (x / 2 powi ulp_exp x)" by (rule rne_ge)
  then have "(of_int n :: rat) \<le> of_int (rne (x / 2 powi ulp_exp x))" by (simp only: of_int_le_iff)
  then show ?thesis unfolding round_pos_def by (rule mult_right_mono) simp
qed

lemma powi_multiple: "e \<le> k \<Longrightarrow> (2::rat) powi k = of_int (2 ^ nat (k - e)) * 2 powi e"
proof -
  assume "e \<le> k"
  then have "(of_int (2 ^ nat (k - e)) :: rat) = 2 powi (k - e)" by (simp add: power_int_def)
  then show ?thesis by (simp flip: power_int_add)
qed

lemma round_pos_mono:
  assumes "0 < x" and "x \<le> y"
  shows "round_pos x \<le> round_pos y"
proof -
  have "ilog2 x \<le> ilog2 y" using assms by (rule ilog2_mono)
  then consider "ulp_exp x = ulp_exp y"
    | "ulp_exp x < ulp_exp y" "ilog2 x + 1 \<le> ilog2 y" "ulp_exp y = ilog2 y - 52"
    unfolding ulp_exp_def by linarith
  then show ?thesis
  proof cases
    case 1
    have "rne (x / 2 powi ulp_exp y) \<le> rne (y / 2 powi ulp_exp y)"
      using assms by (intro rne_mono divide_right_mono) auto
    then have "(of_int (rne (x / 2 powi ulp_exp y)) :: rat) \<le> of_int (rne (y / 2 powi ulp_exp y))"
      by (simp only: of_int_le_iff)
    then show ?thesis unfolding round_pos_def 1 by (rule mult_right_mono) simp
  next
    case 2
    let ?k = "ilog2 y"
    have "x < 2 powi (ilog2 x + 1)" using assms(1) by (rule ilog2_bounds(2))
    also have "\<dots> \<le> 2 powi ?k" using 2 by (intro power_int_increasing) auto
    finally have "x \<le> 2 powi ?k" by simp
    moreover have "2 powi ?k \<le> y" using assms by (intro ilog2_bounds(1)) auto
    moreover have "ulp_exp x \<le> ?k" "ulp_exp y \<le> ?k" using 2 by auto
    ultimately have "round_pos x \<le> 2 powi ?k" "2 powi ?k \<le> round_pos y"
      using round_pos_le_multiple[of x "2 ^ nat (?k - ulp_exp x)"]
        round_pos_ge_multiple[of "2 ^ nat (?k - ulp_exp y)" y] powi_multiple
      by (metis, metis)
    then show ?thesis by simp
  qed
qed

lemma round64_mono: "x \<le> y \<Longrightarrow> round64 x \<le> round64 y"
proof -
  assume xy: "x \<le> y"
  consider "0 < x" | "x \<le> 0" "0 \<le> y" | "y < 0" by linarith
  then show ?thesis
  proof cases
    case 1
    with xy round_pos_mono[of x y] show ?thesis by (simp add: round64_def)
  next
    case 2
    then have "round64 x \<le> 0" "0 \<le> round64 y"
      using round_pos_nonneg[of "- x"] round_pos_nonneg[of y] by (auto simp: round64_def)
    then show ?thesis by simp
  next
    case 3
    with xy round_pos_mono[of "- y" "- x"] show ?thesis by (simp add: round64_def)
  qed
qed

lemma round_pos_of_int:
  assumes "0 < n" and "n < 2 ^ 53"
  shows "round_pos (of_int n) = of_int n"
proof -
  let ?e = "ulp_exp (of_int n)"
  have "(2::rat) powi ilog2 (of_int n) \<le> of_int n" using assms by (intro ilog2_bounds(1)) simp
  also have "(of_int n :: rat) < of_int (2 ^ 53)" using assms(2) by (simp only: of_int_less_iff)
  also have "\<dots> = 2 powi 53" by (simp add: power_int_def)
  finally have lt: "(2::rat) powi ilog2 (of_int n) < 2 powi 53" .
  have "ilog2 (of_int n) < 53"
  proof (rule ccontr)
    assume "\<not> ilog2 (of_int n) < 53"
    then have "(2::rat) powi 53 \<le> 2 powi ilog2 (of_int n)" by (intro power_int_increasing) auto
    with lt show False by simp
  qed
  then have e: "?e \<le> 0" by (simp add: ulp_exp_def)
  have "(of_int n :: rat) = of_int n * 2 powi 0" by simp
  also have "\<dots> = of_int (n * 2 ^ nat (0 - ?e)) * 2 powi ?e"
    using powi_multiple[OF e] by simp
  finally have mult: "(of_int n :: rat) = of_int (n * 2 ^ nat (0 - ?e)) * 2 powi ?e" .
  show ?thesis
    using round_pos_le_multiple[of "of_int n" "n * 2 ^ nat (0 - ?e)"]
      round_pos_ge_multiple[of "n * 2 ^ nat (0 - ?e)" "of_int n"] mult
    by (metis order.antisym order.refl)
qed

text \<open>Halving is exact.\<close>

lemma round_pos_half:
  assumes "0 < n" and "n < 2 ^ 52"
  shows "round_pos (of_int n / 2) = of_int n / 2"
proof -
  let ?x = "of_int n / 2 :: rat"
  let ?e = "ulp_exp ?x"
  have "(2::rat) powi ilog2 ?x \<le> ?x" using assms by (intro ilog2_bounds(1)) simp
  also have "?x < 2 powi 51"
  proof -
    have "(of_int n :: rat) < of_int (2 ^ 52)" using assms(2) by (simp only: of_int_less_iff)
    then show ?thesis by (simp add: power_int_def)
  qed
  finally have lt: "(2::rat) powi ilog2 ?x < 2 powi 51" .
  have "ilog2 ?x < 51"
  proof (rule ccontr)
    assume "\<not> ilog2 ?x < 51"
    then have "(2::rat) powi 51 \<le> 2 powi ilog2 ?x" by (intro power_int_increasing) auto
    with lt show False by simp
  qed
  then have e: "?e \<le> - 1" by (simp add: ulp_exp_def)
  have "?x = of_int n * 2 powi (- 1)" by (simp add: power_int_def)
  also have "\<dots> = of_int (n * 2 ^ nat (- 1 - ?e)) * 2 powi ?e"
    using powi_multiple[OF e] by simp
  finally have mult: "?x = of_int (n * 2 ^ nat (- 1 - ?e)) * 2 powi ?e" .
  show ?thesis
    using round_pos_le_multiple[of ?x "n * 2 ^ nat (- 1 - ?e)"]
      round_pos_ge_multiple[of "n * 2 ^ nat (- 1 - ?e)" ?x] mult
    by (metis order.antisym order.refl)
qed

lemma round64_half: "0 < n \<Longrightarrow> n < 2 ^ 52 \<Longrightarrow> round64 (of_int n / 2) = of_int n / 2"
  using round_pos_half[of n] by (simp add: round64_def)

lemma round64_of_int: "\<bar>n\<bar> < 2 ^ 53 \<Longrightarrow> round64 (of_int n) = of_int n"
  using round_pos_of_int[of n] round_pos_of_int[of "- n"] by (auto simp: round64_def)

text \<open>
  The rounded value of a given rational, from its binary exponent and its nearest multiple of the
  unit: the way to evaluate \<open>round64\<close> at a literal.
\<close>

lemma ilog2_eqI: "2 powi k \<le> x \<Longrightarrow> x < 2 powi (k + 1) \<Longrightarrow> ilog2 x = k"
proof -
  assume k: "2 powi k \<le> x" "x < 2 powi (k + 1)"
  have "0 < (2::rat) powi k" by simp
  with k have "0 < x" by linarith
  note b = ilog2_bounds[OF this]
  have "\<not> ilog2 x + 1 \<le> k" using b(2) k(1) power_int_increasing[of "ilog2 x + 1" k "2::rat"] by fastforce
  moreover have "\<not> k + 1 \<le> ilog2 x" using b(1) k(2) power_int_increasing[of "k + 1" "ilog2 x" "2::rat"] by fastforce
  ultimately show ?thesis by simp
qed

lemma rne_eqI: "\<bar>x - of_int m\<bar> < 1 / 2 \<Longrightarrow> rne x = m"
proof -
  assume m: "\<bar>x - of_int m\<bar> < 1 / 2"
  then have "\<lfloor>x\<rfloor> = m \<or> \<lfloor>x\<rfloor> = m - 1" by (auto simp: floor_eq_iff abs_less_iff)
  with m show ?thesis by (auto simp: rne_def Let_def abs_less_iff)
qed

lemma round64_eqI:
  assumes "2 powi k \<le> x" and "x < 2 powi (k + 1)" and "- 1022 \<le> k"
    and "\<bar>x / 2 powi (k - 52) - of_int m\<bar> < 1 / 2"
  shows "round64 x = of_int m * 2 powi (k - 52)"
proof -
  have "0 < (2::rat) powi k" by simp
  with assms(1) have "0 < x" by linarith
  with ilog2_eqI[OF assms(1,2)] rne_eqI[OF assms(4)] assms(3) show ?thesis
    by (simp add: round64_def round_pos_def ulp_exp_def)
qed

section \<open>The contract of rounding\<close>

text \<open>
  What the program relies on when it computes with floats: rounding is monotone and leaves the
  integers below \<open>2 ^ 53\<close> alone.  So a rounded quantity stays within the integer bounds of the
  exact one.
\<close>

locale float_rounding =
  fixes rnd :: "rat \<Rightarrow> rat"
  assumes rnd_mono: "x \<le> y \<Longrightarrow> rnd x \<le> rnd y"
    and rnd_of_int: "\<bar>n\<bar> < 2 ^ 53 \<Longrightarrow> rnd (of_int n) = of_int n"
begin

lemma rnd_ge_int: "\<bar>n\<bar> < 2 ^ 53 \<Longrightarrow> of_int n \<le> x \<Longrightarrow> of_int n \<le> rnd x"
  using rnd_mono[of "of_int n" x] by (simp add: rnd_of_int)

lemma rnd_le_int: "\<bar>n\<bar> < 2 ^ 53 \<Longrightarrow> x \<le> of_int n \<Longrightarrow> rnd x \<le> of_int n"
  using rnd_mono[of x "of_int n"] by (simp add: rnd_of_int)

lemma rnd_nonneg: "0 \<le> x \<Longrightarrow> 0 \<le> rnd x"
  using rnd_ge_int[of 0 x] by simp

lemma rnd_zero [simp]: "rnd 0 = 0"
  using rnd_of_int[of 0] by simp

lemma rnd_le_one: "x \<le> 1 \<Longrightarrow> rnd x \<le> 1"
  using rnd_le_int[of 1 x] by simp

lemma rnd_mult_le_int:
  assumes "\<bar>n\<bar> < 2 ^ 53" and "0 \<le> y" and "y \<le> 1" and "0 \<le> n"
  shows "0 \<le> rnd (of_int n * y)" and "rnd (of_int n * y) \<le> of_int n"
proof -
  have "0 \<le> of_int n * y" "of_int n * y \<le> of_int n"
    using assms by (auto intro: mult_left_le)
  then show "0 \<le> rnd (of_int n * y)" "rnd (of_int n * y) \<le> of_int n"
    using rnd_nonneg rnd_le_int[OF assms(1)] by auto
qed

end

interpretation r64: float_rounding round64
  by unfold_locales (auto intro: round64_mono round64_of_int)

section \<open>The values and operations of float64\<close>

datatype float64 = Fin rat | PInf | NInf | NaN

definition f64 :: "rat \<Rightarrow> float64" where
  "f64 x = (let r = round64 x in
     if 2 ^ 1024 \<le> r then PInf else if r \<le> - (2 ^ 1024) then NInf else Fin r)"

definition f64_of_int :: "int \<Rightarrow> float64" where
  "f64_of_int n = f64 (of_int n)"

fun f64_neg :: "float64 \<Rightarrow> float64" where
  "f64_neg (Fin x) = Fin (- x)"
| "f64_neg PInf = NInf"
| "f64_neg NInf = PInf"
| "f64_neg NaN = NaN"

fun f64_add :: "float64 \<Rightarrow> float64 \<Rightarrow> float64" where
  "f64_add (Fin x) (Fin y) = f64 (x + y)"
| "f64_add NaN _ = NaN"
| "f64_add _ NaN = NaN"
| "f64_add PInf NInf = NaN"
| "f64_add NInf PInf = NaN"
| "f64_add PInf _ = PInf"
| "f64_add NInf _ = NInf"
| "f64_add (Fin _) y = y"

definition f64_sub :: "float64 \<Rightarrow> float64 \<Rightarrow> float64" where
  "f64_sub x y = f64_add x (f64_neg y)"

definition f64_inf :: "rat \<Rightarrow> float64" where
  "f64_inf s = (if s = 0 then NaN else if 0 < s then PInf else NInf)"

fun f64_mul :: "float64 \<Rightarrow> float64 \<Rightarrow> float64" where
  "f64_mul (Fin x) (Fin y) = f64 (x * y)"
| "f64_mul NaN _ = NaN"
| "f64_mul _ NaN = NaN"
| "f64_mul (Fin x) PInf = f64_inf x"
| "f64_mul (Fin x) NInf = f64_inf (- x)"
| "f64_mul PInf (Fin y) = f64_inf y"
| "f64_mul NInf (Fin y) = f64_inf (- y)"
| "f64_mul PInf PInf = PInf"
| "f64_mul NInf NInf = PInf"
| "f64_mul PInf NInf = NInf"
| "f64_mul NInf PInf = NInf"

fun f64_div :: "float64 \<Rightarrow> float64 \<Rightarrow> float64" where
  "f64_div (Fin x) (Fin y) = (if y = 0 then f64_inf x else f64 (x / y))"
| "f64_div NaN _ = NaN"
| "f64_div _ NaN = NaN"
| "f64_div (Fin x) _ = Fin 0"
| "f64_div PInf (Fin y) = (if 0 \<le> y then PInf else NInf)"
| "f64_div NInf (Fin y) = (if 0 \<le> y then NInf else PInf)"
| "f64_div _ _ = NaN"

fun f64_lt :: "float64 \<Rightarrow> float64 \<Rightarrow> bool" where
  "f64_lt (Fin x) (Fin y) = (x < y)"
| "f64_lt NaN _ = False"
| "f64_lt _ NaN = False"
| "f64_lt NInf NInf = False"
| "f64_lt NInf _ = True"
| "f64_lt _ PInf = True"
| "f64_lt _ _ = False"

text \<open>
  The conversion \<^verbatim>\<open>int(f)\<close> truncates towards zero.  Out of range the Go specification leaves the
  value to the implementation; the model takes that of amd64, the smallest 64-bit integer.
\<close>

definition trunc_rat :: "rat \<Rightarrow> int" where
  "trunc_rat x = (if 0 \<le> x then \<lfloor>x\<rfloor> else \<lceil>x\<rceil>)"

fun f64_to_int :: "float64 \<Rightarrow> int" where
  "f64_to_int (Fin x) = (if in_i64 (trunc_rat x) then trunc_rat x else - (2 ^ 63))"
| "f64_to_int _ = - (2 ^ 63)"

lemma trunc_rat_bounds: "of_int a \<le> x \<Longrightarrow> x \<le> of_int b \<Longrightarrow> a \<le> trunc_rat x \<and> trunc_rat x \<le> b"
  using floor_mono[of x "of_int b"] ceiling_mono[of "of_int a" x]
  by (auto simp: trunc_rat_def le_floor_iff ceiling_le_iff)

text \<open>Between two integers below \<open>2 ^ 53\<close> nothing overflows, and truncation stays between them.\<close>

lemma f64_between:
  assumes "\<bar>a\<bar> < 2 ^ 53" and "\<bar>b\<bar> < 2 ^ 53" and "of_int a \<le> x" and "x \<le> of_int b"
  shows "f64 x = Fin (round64 x)" and "of_int a \<le> round64 x" and "round64 x \<le> of_int b"
proof -
  show lo: "of_int a \<le> round64 x" and hi: "round64 x \<le> of_int b"
    using assms r64.rnd_ge_int r64.rnd_le_int by auto
  have "(2::int) ^ 53 \<le> 2 ^ 1024" by (rule power_increasing) auto
  with assms(1,2) have "b < 2 ^ 1024" "- (2 ^ 1024) < a" by linarith+
  then have "(of_int b :: rat) < of_int (2 ^ 1024)" "(of_int (- (2 ^ 1024)) :: rat) < of_int a"
    by (simp_all only: of_int_less_iff)
  with lo hi have "round64 x < 2 ^ 1024" "- (2 ^ 1024) < round64 x" by simp_all
  then show "f64 x = Fin (round64 x)" by (simp add: f64_def Let_def)
qed

lemma f64_of_int_small [simp]: "\<bar>n\<bar> < 2 ^ 53 \<Longrightarrow> f64_of_int n = Fin (of_int n)"
  using f64_between(1)[of n n "of_int n"] by (simp add: f64_of_int_def r64.rnd_of_int)

lemma f64_to_int_between:
  assumes "\<bar>a\<bar> < 2 ^ 53" and "\<bar>b\<bar> < 2 ^ 53" and "of_int a \<le> x" and "x \<le> of_int b"
  shows "a \<le> f64_to_int (Fin x)" and "f64_to_int (Fin x) \<le> b"
proof -
  from trunc_rat_bounds[OF assms(3,4)] have t: "a \<le> trunc_rat x" "trunc_rat x \<le> b" by auto
  with assms(1,2) have "in_i64 (trunc_rat x)" by (simp add: in_i64_def abs_less_iff)
  with t show "a \<le> f64_to_int (Fin x)" "f64_to_int (Fin x) \<le> b" by simp_all
qed

text \<open>Every 64-bit integer converts to a finite float, monotonically.\<close>

lemma round64_powi: "- 1022 \<le> k \<Longrightarrow> round64 (2 powi k) = 2 powi k"
proof -
  assume k: "- 1022 \<le> k"
  have m: "of_int (2 ^ 52) * (2::rat) powi (k - 52) = 2 powi k"
    using powi_multiple[of "k - 52" k] by simp
  then have "(2::rat) powi k / 2 powi (k - 52) = of_int (2 ^ 52)"
    by (simp add: divide_eq_eq)
  moreover note m
  ultimately show ?thesis
    using round64_eqI[of k "2 powi k" "2 ^ 52"] k power_int_strict_increasing[of k "k + 1" "2::rat"] by simp
qed

lemma f64_Fin:
  assumes "0 \<le> x" and "x \<le> 2 ^ 63"
  shows "f64 x = Fin (round64 x)"
proof -
  have "round64 (2 powi 63) = 2 powi 63" by (rule round64_powi) simp
  then have "round64 (2 ^ 63) = 2 ^ 63" by (simp add: power_int_def)
  with round64_mono[OF assms(2)] have "round64 x \<le> 2 ^ 63" by simp
  also have "(2::rat) ^ 63 < 2 ^ 1024" by (rule power_strict_increasing) auto
  finally have "round64 x < 2 ^ 1024" .
  moreover have "- (2 ^ 1024) < round64 x"
  proof -
    have "- (2 ^ 1024) < (0::rat)" by simp
    also have "0 \<le> round64 x" using assms(1) by (rule r64.rnd_nonneg)
    finally show ?thesis .
  qed
  ultimately show ?thesis by (simp add: f64_def Let_def)
qed

lemma f64_of_int_Fin:
  assumes "0 \<le> n" and "in_i64 n"
  shows "f64_of_int n = Fin (round64 (of_int n))"
proof -
  from assms(2) have "n \<le> 2 ^ 63" by (simp add: in_i64_def)
  then have "(of_int n :: rat) \<le> of_int (2 ^ 63)" by (simp only: of_int_le_iff)
  with assms(1) show ?thesis unfolding f64_of_int_def by (intro f64_Fin) simp_all
qed

end
