(* ===== verification/Ad_Model.thy ===== *)
theory Ad_Model
  imports Floats
begin

text \<open>
  The domain model (\<^verbatim>\<open>internal/domain/models/ad.go\<close>, \<^verbatim>\<open>enum.go\<close>): an advertisement, its status and
  the methods that change it.  A method with a pointer receiver returns the updated record; a
  method that reads the clock takes the instant as its argument.
\<close>

named_theorems ad_defs \<open>definitions of the methods of an ad\<close>

section \<open>Status\<close>

text \<open>
  \<^verbatim>\<open>AdStatus\<close> is a string type: the service converts any query string to one.  The five constants
  are constructors; any other string is \<open>StatusOther\<close>.
\<close>

datatype AdStatus =
    StatusSubmitted
  | StatusQueued
  | StatusProcessing
  | StatusCompleted
  | StatusFailed
  | StatusOther string

definition AdStatus_of :: "string \<Rightarrow> AdStatus" where
  "AdStatus_of s =
     (if s = ''submitted'' then StatusSubmitted
      else if s = ''queued'' then StatusQueued
      else if s = ''processing'' then StatusProcessing
      else if s = ''completed'' then StatusCompleted
      else if s = ''failed'' then StatusFailed
      else StatusOther s)"

fun string_of_status :: "AdStatus \<Rightarrow> string" where
  "string_of_status StatusSubmitted = ''submitted''"
| "string_of_status StatusQueued = ''queued''"
| "string_of_status StatusProcessing = ''processing''"
| "string_of_status StatusCompleted = ''completed''"
| "string_of_status StatusFailed = ''failed''"
| "string_of_status (StatusOther s) = s"

lemma string_of_AdStatus_of [simp]: "string_of_status (AdStatus_of s) = s"
  by (simp add: AdStatus_of_def)

section \<open>The structs\<close>

record AdSubmission =
  Title :: string
  Description :: string
  Genre :: string
  TargetAudience :: "string list"
  VisualElements :: "string list"
  CallToAction :: string
  Duration :: int
  Priority :: int

record AdAnalysis =
  EffectivenessScore :: float64
  Strengths :: "string list"
  ImprovementSuggestions :: "string list"

text \<open>
  \<^verbatim>\<open>Ad\<close> embeds \<^verbatim>\<open>AdSubmission\<close>, so its record extends that of the submission.  A pointer field
  (a time, the analysis) is an option; the code never writes through one of them, so sharing
  between copies of an ad is not observable.
\<close>

record Ad = AdSubmission +
  AdID :: string
  Status :: AdStatus
  CreatedAt :: instant
  QueuedAt :: "instant option"
  ProcessingStartedAt :: "instant option"
  CompletedAt :: "instant option"
  Analysis :: "AdAnalysis option"
  Error :: string
  Attempts :: int
  WorkerID :: string
  Version :: int
  EffectivePriority :: int

text \<open>The named priorities of \<^verbatim>\<open>enum.go\<close>; nothing in the program uses the names.\<close>

definition PriorityHighest :: int where "PriorityHighest = 1"
definition PriorityHigh :: int where "PriorityHigh = 2"
definition PriorityMedium :: int where "PriorityMedium = 3"
definition PriorityLow :: int where "PriorityLow = 4"
definition PriorityLowest :: int where "PriorityLowest = 5"

text \<open>A submission and an ad for the concrete instances below and in the other theories.\<close>

definition sample_submission :: "int \<Rightarrow> AdSubmission" where
  "sample_submission p = \<lparr>Title = ''Dragon Kingdom'', Description = ''Build'', Genre = ''Strategy'',
     TargetAudience = [''18-34''], VisualElements = [''Castle''], CallToAction = ''Download'',
     Duration = 30, Priority = p\<rparr>"

section \<open>Methods\<close>

definition NewAd :: "instant \<Rightarrow> AdSubmission \<Rightarrow> Ad" where [ad_defs]:
  "NewAd now submission =
     (let submission = (if Priority submission \<le> 0 then submission\<lparr>Priority := 5\<rparr> else submission)
      in AdSubmission.extend submission
           (Ad.fields '''' StatusSubmitted now None None None None '''' 0 '''' 1 0))"

definition SetStatus :: "instant \<Rightarrow> AdStatus \<Rightarrow> Ad \<Rightarrow> Ad" where [ad_defs]:
  "SetStatus now newStatus a =
     (let a = a\<lparr>Status := newStatus\<rparr> in
      if newStatus = StatusQueued
      then a\<lparr>QueuedAt := Some now, EffectivePriority := Priority a\<rparr>
      else if newStatus = StatusProcessing then a\<lparr>ProcessingStartedAt := Some now\<rparr>
      else if newStatus = StatusCompleted then a\<lparr>CompletedAt := Some now\<rparr>
      else a)"

definition IncrementAttempts :: "Ad \<Rightarrow> Ad" where [ad_defs]:
  "IncrementAttempts a = a\<lparr>Attempts := i64 (Attempts a + 1)\<rparr>"

definition AssignWorker :: "string \<Rightarrow> Ad \<Rightarrow> Ad" where [ad_defs]:
  "AssignWorker workerID a = a\<lparr>WorkerID := workerID\<rparr>"

definition SetAnalysisResults :: "AdAnalysis \<Rightarrow> Ad \<Rightarrow> Ad" where [ad_defs]:
  "SetAnalysisResults analysis a = a\<lparr>Analysis := Some analysis\<rparr>"

definition SetError :: "instant \<Rightarrow> string \<Rightarrow> Ad \<Rightarrow> Ad" where [ad_defs]:
  "SetError now errorMsg a = SetStatus now StatusFailed (a\<lparr>Error := errorMsg\<rparr>)"

definition IsProcessable :: "Ad \<Rightarrow> bool" where [ad_defs]:
  "IsProcessable a \<longleftrightarrow> Status a = StatusSubmitted \<or> Status a = StatusQueued"

definition CanBeRequeued :: "int \<Rightarrow> Ad \<Rightarrow> bool" where [ad_defs]:
  "CanBeRequeued maxAttempts a \<longleftrightarrow> Status a = StatusFailed \<and> Attempts a < maxAttempts"

definition GetWaitingTime :: "instant \<Rightarrow> Ad \<Rightarrow> duration" where [ad_defs]:
  "GetWaitingTime now a = (case QueuedAt a of None \<Rightarrow> 0 | Some q \<Rightarrow> time_since now q)"

definition HasExceededMaxWaitTime :: "instant \<Rightarrow> duration \<Rightarrow> Ad \<Rightarrow> bool" where [ad_defs]:
  "HasExceededMaxWaitTime now maxWaitTime a \<longleftrightarrow> maxWaitTime < GetWaitingTime now a"

subsection \<open>Priority aging\<close>

definition waitingRatio :: "duration \<Rightarrow> duration \<Rightarrow> float64" where
  "waitingRatio waitingTime maxWaitTime =
     (let r = f64_div (f64_of_int waitingTime) (f64_of_int maxWaitTime)
      in if f64_lt (f64_of_int 1) r then f64_of_int 1 else r)"

definition priorityBoost :: "int \<Rightarrow> float64 \<Rightarrow> float64 \<Rightarrow> int" where
  "priorityBoost p ratio agingRate = f64_to_int (f64_mul (f64_mul (f64_of_int p) ratio) agingRate)"

definition CalculateEffectivePriority ::
  "float64 \<Rightarrow> duration \<Rightarrow> instant \<Rightarrow> Ad \<Rightarrow> int \<times> Ad" where
  "CalculateEffectivePriority agingRate maxWaitTime now a =
     (case QueuedAt a of
        None \<Rightarrow> (Priority a, a)
      | Some q \<Rightarrow>
          if Status a \<noteq> StatusQueued then (Priority a, a)
          else
            let ratio = waitingRatio (time_since now q) maxWaitTime;
                boost = priorityBoost (Priority a) ratio agingRate;
                effectivePriority = i64 (Priority a - boost);
                effectivePriority = (if effectivePriority < 1 then 1 else effectivePriority)
            in (effectivePriority, a\<lparr>EffectivePriority := effectivePriority\<rparr>))"

section \<open>Lemmas\<close>

text \<open>A submission without a priority gets the lowest named one.\<close>

lemma NewAd_default_priority: "Priority s \<le> 0 \<Longrightarrow> Priority (NewAd now s) = PriorityLowest"
  by (simp add: NewAd_def PriorityLowest_def AdSubmission.defs Ad.defs)


lemma SetStatus_simps [simp]:
  "Status (SetStatus now s a) = s"
  "AdID (SetStatus now s a) = AdID a"
  "Version (SetStatus now s a) = Version a"
  "Attempts (SetStatus now s a) = Attempts a"
  "Priority (SetStatus now s a) = Priority a"
  "CreatedAt (SetStatus now s a) = CreatedAt a"
  "WorkerID (SetStatus now s a) = WorkerID a"
  "Analysis (SetStatus now s a) = Analysis a"
  by (simp_all add: SetStatus_def Let_def)

lemma SetStatus_timestamps [simp]:
  "QueuedAt (SetStatus now s a) = (if s = StatusQueued then Some now else QueuedAt a)"
  "ProcessingStartedAt (SetStatus now s a) =
     (if s = StatusProcessing then Some now else ProcessingStartedAt a)"
  "CompletedAt (SetStatus now s a) = (if s = StatusCompleted then Some now else CompletedAt a)"
  "EffectivePriority (SetStatus now s a) =
     (if s = StatusQueued then Priority a else EffectivePriority a)"
  by (simp_all add: SetStatus_def Let_def)

lemma NewAd_simps [simp]:
  "AdID (NewAd now s) = ''''" "Status (NewAd now s) = StatusSubmitted"
  "CreatedAt (NewAd now s) = now" "Attempts (NewAd now s) = 0" "Version (NewAd now s) = 1"
  "Priority (NewAd now s) = (if Priority s \<le> 0 then 5 else Priority s)"
  "ProcessingStartedAt (NewAd now s) = None" "QueuedAt (NewAd now s) = None"
  "CompletedAt (NewAd now s) = None" "Analysis (NewAd now s) = None"
  "Title (NewAd now s) = Title s" "Description (NewAd now s) = Description s"
  by (simp_all add: NewAd_def Let_def AdSubmission.defs Ad.defs)

lemma waitingRatio_Fin:
  assumes w: "0 \<le> w" "in_i64 w" and m: "0 < m" "in_i64 m"
  defines "d \<equiv> round64 (round64 (of_int w) / round64 (of_int m))"
  shows "waitingRatio w m = Fin (min 1 d)" and "0 \<le> d"
proof -
  have m1: "1 \<le> round64 (of_int m)"
    using r64.rnd_ge_int[of 1 "of_int m"] m by simp
  have w0: "0 \<le> round64 (of_int w)" using w by (intro r64.rnd_nonneg) simp
  have "w \<le> 2 ^ 63" using w(2) by (simp add: in_i64_def)
  then have "(of_int w :: rat) \<le> of_int (2 ^ 63)" by (simp only: of_int_le_iff)
  then have "round64 (of_int w) \<le> round64 (2 powi 63)" by (intro round64_mono) (simp add: power_int_def)
  also have "\<dots> = 2 powi 63" by (rule round64_powi) simp
  finally have "round64 (of_int w) \<le> 2 ^ 63" by (simp add: power_int_def)
  moreover have "round64 (of_int w) / round64 (of_int m) \<le> round64 (of_int w)"
    using divide_left_mono[OF m1 w0] m1 by simp
  ultimately have q: "0 \<le> round64 (of_int w) / round64 (of_int m)"
    "round64 (of_int w) / round64 (of_int m) \<le> 2 ^ 63" using w0 m1 by auto
  show "0 \<le> d" unfolding d_def using q(1) by (rule r64.rnd_nonneg)
  have "waitingRatio w m = (if 1 < d then Fin 1 else Fin d)"
    using w m m1 f64_Fin[OF q] by (simp add: waitingRatio_def f64_of_int_Fin d_def)
  then show "waitingRatio w m = Fin (min 1 d)" by (simp add: min_def)
qed

lemma waitingRatio_mono:
  assumes "0 \<le> w" "w \<le> w'" "in_i64 w'" "0 < m" "in_i64 m"
  shows "\<exists>r r'. waitingRatio w m = Fin r \<and> waitingRatio w' m = Fin r' \<and> 0 \<le> r \<and> r \<le> r' \<and> r' \<le> 1"
proof -
  have iw: "in_i64 w" using assms by (simp add: in_i64_def)
  have m0: "0 \<le> round64 (of_int m)" using assms(4) by (intro r64.rnd_nonneg) simp
  have "round64 (of_int w) \<le> round64 (of_int w')" using assms(2) by (intro round64_mono) simp
  then have "round64 (round64 (of_int w) / round64 (of_int m))
      \<le> round64 (round64 (of_int w') / round64 (of_int m))"
    using m0 by (intro round64_mono[OF divide_right_mono])
  with waitingRatio_Fin[OF assms(1) iw assms(4,5)] waitingRatio_Fin[OF _ assms(3,4,5)] assms(1,2)
  show ?thesis by auto
qed

text \<open>
  The boost of a positive priority, for an aging rate of at most 1, lies between 0 and the
  priority, and grows with the waiting ratio.
\<close>

lemma priorityBoost_mono:
  assumes p: "0 \<le> p" "p < 2 ^ 53" and r: "0 \<le> r" "r \<le> r'" "r' \<le> 1" and g: "0 \<le> g" "g \<le> 1"
  shows "0 \<le> priorityBoost p (Fin r) (Fin g)"
    and "priorityBoost p (Fin r) (Fin g) \<le> priorityBoost p (Fin r') (Fin g)"
    and "priorityBoost p (Fin r') (Fin g) \<le> p"
proof -
  let ?x = "\<lambda>r. round64 (of_int p * r)"
  have ap: "\<bar>p\<bar> < 2 ^ 53" using p by simp
  have x: "0 \<le> ?x r" "?x r \<le> ?x r'" "?x r' \<le> of_int p"
    using p r r64.rnd_mult_le_int[OF ap, of r] r64.rnd_mult_le_int[OF ap, of r']
    by (auto intro!: round64_mono mult_left_mono)
  have y: "0 \<le> ?x r * g" "?x r * g \<le> ?x r' * g" "?x r' * g \<le> of_int p"
    using x g mult_mono[of "?x r'" "of_int p" g 1] by (auto intro: mult_right_mono)
  have B: "f64_mul (f64_mul (f64_of_int p) (Fin s)) (Fin g) = Fin (round64 (?x s * g))"
    if "0 \<le> s" "s \<le> 1" for s
  proof -
    have s: "0 \<le> of_int p * s" "of_int p * s \<le> of_int p" using p that by (auto intro: mult_left_le)
    have xs: "0 \<le> ?x s" "?x s \<le> of_int p" using r64.rnd_mult_le_int[OF ap that p(1)] by auto
    then have "0 \<le> ?x s * g" "?x s * g \<le> of_int p"
      using g mult_mono[of "?x s" "of_int p" g 1] by auto
    then show ?thesis
      using f64_between(1)[of 0 p, OF _ ap] s ap by simp
  qed
  have z: "0 \<le> round64 (?x r * g)" "round64 (?x r * g) \<le> round64 (?x r' * g)"
    "round64 (?x r' * g) \<le> of_int p"
    using y r64.rnd_nonneg r64.rnd_le_int[OF ap] by (auto intro: round64_mono)
  have t: "f64_to_int (Fin c) = \<lfloor>c\<rfloor>" if "0 \<le> c" "c \<le> of_int p" for c
    using f64_to_int_between[of 0 p c] that ap trunc_rat_bounds[of 0 c p] p
    by (auto simp: trunc_rat_def in_i64_def)
  show "0 \<le> priorityBoost p (Fin r) (Fin g)"
    "priorityBoost p (Fin r) (Fin g) \<le> priorityBoost p (Fin r') (Fin g)"
    "priorityBoost p (Fin r') (Fin g) \<le> p"
    using z r B t by (auto simp: priorityBoost_def intro: floor_mono) (simp_all add: floor_le_iff)
qed

text \<open>
  The computed priority of a queued ad is \<open>p - boost\<close>, at least 1; it never rises with time.
\<close>

lemma CalculateEffectivePriority_queued:
  assumes "QueuedAt a = Some q" and "Status a = StatusQueued"
  shows "CalculateEffectivePriority rate m now a =
    (let e = i64 (Priority a - priorityBoost (Priority a) (waitingRatio (time_since now q) m) rate);
         e = (if e < 1 then 1 else e)
     in (e, a\<lparr>EffectivePriority := e\<rparr>))"
  using assms by (simp add: CalculateEffectivePriority_def)

lemma CalculateEffectivePriority_frame [simp]:
  "AdID (snd (CalculateEffectivePriority rate m now a)) = AdID a"
  "Version (snd (CalculateEffectivePriority rate m now a)) = Version a"
  "Status (snd (CalculateEffectivePriority rate m now a)) = Status a"
  by (auto simp: CalculateEffectivePriority_def Let_def split: option.splits)

definition queued_sample :: "int \<Rightarrow> Ad" where
  "queued_sample p = SetStatus 0 StatusQueued (NewAd 0 (sample_submission p))"

lemma queued_sample_simps [simp]:
  "Status (queued_sample p) = StatusQueued" "QueuedAt (queued_sample p) = Some 0"
  "Priority (queued_sample p) = (if p \<le> 0 then 5 else p)" "AdID (queued_sample p) = ''''"
  by (simp_all add: queued_sample_def sample_submission_def)

text \<open>C23. Aging only raises an ad's urgency and stays in range.  For a queued ad of positive
  priority below 2^53 (which \<^verbatim>\<open>float64\<close> holds exactly), an aging rate between 0 and 1 and a positive maximal wait, the effective priority lies
  between 1 and the submitted priority, and a later evaluation never gives a larger (less urgent)
  number: rounding of the \<^verbatim>\<open>float64\<close> computation included.\<close>

theorem aging_monotone:
  assumes "QueuedAt a = Some q" and "Status a = StatusQueued"
    and "1 \<le> Priority a" and "Priority a < 2 ^ 53" and "0 \<le> g" and "g \<le> 1"
    and "0 < m" and "in_i64 m" and "q \<le> now" and "now \<le> now'"
  shows "1 \<le> fst (CalculateEffectivePriority (Fin g) m now' a)
    \<and> fst (CalculateEffectivePriority (Fin g) m now' a) \<le> fst (CalculateEffectivePriority (Fin g) m now a)
    \<and> fst (CalculateEffectivePriority (Fin g) m now a) \<le> Priority a"
proof -
  let ?w = "time_since now q" and ?w' = "time_since now' q" and ?p = "Priority a"
  have "0 \<le> ?w" using assms(9) by (simp add: time_since_def sat64_def)
  moreover have "?w \<le> ?w'" using assms(10) by (rule time_since_mono)
  moreover have "in_i64 ?w'" by (simp add: time_since_def)
  ultimately obtain r r' where r: "waitingRatio ?w m = Fin r" "waitingRatio ?w' m = Fin r'"
    "0 \<le> r" "r \<le> r'" "r' \<le> 1"
    using waitingRatio_mono assms(7,8) by blast
  have p: "0 \<le> ?p" using assms(3) by simp
  note B = priorityBoost_mono[OF p assms(4) r(3,4,5) assms(5,6)]
  have b: "in_i64 (?p - priorityBoost ?p (Fin s) (Fin g))" if "s = r \<or> s = r'" for s
    using that B assms(3,4) by (auto simp: in_i64_def)
  show ?thesis
    using B b assms(3) by (simp add: CalculateEffectivePriority_queued[OF assms(1,2)] r Let_def i64_id)
qed

theorem aging_monotone_witness:
  "1 \<le> fst (CalculateEffectivePriority (Fin (1/2)) nsMinute (2 * nsMinute) (queued_sample 4))
    \<and> fst (CalculateEffectivePriority (Fin (1/2)) nsMinute (2 * nsMinute) (queued_sample 4))
        \<le> fst (CalculateEffectivePriority (Fin (1/2)) nsMinute nsSecond (queued_sample 4))
    \<and> fst (CalculateEffectivePriority (Fin (1/2)) nsMinute nsSecond (queued_sample 4)) \<le> 4"
  using aging_monotone[of "queued_sample 4" 0 "1/2" nsMinute nsSecond "2 * nsMinute"]
  by (simp add: nsMinute_def nsSecond_def in_i64_def)

lemma full_boost:
  assumes "1 \<le> p" and "p < 2 ^ 52"
  shows "priorityBoost p (Fin 1) (Fin (1/2)) = p div 2"
proof -
  have half: "round64 (of_int p / 2) = of_int p / 2" by (rule round64_half) (use assms in auto)
  have "(of_int p :: rat) / 2 \<le> of_int p" using assms(1) by simp
  then have "f64 (of_int p / 2) = Fin (of_int p / 2)"
    using f64_between(1)[of 0 p "of_int p / 2"] assms half by simp
  moreover have "f64 (of_int p) = Fin (of_int p)"
    using f64_of_int_small[of p] assms by (simp add: f64_of_int_def)
  moreover have "\<lfloor>(of_int p :: rat) / 2\<rfloor> = p div 2"
    using floor_divide_of_int_eq[of p 2, where 'a = rat] by simp
  moreover have "in_i64 (p div 2)"
  proof -
    have "0 \<le> p div 2" "p div 2 \<le> p" using assms(1) by auto
    then show ?thesis using assms(2) by (simp add: in_i64_def)
  qed
  ultimately show ?thesis using assms by (simp add: priorityBoost_def trunc_rat_def)
qed

lemma waitingRatio_full:
  assumes "0 < m" "in_i64 m" "m \<le> w" "in_i64 w"
  shows "waitingRatio w m = Fin 1"
proof -
  have "round64 (of_int m) \<le> round64 (of_int w)" using assms(3) by (intro round64_mono) simp
  moreover have "1 \<le> round64 (of_int m)" using r64.rnd_ge_int[of 1 "of_int m"] assms(1) by simp
  ultimately have "1 \<le> round64 (of_int w) / round64 (of_int m)" by (simp add: le_divide_eq)
  then have "1 \<le> round64 (round64 (of_int w) / round64 (of_int m))"
    using r64.rnd_ge_int[of 1] by simp
  moreover have "0 \<le> w" using assms(1,3) by simp
  ultimately show ?thesis using waitingRatio_Fin(1)[OF _ assms(4,1,2)] by simp
qed

text \<open>C24. The full boost.  For submitted priorities p below 2^52 (where \<^verbatim>\<open>float64\<close> holds p/2 exactly) and the
  default rate 1/2: whenever the clock has not gone back, the effective priority of a queued ad is at
  least \<open>p - p div 2\<close>, half the submitted priority rounded up, and it is exactly that once the ad has
  waited the maximal wait.  So aging alone never brings an ad of priority 3 or more to the highest
  priority 1.\<close>

theorem aging_full_boost:
  assumes "QueuedAt a = Some q" and "Status a = StatusQueued"
    and "1 \<le> Priority a" and "Priority a < 2 ^ 52" and "0 < m" and "in_i64 m" and "q \<le> now"
  shows "Priority a - Priority a div 2 \<le> fst (CalculateEffectivePriority (Fin (1/2)) m now a)
    \<and> (m \<le> time_since now q \<longrightarrow>
         fst (CalculateEffectivePriority (Fin (1/2)) m now a) = Priority a - Priority a div 2)
    \<and> (3 \<le> Priority a \<longrightarrow> 1 < fst (CalculateEffectivePriority (Fin (1/2)) m now a))"
proof -
  let ?w = "time_since now q" and ?p = "Priority a"
  have w: "0 \<le> ?w" "in_i64 ?w" using assms(7) by (simp add: time_since_def sat64_def) (simp add: time_since_def)
  obtain r where r: "waitingRatio ?w m = Fin r" "0 \<le> r" "r \<le> 1"
    using waitingRatio_mono[OF w(1) order_refl w(2) assms(5,6)] by auto
  note F = full_boost[OF assms(3,4)]
  have B: "0 \<le> priorityBoost ?p (Fin r) (Fin (1/2))" "priorityBoost ?p (Fin r) (Fin (1/2)) \<le> ?p div 2"
    using priorityBoost_mono[of ?p r 1 "1/2"] assms(3,4) r(2,3) F by simp_all
  let ?b = "priorityBoost ?p (Fin r) (Fin (1/2))"
  have h: "1 \<le> ?p - ?b" "in_i64 (?p - ?b)" using B assms(3,4) by (auto simp: in_i64_def)
  have E: "fst (CalculateEffectivePriority (Fin (1/2)) m now a) = ?p - ?b"
    using h by (simp add: CalculateEffectivePriority_queued[OF assms(1,2)] r(1) Let_def i64_id)
  have "?b = ?p div 2" if "m \<le> ?w"
    using waitingRatio_full[OF assms(5,6) that w(2)] r(1) F by simp
  moreover have "1 < ?p - ?p div 2" if "3 \<le> ?p" using that by simp
  ultimately show ?thesis using B E by auto
qed

theorem aging_full_boost_witness:
  "fst (CalculateEffectivePriority (Fin (1/2)) (5 * nsMinute) (10 * nsMinute) (queued_sample 5)) = 3"
  using aging_full_boost[of "queued_sample 5" 0 "5 * nsMinute" "10 * nsMinute"]
  by (simp add: nsMinute_def nsSecond_def in_i64_def time_since_def sat64_def)

end
