(* ===== verification/Memory_Store.thy ===== *)
theory Memory_Store
  imports Ad_Model
begin

text \<open>
  The in-memory repository (\<^verbatim>\<open>internal/storage/memory/memory_store.go\<close>) behind the interfaces of
  \<^verbatim>\<open>internal/storage/repository.go\<close>.  Every method holds the repository's mutex from its first access
  to its return, so each is one function from the state to the result and the new state.  Contexts
  are never consulted and are left out; \<^verbatim>\<open>time.Now()\<close> is an argument; a method that ranges over the
  map takes the iteration order as a list of choices (\<^const>\<open>shuffle\<close>).
\<close>

named_theorems store_defs \<open>definitions of the repository's methods\<close>

section \<open>State\<close>

record lockInfo =
  ownerID :: string
  expiresAt :: instant

record MemoryRepository =
  ads :: "(string \<times> Ad) list"
  locks :: "string \<Rightarrow> lockInfo option"

definition NewMemoryRepository :: MemoryRepository where
  "NewMemoryRepository = \<lparr>ads = [], locks = (\<lambda>_. None)\<rparr>"

abbreviation lookup_ad :: "MemoryRepository \<Rightarrow> string \<Rightarrow> Ad option" where
  "lookup_ad m \<equiv> map_of (ads m)"

abbreviation put_ad :: "string \<Rightarrow> Ad \<Rightarrow> MemoryRepository \<Rightarrow> MemoryRepository" where
  "put_ad k a m \<equiv> m\<lparr>ads := AList.update k a (ads m)\<rparr>"

abbreviation change_ad :: "string \<Rightarrow> (Ad \<Rightarrow> Ad) \<Rightarrow> MemoryRepository \<Rightarrow> MemoryRepository" where
  "change_ad k f m \<equiv> m\<lparr>ads := AList.map_entry k f (ads m)\<rparr>"

definition bump_version :: "Ad \<Rightarrow> Ad" where
  "bump_version a = a\<lparr>Version := i64 (Version a + 1)\<rparr>"

definition err_id_required :: goerr where
  "err_id_required = Wrapf '''' ErrInvalidAdData '': ad ID is required''"

definition err_ad_nil :: goerr where
  "err_ad_nil = Wrapf '''' ErrInvalidAdData '': ad is nil''"

definition err_not_found :: "string \<Rightarrow> goerr" where
  "err_not_found i = Wrapf '''' ErrAdNotFound ('': ad with ID '' @ i @ '' not found'')"

definition err_modified :: "string \<Rightarrow> goerr" where
  "err_modified i = Wrapf '''' ErrConcurrentModification ('': ad with ID '' @ i @ '' has been modified'')"

section \<open>Single-ad operations\<close>

text \<open>
  \<open>Save\<close> and \<open>Update\<close> take a pointer, possibly nil; \<open>save_ad\<close> and \<open>update_ad\<close> are their bodies for
  a non-nil one.  \<open>Update\<close> also increments the version of the caller's ad, so that ad is returned.
\<close>

definition save_ad :: "Ad \<Rightarrow> MemoryRepository \<Rightarrow> string result \<times> MemoryRepository" where [store_defs]:
  "save_ad ad m =
     (if AdID ad = '''' then (Err err_id_required, m)
      else (Ok (AdID ad), put_ad (AdID ad) ad m))"

definition Save :: "Ad option \<Rightarrow> MemoryRepository \<Rightarrow> string result \<times> MemoryRepository" where [store_defs]:
  "Save ad m = (case ad of None \<Rightarrow> (Err err_ad_nil, m) | Some a \<Rightarrow> save_ad a m)"

definition Get :: "string \<Rightarrow> MemoryRepository \<Rightarrow> Ad result" where [store_defs]:
  "Get adID m =
     (if adID = '''' then Err err_id_required
      else case lookup_ad m adID of None \<Rightarrow> Err (err_not_found adID) | Some a \<Rightarrow> Ok a)"

definition update_ad :: "Ad \<Rightarrow> MemoryRepository \<Rightarrow> unit result \<times> Ad \<times> MemoryRepository" where [store_defs]:
  "update_ad ad m =
     (if AdID ad = '''' then (Err err_id_required, ad, m)
      else case lookup_ad m (AdID ad) of
        None \<Rightarrow> (Err (err_not_found (AdID ad)), ad, m)
      | Some existing \<Rightarrow>
          if Version existing \<noteq> Version ad then (Err (err_modified (AdID ad)), ad, m)
          else let ad = bump_version ad in (Ok (), ad, put_ad (AdID ad) ad m))"

definition Update :: "Ad option \<Rightarrow> MemoryRepository \<Rightarrow> unit result \<times> Ad option \<times> MemoryRepository"
  where [store_defs]:
  "Update ad m =
     (case ad of None \<Rightarrow> (Err err_ad_nil, None, m)
      | Some a \<Rightarrow> (case update_ad a m of (r, a', m') \<Rightarrow> (r, Some a', m')))"

definition set_status_bump :: "instant \<Rightarrow> AdStatus \<Rightarrow> Ad \<Rightarrow> Ad" where
  "set_status_bump now toStatus a =
     (let a = bump_version (a\<lparr>Status := toStatus\<rparr>)
      in if toStatus = StatusCompleted then a\<lparr>CompletedAt := Some now\<rparr> else a)"

definition AtomicStatusUpdate ::
  "instant \<Rightarrow> string \<Rightarrow> int \<Rightarrow> AdStatus \<Rightarrow> AdStatus \<Rightarrow> MemoryRepository \<Rightarrow> unit result \<times> MemoryRepository"
  where [store_defs]:
  "AtomicStatusUpdate now adID currentVersion fromStatus toStatus m =
     (case lookup_ad m adID of
        None \<Rightarrow> (Err ErrAdNotFound, m)
      | Some ad \<Rightarrow>
          if Version ad \<noteq> currentVersion then (Err ErrConcurrentModification, m)
          else if Status ad \<noteq> fromStatus then (Err ErrConcurrentModification, m)
          else (Ok (), change_ad adID (set_status_bump now toStatus) m))"

definition Delete :: "string \<Rightarrow> MemoryRepository \<Rightarrow> unit result \<times> MemoryRepository" where [store_defs]:
  "Delete adID m =
     (if adID = '''' then (Err err_id_required, m)
      else case lookup_ad m adID of
        None \<Rightarrow> (Err (err_not_found adID), m)
      | Some _ \<Rightarrow> (Ok (), m\<lparr>ads := AList.delete adID (ads m)\<rparr>))"

text \<open>\<open>cache_set\<close> is the method \<^verbatim>\<open>Set\<close>: the time to live is ignored.\<close>

definition cache_set ::
  "string \<Rightarrow> Ad option \<Rightarrow> duration \<Rightarrow> MemoryRepository \<Rightarrow> unit result \<times> MemoryRepository" where [store_defs]:
  "cache_set adID ad ttl m =
     (case ad of None \<Rightarrow> (Err err_ad_nil, m)
      | Some a \<Rightarrow> if adID = '''' then (Err err_id_required, m) else (Ok (), put_ad adID a m))"

section \<open>Queries\<close>

definition ads_with_status :: "nat list \<Rightarrow> AdStatus \<Rightarrow> MemoryRepository \<Rightarrow> Ad list" where
  "ads_with_status ord status m = filter (\<lambda>a. Status a = status) (map snd (shuffle ord (ads m)))"

definition newest_first :: "Ad \<Rightarrow> Ad \<Rightarrow> bool" where
  "newest_first x y \<longleftrightarrow> CreatedAt y < CreatedAt x"

definition FindByStatus ::
  "nat list \<Rightarrow> AdStatus \<Rightarrow> int \<Rightarrow> int \<Rightarrow> MemoryRepository \<Rightarrow> Ad list result" where
  "FindByStatus ord status limit offset m =
     (let res = sort_slice newest_first (ads_with_status ord status m)
      in if int (length res) \<le> offset then Ok []
         else let e = i64 (offset + limit);
                  e = (if int (length res) < e then int (length res) else e)
              in go_slice res offset e)"

definition by_priority :: "Ad \<Rightarrow> Ad \<Rightarrow> bool" where
  "by_priority x y =
     (if EffectivePriority x \<noteq> EffectivePriority y then EffectivePriority x < EffectivePriority y
      else if Priority x \<noteq> Priority y then Priority x < Priority y
      else CreatedAt x < CreatedAt y)"

definition FindByPriority ::
  "nat list \<Rightarrow> AdStatus \<Rightarrow> int \<Rightarrow> MemoryRepository \<Rightarrow> Ad list result" where
  "FindByPriority ord status limit m =
     (let res = sort_slice by_priority (ads_with_status ord status m);
          limit = (if int (length res) < limit then int (length res) else limit)
      in go_slice res 0 limit)"

definition CountByStatus :: "AdStatus \<Rightarrow> MemoryRepository \<Rightarrow> int result" where
  "CountByStatus status m = Ok (int (length (filter (\<lambda>(k, a). Status a = status) (ads m))))"

section \<open>Bulk operations\<close>

text \<open>
  \<^verbatim>\<open>DeleteOlderThan\<close> subtracts days with \<^verbatim>\<open>AddDate\<close>, which counts days of the local calendar; here a
  day has 24 hours, as in a zone without daylight saving time.
\<close>

definition DeleteOlderThan :: "instant \<Rightarrow> int \<Rightarrow> MemoryRepository \<Rightarrow> int result \<times> MemoryRepository" where
  "DeleteOlderThan now days m =
     (let cutoff = now - days * nsDay;
          old = (\<lambda>(k, a). CreatedAt a < cutoff)
      in (Ok (int (length (filter old (ads m)))), m\<lparr>ads := filter (\<lambda>x. \<not> old x) (ads m)\<rparr>))"

fun assign_loop :: "string \<Rightarrow> string list \<Rightarrow> int \<Rightarrow> MemoryRepository \<Rightarrow> int \<times> MemoryRepository" where
  "assign_loop w [] cnt m = (cnt, m)"
| "assign_loop w (i # ids) cnt m =
     (case lookup_ad m i of
        None \<Rightarrow> assign_loop w ids cnt m
      | Some _ \<Rightarrow>
          assign_loop w ids (cnt + 1) (change_ad i (\<lambda>a. bump_version (a\<lparr>WorkerID := w\<rparr>)) m))"

definition AssignToWorker :: "string list \<Rightarrow> string \<Rightarrow> MemoryRepository \<Rightarrow> int result \<times> MemoryRepository" where
  "AssignToWorker adIDs workerID m =
     map_prod Ok id (assign_loop workerID adIDs 0 m)"

definition ReleaseWorkerAssignments :: "string \<Rightarrow> MemoryRepository \<Rightarrow> int result \<times> MemoryRepository" where
  "ReleaseWorkerAssignments workerID m =
     (Ok (int (length (filter (\<lambda>(k, a). WorkerID a = workerID) (ads m)))),
      m\<lparr>ads := map (\<lambda>(k, a).
          (k, if WorkerID a = workerID then bump_version (a\<lparr>WorkerID := ''''\<rparr>) else a)) (ads m)\<rparr>)"

fun batch_status_loop ::
  "(nat \<Rightarrow> instant) \<Rightarrow> AdStatus \<Rightarrow> string list \<Rightarrow> int \<Rightarrow> MemoryRepository \<Rightarrow> int \<times> MemoryRepository" where
  "batch_status_loop now s [] cnt m = (cnt, m)"
| "batch_status_loop now s (i # ids) cnt m =
     (case lookup_ad m i of
        None \<Rightarrow> batch_status_loop (now \<circ> Suc) s ids cnt m
      | Some _ \<Rightarrow>
          batch_status_loop (now \<circ> Suc) s ids (cnt + 1) (change_ad i (set_status_bump (now 0) s) m))"

definition BatchUpdateStatus ::
  "(nat \<Rightarrow> instant) \<Rightarrow> string list \<Rightarrow> AdStatus \<Rightarrow> MemoryRepository \<Rightarrow> int result \<times> MemoryRepository" where
  "BatchUpdateStatus now adIDs toStatus m =
     map_prod Ok id (batch_status_loop now toStatus adIDs 0 m)"

section \<open>Locks\<close>

definition AcquireLock ::
  "instant \<Rightarrow> string \<Rightarrow> string \<Rightarrow> duration \<Rightarrow> MemoryRepository \<Rightarrow> bool result \<times> MemoryRepository" where
  "AcquireLock now adID owner ttl m =
     (let taken = m\<lparr>locks := (locks m)(adID \<mapsto> \<lparr>ownerID = owner, expiresAt = now + ttl\<rparr>)\<rparr> in
      case locks m adID of
        Some lock \<Rightarrow>
          if expiresAt lock < now then (Ok True, taken)
          else if owner \<noteq> ownerID lock then (Ok False, m)
          else (Ok True, taken)
      | None \<Rightarrow> (Ok True, taken))"

definition ReleaseLock :: "string \<Rightarrow> string \<Rightarrow> MemoryRepository \<Rightarrow> bool result \<times> MemoryRepository" where
  "ReleaseLock adID owner m =
     (case locks m adID of
        Some lock \<Rightarrow>
          if ownerID lock = owner then (Ok True, m\<lparr>locks := (locks m)(adID := None)\<rparr>) else (Ok False, m)
      | None \<Rightarrow> (Ok True, m))"

section \<open>The repository as a cache and queue\<close>

definition mem_PushToQueue ::
  "string \<Rightarrow> string \<Rightarrow> int \<Rightarrow> MemoryRepository \<Rightarrow> unit result \<times> MemoryRepository" where
  "mem_PushToQueue queueName adID priority m =
     (if adID = '''' then (Err err_id_required, m)
      else case lookup_ad m adID of
        None \<Rightarrow> (Err (err_not_found adID), m)
      | Some _ \<Rightarrow> (Ok (), change_ad adID (\<lambda>a. a\<lparr>EffectivePriority := priority\<rparr>) m))"

definition pop_order :: "Ad \<Rightarrow> Ad \<Rightarrow> bool" where
  "pop_order x y =
     (if EffectivePriority x \<noteq> EffectivePriority y then EffectivePriority x < EffectivePriority y
      else CreatedAt x < CreatedAt y)"

definition mem_PopFromQueue :: "nat list \<Rightarrow> string \<Rightarrow> MemoryRepository \<Rightarrow> string result \<times> MemoryRepository" where
  "mem_PopFromQueue ord queueName m =
     (case sort_slice pop_order (ads_with_status ord StatusQueued m) of
        [] \<Rightarrow> (Err ErrAdNotFound, m)
      | a # _ \<Rightarrow> (Ok (AdID a), m))"

definition mem_IncrementCounter :: "string \<Rightarrow> MemoryRepository \<Rightarrow> int result \<times> MemoryRepository" where
  "mem_IncrementCounter key m = (Ok 1, m)"

definition mem_GetGauge :: "string \<Rightarrow> MemoryRepository \<Rightarrow> int result \<times> MemoryRepository" where
  "mem_GetGauge key m = (Ok 0, m)"

definition mem_SetGauge :: "string \<Rightarrow> int \<Rightarrow> MemoryRepository \<Rightarrow> unit result \<times> MemoryRepository" where
  "mem_SetGauge key value m = (Ok (), m)"

section \<open>The orders of the three sorts\<close>

interpretation newest: strict_weak_order newest_first
  by unfold_locales (auto simp: newest_first_def)

interpretation prio: strict_weak_order by_priority
  by unfold_locales (auto simp: by_priority_def split: if_splits)

interpretation pop: strict_weak_order pop_order
  by unfold_locales (auto simp: pop_order_def split: if_splits)

text \<open>Dequeuing by the repository's query refines the order of the memory queue.\<close>

lemma pop_order_by_priority: "\<not> by_priority y x \<Longrightarrow> EffectivePriority x \<le> EffectivePriority y"
  by (auto simp: by_priority_def split: if_splits)

section \<open>Frame lemmas\<close>

lemma set_ads_with_status:
  "set (ads_with_status ord s m) = {a. a \<in> snd ` set (ads m) \<and> Status a = s}"
  by (auto simp: ads_with_status_def)

lemma lookup_in_status:
  assumes "lookup_ad m k = Some b" and "Status b = s"
  shows "b \<in> set (ads_with_status ord s m)"
proof -
  from assms(1) have "(k, b) \<in> set (ads m)" by (rule map_of_SomeD)
  then have "b \<in> snd ` set (ads m)" by (rule image_eqI[rotated]) simp
  with assms(2) show ?thesis by (simp add: set_ads_with_status)
qed

lemma mset_ads_with_status:
  "mset (ads_with_status ord s m) = mset (filter (\<lambda>a. Status a = s) (map snd (ads m)))"
  by (simp add: ads_with_status_def)

lemma length_ads_with_status:
  "length (ads_with_status ord s m) = length (filter (\<lambda>(k, a). Status a = s) (ads m))"
proof -
  have "size (mset (ads_with_status ord s m)) = size (mset (filter (\<lambda>a. Status a = s) (map snd (ads m))))"
    by (simp only: mset_ads_with_status)
  then have "length (ads_with_status ord s m) = length (filter (\<lambda>a. Status a = s) (map snd (ads m)))"
    by (simp only: size_mset)
  also have "\<dots> = length (filter (\<lambda>(k, a). Status a = s) (ads m))"
    by (simp add: filter_map comp_def case_prod_unfold del: mset_filter)
  finally show ?thesis .
qed

lemma bump_version_simps [simp]:
  "Version (bump_version a) = i64 (Version a + 1)" "AdID (bump_version a) = AdID a"
  "Status (bump_version a) = Status a" "Priority (bump_version a) = Priority a"
  "EffectivePriority (bump_version a) = EffectivePriority a" "CreatedAt (bump_version a) = CreatedAt a"
  "ProcessingStartedAt (bump_version a) = ProcessingStartedAt a" "QueuedAt (bump_version a) = QueuedAt a"
  "CompletedAt (bump_version a) = CompletedAt a" "Analysis (bump_version a) = Analysis a"
  "Attempts (bump_version a) = Attempts a" "WorkerID (bump_version a) = WorkerID a"
  "Error (bump_version a) = Error a"
  by (simp_all add: bump_version_def)

lemma set_status_bump_simps [simp]:
  "Version (set_status_bump now s a) = i64 (Version a + 1)" "AdID (set_status_bump now s a) = AdID a"
  "Status (set_status_bump now s a) = s" "Priority (set_status_bump now s a) = Priority a"
  "EffectivePriority (set_status_bump now s a) = EffectivePriority a"
  "CreatedAt (set_status_bump now s a) = CreatedAt a" "Attempts (set_status_bump now s a) = Attempts a"
  "ProcessingStartedAt (set_status_bump now s a) = ProcessingStartedAt a"
  "QueuedAt (set_status_bump now s a) = QueuedAt a" "Analysis (set_status_bump now s a) = Analysis a"
  "CompletedAt (set_status_bump now s a) =
     (if s = StatusCompleted then Some now else CompletedAt a)"
  by (simp_all add: set_status_bump_def Let_def)

lemma ReleaseLock_ads [simp]: "ads (snd (ReleaseLock i w m)) = ads m"
  by (auto simp: ReleaseLock_def split: option.splits)

lemma AcquireLock_ads [simp]: "ads (snd (AcquireLock now i w ttl m)) = ads m"
  by (auto simp: AcquireLock_def Let_def split: option.splits)

section \<open>Evaluation of the calls\<close>

text \<open>Each call by the shape of the state it meets: the rules the clients' proofs rewrite with.\<close>

named_theorems store_eval \<open>conditional evaluation rules of the repository's methods\<close>

lemma Get_found [store_eval]: "lookup_ad m i = Some a \<Longrightarrow> i \<noteq> '''' \<Longrightarrow> Get i m = Ok a"
  by (simp add: Get_def)

lemma Get_missing [store_eval]: "lookup_ad m i = None \<Longrightarrow> i \<noteq> '''' \<Longrightarrow> Get i m = Err (err_not_found i)"
  by (simp add: Get_def)

lemma update_ad_ok [store_eval]:
  "lookup_ad m (AdID a) = Some b \<Longrightarrow> Version b = Version a \<Longrightarrow> AdID a \<noteq> '''' \<Longrightarrow>
   update_ad a m = (Ok (), bump_version a, put_ad (AdID a) (bump_version a) m)"
  by (simp add: update_ad_def Let_def)

lemma update_ad_missing [store_eval]:
  "lookup_ad m (AdID a) = None \<Longrightarrow> AdID a \<noteq> '''' \<Longrightarrow> update_ad a m = (Err (err_not_found (AdID a)), a, m)"
  by (simp add: update_ad_def)

lemma update_ad_stale [store_eval]:
  "lookup_ad m (AdID a) = Some b \<Longrightarrow> Version b \<noteq> Version a \<Longrightarrow> AdID a \<noteq> '''' \<Longrightarrow>
   update_ad a m = (Err (err_modified (AdID a)), a, m)"
  by (simp add: update_ad_def)

lemma AtomicStatusUpdate_ok [store_eval]:
  "lookup_ad m i = Some b \<Longrightarrow> Version b = v \<Longrightarrow> Status b = f \<Longrightarrow>
   AtomicStatusUpdate now i v f t m = (Ok (), change_ad i (set_status_bump now t) m)"
  by (simp add: AtomicStatusUpdate_def)

lemma AtomicStatusUpdate_cases:
  "fst (AtomicStatusUpdate now i v f t m) = Ok () \<and>
     (\<exists>b. lookup_ad m i = Some b \<and> Version b = v \<and> Status b = f \<and>
        snd (AtomicStatusUpdate now i v f t m) = change_ad i (set_status_bump now t) m)
   \<or> (\<exists>e. fst (AtomicStatusUpdate now i v f t m) = Err e) \<and> snd (AtomicStatusUpdate now i v f t m) = m"
  by (auto simp: AtomicStatusUpdate_def split: option.splits)

lemma update_ad_cases:
  "(\<exists>b. lookup_ad m (AdID a) = Some b \<and> Version b = Version a \<and> AdID a \<noteq> '''' \<and>
      update_ad a m = (Ok (), bump_version a, put_ad (AdID a) (bump_version a) m))
   \<or> (\<exists>e. update_ad a m = (Err e, a, m))"
  by (auto simp: update_ad_def Let_def split: option.splits)

text \<open>An owner may take a lock that is free, expired or its own.\<close>

definition lock_free :: "instant \<Rightarrow> string \<Rightarrow> string \<Rightarrow> MemoryRepository \<Rightarrow> bool" where
  "lock_free now i w m \<longleftrightarrow>
     (case locks m i of None \<Rightarrow> True | Some l \<Rightarrow> expiresAt l < now \<or> ownerID l = w)"

definition take_lock :: "instant \<Rightarrow> string \<Rightarrow> string \<Rightarrow> duration \<Rightarrow> MemoryRepository \<Rightarrow> MemoryRepository" where
  "take_lock now i w ttl m = m\<lparr>locks := (locks m)(i \<mapsto> \<lparr>ownerID = w, expiresAt = now + ttl\<rparr>)\<rparr>"

lemma take_lock_simps [simp]:
  "ads (take_lock now i w ttl m) = ads m"
  "locks (take_lock now i w ttl m) j = (if j = i then Some \<lparr>ownerID = w, expiresAt = now + ttl\<rparr> else locks m j)"
  by (simp_all add: take_lock_def)

lemma AcquireLock_eval [store_eval]:
  "AcquireLock now i w ttl m =
     (if lock_free now i w m then (Ok True, take_lock now i w ttl m) else (Ok False, m))"
  by (auto simp: AcquireLock_def lock_free_def take_lock_def Let_def split: option.splits)

lemma ReleaseLock_locks:
  "locks (snd (ReleaseLock i w m)) j =
     (if j = i \<and> (\<exists>l. locks m i = Some l \<and> ownerID l = w) then None else locks m j)"
  by (auto simp: ReleaseLock_def split: option.splits)

section \<open>The invariant of the store\<close>

text \<open>Every ad is filed once, under its own identifier, which is not empty.\<close>

definition store_wf :: "MemoryRepository \<Rightarrow> bool" where
  "store_wf m \<longleftrightarrow> distinct (map fst (ads m)) \<and> (\<forall>(k, a) \<in> set (ads m). AdID a = k \<and> k \<noteq> '''')"

lemma store_wfI:
  assumes "distinct (map fst (ads m))"
    and "\<And>k a. lookup_ad m k = Some a \<Longrightarrow> AdID a = k \<and> k \<noteq> ''''"
  shows "store_wf m"
  using assms by (auto simp: store_wf_def)

lemma store_wf_distinct: "store_wf m \<Longrightarrow> distinct (map fst (ads m))"
  by (simp add: store_wf_def)

lemma store_wf_lookup: "store_wf m \<Longrightarrow> lookup_ad m k = Some a \<Longrightarrow> AdID a = k \<and> k \<noteq> ''''"
  by (auto simp: store_wf_def dest: map_of_SomeD)

lemma store_wf_mem: "store_wf m \<Longrightarrow> (k, a) \<in> set (ads m) \<Longrightarrow> AdID a = k \<and> k \<noteq> ''''"
  by (auto simp: store_wf_def)

lemma store_wf_stored: "store_wf m \<Longrightarrow> a \<in> snd ` set (ads m) \<longleftrightarrow> lookup_ad m (AdID a) = Some a"
  by (force simp: store_wf_def dest: map_of_SomeD)

lemma store_wf_put: "store_wf m \<Longrightarrow> AdID a = k \<Longrightarrow> k \<noteq> '''' \<Longrightarrow> store_wf (put_ad k a m)"
  by (rule store_wfI) (auto simp: store_wf_distinct split: if_splits dest: store_wf_mem)

lemma store_wf_change [simp]:
  "store_wf m \<Longrightarrow> (\<And>a. AdID (f a) = AdID a) \<Longrightarrow> store_wf (change_ad k f m)"
  by (rule store_wfI) (auto simp: store_wf_distinct split: if_splits dest: store_wf_mem)

lemma store_wf_locks [simp]: "store_wf (m\<lparr>locks := l\<rparr>) = store_wf m"
  by (simp add: store_wf_def)

lemma store_wf_filter: "store_wf m \<Longrightarrow> store_wf (m\<lparr>ads := filter P (ads m)\<rparr>)"
  by (auto simp: store_wf_def distinct_keys_filter)

lemma store_wf_assign [simp]: "store_wf m \<Longrightarrow> store_wf (snd (assign_loop w ids n m))"
  by (induction w ids n m rule: assign_loop.induct) (auto split: option.splits intro: store_wf_change)

lemma store_wf_batch [simp]: "store_wf m \<Longrightarrow> store_wf (snd (batch_status_loop now s ids n m))"
  by (induction now s ids n m rule: batch_status_loop.induct)
    (auto split: option.splits intro: store_wf_change)

text \<open>The methods that change the repository, as data, and a run of them.\<close>

datatype repo_op =
    OpSave "Ad option"
  | OpUpdate "Ad option"
  | OpAtomicStatusUpdate instant string int AdStatus AdStatus
  | OpDelete string
  | OpSet string "Ad option" duration
  | OpDeleteOlderThan instant int
  | OpAssignToWorker "string list" string
  | OpReleaseWorkerAssignments string
  | OpBatchUpdateStatus "nat \<Rightarrow> instant" "string list" AdStatus
  | OpAcquireLock instant string string duration
  | OpReleaseLock string string
  | OpPush string string int

fun repo_step :: "repo_op \<Rightarrow> MemoryRepository \<Rightarrow> MemoryRepository" where
  "repo_step (OpSave a) m = snd (Save a m)"
| "repo_step (OpUpdate a) m = snd (snd (Update a m))"
| "repo_step (OpAtomicStatusUpdate now i v f t) m = snd (AtomicStatusUpdate now i v f t m)"
| "repo_step (OpDelete i) m = snd (Delete i m)"
| "repo_step (OpSet i a ttl) m = snd (cache_set i a ttl m)"
| "repo_step (OpDeleteOlderThan now d) m = snd (DeleteOlderThan now d m)"
| "repo_step (OpAssignToWorker ids w) m = snd (AssignToWorker ids w m)"
| "repo_step (OpReleaseWorkerAssignments w) m = snd (ReleaseWorkerAssignments w m)"
| "repo_step (OpBatchUpdateStatus now ids s) m = snd (BatchUpdateStatus now ids s m)"
| "repo_step (OpAcquireLock now i w ttl) m = snd (AcquireLock now i w ttl m)"
| "repo_step (OpReleaseLock i w) m = snd (ReleaseLock i w m)"
| "repo_step (OpPush q i p) m = snd (mem_PushToQueue q i p m)"

text \<open>A cache entry is filed under its own identifier; no other operation has a precondition.\<close>

fun repo_op_ok :: "repo_op \<Rightarrow> bool" where
  "repo_op_ok (OpSet i (Some a) ttl) = (AdID a = i)"
| "repo_op_ok _ = True"

lemma repo_step_wf: "store_wf m \<Longrightarrow> repo_op_ok op \<Longrightarrow> store_wf (repo_step op m)"
proof (induction op m rule: repo_step.induct)
  case (8 w m)
  then show ?case
    by (intro store_wfI)
      (auto simp: ReleaseWorkerAssignments_def map_of_map_values store_wf_distinct
        simp del: map_map dest: store_wf_mem)
next
  case (4 i m)
  then show ?case
    by (auto simp: Delete_def store_wf_def AList.delete_eq distinct_keys_filter split: option.splits)
qed (auto simp: store_defs DeleteOlderThan_def AssignToWorker_def BatchUpdateStatus_def AcquireLock_def
      ReleaseLock_def mem_PushToQueue_def Let_def
    intro: store_wf_put store_wf_filter split: option.splits prod.splits)

lemma store_wf_New [simp]: "store_wf NewMemoryRepository"
  by (simp add: store_wf_def NewMemoryRepository_def)

text \<open>C19. The store's invariant.  Starting from the empty repository, any sequence of the methods of
  the repository (with cache entries filed under their own identifier) leaves every ad stored
  exactly once, under its own non-empty identifier.\<close>

theorem store_invariant:
  assumes "\<forall>op \<in> set ops. repo_op_ok op"
  shows "store_wf (fold repo_step ops NewMemoryRepository)"
proof -
  have "store_wf (fold repo_step ops m)" if "store_wf m" for m
    using that assms by (induction ops arbitrary: m) (auto intro: repo_step_wf)
  then show ?thesis by simp
qed

section \<open>The contract of a lock\<close>

text \<open>
  What a client of the lock methods may rely on, in terms of the lease on an identifier: its owner
  and its expiry.
\<close>

datatype lock_op = LAcquire instant string string duration | LRelease string string

fun run_locks ::
  "(instant \<Rightarrow> string \<Rightarrow> string \<Rightarrow> duration \<Rightarrow> 's \<Rightarrow> bool result \<times> 's) \<Rightarrow>
   (string \<Rightarrow> string \<Rightarrow> 's \<Rightarrow> bool result \<times> 's) \<Rightarrow> lock_op list \<Rightarrow> 's \<Rightarrow> 's" where
  "run_locks acq rel [] s = s"
| "run_locks acq rel (LAcquire now i w ttl # ops) s = run_locks acq rel ops (snd (acq now i w ttl s))"
| "run_locks acq rel (LRelease i w # ops) s = run_locks acq rel ops (snd (rel i w s))"

text \<open>An operation of another owner, no later than the instant \<open>t\<close>.\<close>

fun foreign_op :: "string \<Rightarrow> instant \<Rightarrow> lock_op \<Rightarrow> bool" where
  "foreign_op w t (LAcquire now i w' ttl) = (w' \<noteq> w \<and> now \<le> t)"
| "foreign_op w t (LRelease i w') = (w' \<noteq> w)"

locale lock_service =
  fixes acquire :: "instant \<Rightarrow> string \<Rightarrow> string \<Rightarrow> duration \<Rightarrow> 's \<Rightarrow> bool result \<times> 's"
    and release :: "string \<Rightarrow> string \<Rightarrow> 's \<Rightarrow> bool result \<times> 's"
    and lease :: "'s \<Rightarrow> string \<Rightarrow> (string \<times> instant) option"
  assumes acquire_result: "fst (acquire now i w ttl s) =
      Ok (case lease s i of None \<Rightarrow> True | Some (w', t) \<Rightarrow> t < now \<or> w' = w)"
    and acquire_lease: "lease (snd (acquire now i w ttl s)) j =
      (if j = i \<and> fst (acquire now i w ttl s) = Ok True then Some (w, now + ttl) else lease s j)"
    and release_result: "fst (release i w s) = Ok (case lease s i of None \<Rightarrow> True | Some (w', t) \<Rightarrow> w' = w)"
    and release_lease: "lease (snd (release i w s)) j =
      (if j = i \<and> fst (release i w s) = Ok True then None else lease s j)"
begin

lemma foreign_step_keeps:
  assumes "lease s i = Some (w, t)"
  shows "w' \<noteq> w \<Longrightarrow> now \<le> t \<Longrightarrow> lease (snd (acquire now j w' ttl s)) i = Some (w, t)"
    and "w' \<noteq> w \<Longrightarrow> lease (snd (release j w' s)) i = Some (w, t)"
  using assms by (auto simp: acquire_lease acquire_result release_lease release_result)

lemma foreign_run_keeps:
  "lease s i = Some (w, t) \<Longrightarrow> \<forall>op \<in> set ops. foreign_op w t op \<Longrightarrow>
   lease (run_locks acquire release ops s) i = Some (w, t)"
proof (induction ops arbitrary: s)
  case (Cons op ops)
  then show ?case by (cases op) (auto simp: foreign_step_keeps)
qed simp

lemma lease_excludes:
  assumes "fst (acquire now i w ttl s) = Ok True"
    and "\<forall>op \<in> set ops. foreign_op w (now + ttl) op" and "w' \<noteq> w" and "now' \<le> now + ttl"
  shows "fst (acquire now' i w' ttl' (run_locks acquire release ops (snd (acquire now i w ttl s)))) = Ok False"
proof -
  have "lease (snd (acquire now i w ttl s)) i = Some (w, now + ttl)"
    using assms(1) by (simp add: acquire_lease)
  from foreign_run_keeps[OF this assms(2)] assms(3,4) show ?thesis by (simp add: acquire_result)
qed

lemma expired_or_own:
  "lease s i = Some (w', t) \<Longrightarrow> t < now \<or> w' = w \<Longrightarrow> fst (acquire now i w ttl s) = Ok True"
  by (auto simp: acquire_result)

end

definition mem_lease :: "MemoryRepository \<Rightarrow> string \<Rightarrow> (string \<times> instant) option" where
  "mem_lease m i = map_option (\<lambda>l. (ownerID l, expiresAt l)) (locks m i)"

interpretation mem_lock: lock_service AcquireLock ReleaseLock mem_lease
  by unfold_locales
    (auto simp: AcquireLock_def ReleaseLock_def mem_lease_def Let_def split: option.splits)

text \<open>C17. Mutual exclusion of the locks.  From the moment an owner has acquired the lock on an ad, and
  whatever acquisitions and releases other owners attempt before the lease expires, no other owner
  acquires it before the expiry: their acquisition returns false.\<close>

theorem lock_mutual_exclusion:
  assumes "fst (AcquireLock now i w ttl m) = Ok True"
    and "\<forall>op \<in> set ops. foreign_op w (now + ttl) op" and "w' \<noteq> w" and "now' \<le> now + ttl"
  shows "fst (AcquireLock now' i w' ttl'
    (run_locks AcquireLock ReleaseLock ops (snd (AcquireLock now i w ttl m)))) = Ok False"
  using assms by (rule mem_lock.lease_excludes)

theorem lock_mutual_exclusion_witness:
  "fst (AcquireLock 20 ''ad-1'' ''worker-2'' 30 (run_locks AcquireLock ReleaseLock
     [LAcquire 5 ''ad-1'' ''worker-3'' 10, LRelease ''ad-1'' ''worker-2'']
     (snd (AcquireLock 0 ''ad-1'' ''worker-1'' 30 NewMemoryRepository)))) = Ok False"
  by (rule lock_mutual_exclusion)
    (simp_all add: AcquireLock_def NewMemoryRepository_def)

section \<open>The contract of versioned writes\<close>

text \<open>
  Both \<^verbatim>\<open>Update\<close> and \<^verbatim>\<open>AtomicStatusUpdate\<close> compare the stored version with one the caller has read.
  A write names its target and the version it expects.
\<close>

fun run_writes :: "('w \<Rightarrow> 's \<Rightarrow> unit result \<times> 's) \<Rightarrow> 'w list \<Rightarrow> 's \<Rightarrow> unit result list" where
  "run_writes wr [] s = []"
| "run_writes wr (w # ws) s = fst (wr w s) # run_writes wr ws (snd (wr w s))"

locale versioned_store =
  fixes lookup :: "'s \<Rightarrow> string \<Rightarrow> Ad option"
    and wr :: "'w \<Rightarrow> 's \<Rightarrow> unit result \<times> 's"
    and target :: "'w \<Rightarrow> string"
    and expected :: "'w \<Rightarrow> int"
  assumes write_needs: "fst (wr w s) = Ok () \<Longrightarrow>
      \<exists>a. lookup s (target w) = Some a \<and> Version a = expected w"
    and write_bumps: "fst (wr w s) = Ok () \<Longrightarrow>
      \<exists>b. lookup (snd (wr w s)) (target w) = Some b \<and> Version b = i64 (expected w + 1)"
    and write_frame: "k \<noteq> target w \<Longrightarrow> lookup (snd (wr w s)) k = lookup s k"
    and write_failed: "fst (wr w s) \<noteq> Ok () \<Longrightarrow> snd (wr w s) = s"
    and write_stale: "lookup s (target w) = Some a \<Longrightarrow> Version a \<noteq> expected w \<Longrightarrow> target w \<noteq> '''' \<Longrightarrow>
      \<exists>e. fst (wr w s) = Err e \<and> errors_is e ErrConcurrentModification"
begin

lemma stale_writes_fail:
  assumes "\<forall>w \<in> set ws. target w = i \<and> expected w = v"
    and "lookup s i = Some a" and "Version a \<noteq> v"
  shows "Ok () \<notin> set (run_writes wr ws s)"
  using assms
proof (induction ws arbitrary: s)
  case (Cons w ws)
  then have "fst (wr w s) \<noteq> Ok ()" using write_needs[of w s] by auto
  with Cons write_failed[of w s] show ?case by auto
qed simp

lemma at_most_one_write:
  assumes "\<forall>w \<in> set ws. target w = i \<and> expected w = v"
  shows "length (filter (\<lambda>r. r = Ok ()) (run_writes wr ws s)) \<le> 1"
  using assms
proof (induction ws arbitrary: s)
  case (Cons w ws)
  show ?case
  proof (cases "fst (wr w s) = Ok ()")
    case True
    with Cons.prems write_bumps[of w s] obtain b where
      b: "lookup (snd (wr w s)) i = Some b" "Version b = i64 (v + 1)" by auto
    then have "Version b \<noteq> v" by (simp add: i64_succ_neq)
    from stale_writes_fail[OF _ b(1) this, of ws] Cons.prems
    have "filter (\<lambda>r. r = Ok ()) (run_writes wr ws (snd (wr w s))) = []"
      by (auto simp: filter_empty_conv)
    then show ?thesis using True by simp
  next
    case False
    then show ?thesis using Cons by simp
  qed
qed simp

end

datatype cas = CasUpdate Ad | CasStatus instant string int AdStatus AdStatus

fun cas_write :: "cas \<Rightarrow> MemoryRepository \<Rightarrow> unit result \<times> MemoryRepository" where
  "cas_write (CasUpdate a) m = (case update_ad a m of (r, _, m') \<Rightarrow> (r, m'))"
| "cas_write (CasStatus now i v f t) m = AtomicStatusUpdate now i v f t m"

fun cas_target :: "cas \<Rightarrow> string" where
  "cas_target (CasUpdate a) = AdID a"
| "cas_target (CasStatus now i v f t) = i"

fun cas_expected :: "cas \<Rightarrow> int" where
  "cas_expected (CasUpdate a) = Version a"
| "cas_expected (CasStatus now i v f t) = v"

interpretation mem_cas: versioned_store lookup_ad cas_write cas_target cas_expected
proof
  fix w :: cas and s :: MemoryRepository and k :: string and a :: Ad
  show "fst (cas_write w s) = Ok () \<Longrightarrow>
      \<exists>a. lookup_ad s (cas_target w) = Some a \<and> Version a = cas_expected w"
    by (cases w) (auto simp: store_defs Let_def split: option.splits if_splits)
  show "fst (cas_write w s) = Ok () \<Longrightarrow>
      \<exists>b. lookup_ad (snd (cas_write w s)) (cas_target w) = Some b \<and> Version b = i64 (cas_expected w + 1)"
    by (cases w) (auto simp: store_defs Let_def split: option.splits if_splits)
  show "k \<noteq> cas_target w \<Longrightarrow> lookup_ad (snd (cas_write w s)) k = lookup_ad s k"
    by (cases w) (auto simp: store_defs Let_def split: option.splits if_splits)
  show "fst (cas_write w s) \<noteq> Ok () \<Longrightarrow> snd (cas_write w s) = s"
    by (cases w) (auto simp: store_defs Let_def split: option.splits if_splits)
  show "lookup_ad s (cas_target w) = Some a \<Longrightarrow> Version a \<noteq> cas_expected w \<Longrightarrow> cas_target w \<noteq> '''' \<Longrightarrow>
      \<exists>e. fst (cas_write w s) = Err e \<and> errors_is e ErrConcurrentModification"
    by (cases w) (auto simp: store_defs Let_def err_modified_def split: option.splits if_splits)
qed

text \<open>C18. No lost update.  Among any number of writers that have read the same version of an ad, in
  whatever order their \<^verbatim>\<open>Update\<close> and \<^verbatim>\<open>AtomicStatusUpdate\<close> calls reach the repository, at most one
  succeeds.  The counter may wrap around: a version is never its own successor.\<close>

theorem no_lost_update:
  assumes "\<forall>w \<in> set ws. cas_target w = i \<and> cas_expected w = v"
  shows "length (filter (\<lambda>r. r = Ok ()) (run_writes cas_write ws m)) \<le> 1"
  using assms by (rule mem_cas.at_most_one_write)

text \<open>A store with two queued ads and one completed one, and the instance of the statement above.\<close>

definition sample_ad :: "string \<Rightarrow> int \<Rightarrow> instant \<Rightarrow> AdStatus \<Rightarrow> Ad" where
  "sample_ad i p t s = SetStatus t s (NewAd t (sample_submission p)\<lparr>AdID := i\<rparr>)"

lemma sample_ad_simps [simp]:
  "AdID (sample_ad i p t s) = i" "Status (sample_ad i p t s) = s" "CreatedAt (sample_ad i p t s) = t"
  "Version (sample_ad i p t s) = 1" "Attempts (sample_ad i p t s) = 0"
  "Priority (sample_ad i p t s) = (if p \<le> 0 then 5 else p)" "Analysis (sample_ad i p t s) = None"
  "QueuedAt (sample_ad i p t s) = (if s = StatusQueued then Some t else None)"
  "EffectivePriority (sample_ad i p t s) =
     (if s = StatusQueued then if p \<le> 0 then 5 else p else 0)"
  "ProcessingStartedAt (sample_ad i p t s) = (if s = StatusProcessing then Some t else None)"
  by (simp_all add: sample_ad_def sample_submission_def NewAd_def AdSubmission.defs Ad.defs Let_def)

definition sample_store :: MemoryRepository where
  "sample_store = \<lparr>ads = [(''a'', sample_ad ''a'' 3 10 StatusQueued), (''b'', sample_ad ''b'' 1 20 StatusQueued),
     (''c'', sample_ad ''c'' 2 30 StatusCompleted)], locks = (\<lambda>_. None)\<rparr>"

lemma sample_store_wf: "store_wf sample_store"
  by (simp add: store_wf_def sample_store_def)

theorem no_lost_update_witness:
  "length (filter (\<lambda>r. r = Ok ()) (run_writes cas_write
     [CasStatus 40 ''a'' 1 StatusQueued StatusProcessing, CasUpdate (sample_ad ''a'' 9 10 StatusQueued),
      CasStatus 50 ''a'' 1 StatusQueued StatusProcessing] sample_store)) \<le> 1"
  by (rule no_lost_update[of _ "''a''" 1]) simp

theorem store_invariant_witness:
  "store_wf (fold repo_step [OpSave (Some (sample_ad ''a'' 3 10 StatusSubmitted)),
     OpAtomicStatusUpdate 20 ''a'' 1 StatusSubmitted StatusQueued,
     OpSet ''b'' (Some (sample_ad ''b'' 1 20 StatusQueued)) 300] NewMemoryRepository)"
  by (rule store_invariant) simp

section \<open>The queries\<close>

lemma go_slice_page:
  assumes "0 \<le> lo" and "0 \<le> n" and "lo < int (length xs)" and "in_i64 (lo + n)"
  shows "(let e = i64 (lo + n); e = (if int (length xs) < e then int (length xs) else e) in go_slice xs lo e)
    = Ok (take (nat n) (drop (nat lo) xs))"
proof (cases "int (length xs) < lo + n")
  case True
  with assms have "take (nat (int (length xs) - lo)) (drop (nat lo) xs) = drop (nat lo) xs"
    "take (nat n) (drop (nat lo) xs) = drop (nat lo) xs" by auto
  with True assms show ?thesis by (simp add: i64_id go_slice_def)
next
  case False
  with assms show ?thesis by (simp add: i64_id go_slice_def)
qed

lemma FindByStatus_eq:
  assumes "0 \<le> limit" and "0 \<le> offset" and "in_i64 (offset + limit)"
  shows "FindByStatus ord s limit offset m =
    Ok (take (nat limit) (drop (nat offset) (sort_slice newest_first (ads_with_status ord s m))))"
  using assms go_slice_page[of offset limit "sort_slice newest_first (ads_with_status ord s m)"]
  by (auto simp: FindByStatus_def Let_def)

text \<open>Listing by status.  For a non-negative limit and offset whose sum does not overflow,
  \<^verbatim>\<open>FindByStatus\<close> returns the page [offset, offset+limit) of a list that holds every stored ad of
  the status exactly once, newest first.\<close>

theorem find_by_status_page:
  assumes "0 \<le> limit" and "0 \<le> offset" and "in_i64 (offset + limit)"
  shows "\<exists>xs. FindByStatus ord s limit offset m = Ok (take (nat limit) (drop (nat offset) xs))
    \<and> mset xs = mset (filter (\<lambda>a. Status a = s) (map snd (ads m)))
    \<and> sorted_wrt (\<lambda>x y. CreatedAt y \<le> CreatedAt x) xs"
proof -
  let ?xs = "sort_slice newest_first (ads_with_status ord s m)"
  have "in_order newest_first ?xs" by (rule newest.sort_slice_in_order)
  then have "sorted_wrt (\<lambda>x y. CreatedAt y \<le> CreatedAt x) ?xs"
    by (rule sorted_wrt_mono_rel[rotated]) (simp add: newest_first_def)
  moreover have "mset ?xs = mset (filter (\<lambda>a. Status a = s) (map snd (ads m)))"
    by (simp only: mset_sort_slice mset_ads_with_status)
  ultimately show ?thesis using FindByStatus_eq[OF assms] by blast
qed

theorem find_by_status_page_witness:
  "\<exists>xs. FindByStatus [1] StatusQueued 10 0 sample_store = Ok (take 10 (drop 0 xs))
    \<and> mset xs = mset (filter (\<lambda>a. Status a = StatusQueued) (map snd (ads sample_store)))
    \<and> sorted_wrt (\<lambda>x y. CreatedAt y \<le> CreatedAt x) xs"
  using find_by_status_page[of 10 0 "[1]" StatusQueued sample_store] by (simp add: in_i64_def)

text \<open>When a listing panics.  With an offset inside the result, \<^verbatim>\<open>FindByStatus\<close> panics exactly when
  the offset or the limit is negative or their sum leaves the 64-bit range: the slice expression is
  not guarded.  The callers of the program pass a limit between 1 and 100 and a non-negative offset.\<close>

theorem find_by_status_panics:
  assumes "in_i64 limit" and "in_i64 offset"
    and "CountByStatus s m = Ok n" and "offset < n" and "n < 2 ^ 62"
  shows "FindByStatus ord s limit offset m = Panic \<longleftrightarrow> offset < 0 \<or> limit < 0 \<or> 2 ^ 63 \<le> offset + limit"
proof -
  let ?xs = "sort_slice newest_first (ads_with_status ord s m)"
  have len: "int (length ?xs) = n"
    using assms(3) by (simp add: CountByStatus_def length_ads_with_status)
  have F: "FindByStatus ord s limit offset m =
      (let e = i64 (offset + limit); e = (if n < e then n else e) in go_slice ?xs offset e)"
    using assms(4) len by (simp add: FindByStatus_def Let_def)
  consider "offset < 0" | "0 \<le> offset" "limit < 0" | "0 \<le> offset" "0 \<le> limit" "2 ^ 63 \<le> offset + limit"
    | "0 \<le> offset" "0 \<le> limit" "offset + limit < 2 ^ 63" by linarith
  then show ?thesis
  proof cases
    case 1
    then show ?thesis by (simp add: F Let_def go_slice_def)
  next
    case 2
    then have "i64 (offset + limit) = offset + limit"
      using assms(1,2,4,5) by (intro i64_id) (simp add: in_i64_def)
    with 2 show ?thesis using assms(4) by (simp add: F Let_def go_slice_def)
  next
    case 3
    then have "i64 (offset + limit) = offset + limit - 2 ^ 64"
    proof -
      have "(offset + limit + 2 ^ 63) mod 2 ^ 64 = (offset + limit + 2 ^ 63 - 2 ^ 64) mod 2 ^ 64"
        by (metis mod_diff_right_eq mod_self diff_zero)
      also have "\<dots> = offset + limit + 2 ^ 63 - 2 ^ 64"
        using 3 assms(1,2,4,5) by (intro mod_pos_pos_trivial) (auto simp: in_i64_def)
      finally show ?thesis by (simp add: i64_def)
    qed
    with 3 show ?thesis using assms(1,2,4,5) by (simp add: F Let_def go_slice_def in_i64_def)
  next
    case 4
    then have "i64 (offset + limit) = offset + limit" by (intro i64_id) (simp add: in_i64_def)
    with 4 show ?thesis using assms(4) len by (simp add: F Let_def go_slice_def)
  qed
qed

theorem find_by_status_panics_witness:
  "FindByStatus [] StatusQueued (- 1) 1 sample_store = Panic"
  using find_by_status_panics[of "- 1" 1 StatusQueued sample_store 2 "[]"]
  by (simp add: in_i64_def CountByStatus_def sample_store_def)

text \<open>
  With distinct creation times the order of a listing does not depend on the order of the map, so
  the pages of separate calls fit together.
\<close>

lemma newest_sort_unique:
  assumes "inj_on CreatedAt {a \<in> snd ` set (ads m). Status a = s}"
  shows "sort_slice newest_first (ads_with_status ord s m) =
    sort_key (\<lambda>a. - CreatedAt a) (filter (\<lambda>a. Status a = s) (map snd (ads m)))"
proof -
  let ?xs = "filter (\<lambda>a. Status a = s) (map snd (ads m))"
  let ?ys = "sort_slice newest_first (ads_with_status ord s m)"
  have "in_order newest_first ?ys" by (rule newest.sort_slice_in_order)
  then have sorted: "sorted (map (\<lambda>a. - CreatedAt a) ?ys)"
    by (simp add: sorted_map newest_first_def not_less)
  have "set ?xs = {a \<in> snd ` set (ads m). Status a = s}" by auto
  with assms have "inj_on CreatedAt (set ?xs)" by simp
  then have inj: "inj_on (\<lambda>a. - CreatedAt a) (set ?xs)" by (auto simp: inj_on_def)
  have "mset ?xs = mset ?ys" by (simp only: mset_sort_slice mset_ads_with_status)
  from sort_key_inj_key_eq[OF this inj sorted] show ?thesis by simp
qed

lemma concat_pages: "concat (map (\<lambda>p. take n (drop (p * n) xs)) [0..<k]) = take (k * n) xs"
proof (induction k)
  case (Suc k)
  have "take (Suc k * n) xs = take (k * n + n) xs" by (simp add: add.commute)
  also have "\<dots> = take (k * n) xs @ take n (drop (k * n) xs)" by (rule take_add)
  finally show ?case using Suc by simp
qed simp

text \<open>C30. Pagination is complete.  If no two ads of the status were created at the same instant, the
  first k pages of size L, fetched by separate calls with any iteration orders of the map, are
  together the first k*L ads of the one list of these ads, newest first: no ad is repeated or left
  out between pages.\<close>

theorem pages_cover:
  assumes "inj_on CreatedAt {a \<in> snd ` set (ads m). Status a = s}"
    and "0 < L" and "in_i64 (int k * L)"
  shows "concat (map (\<lambda>p. case FindByStatus (ords p) s L (int p * L) m of Ok xs \<Rightarrow> xs | _ \<Rightarrow> []) [0..<k])
    = take (k * nat L) (sort_key (\<lambda>a. - CreatedAt a) (filter (\<lambda>a. Status a = s) (map snd (ads m))))"
proof -
  let ?xs = "sort_key (\<lambda>a. - CreatedAt a) (filter (\<lambda>a. Status a = s) (map snd (ads m)))"
  have page: "FindByStatus (ords p) s L (int p * L) m = Ok (take (nat L) (drop (p * nat L) ?xs))"
    if "p < k" for p
  proof -
    have "int p * L + L \<le> int k * L"
      using that assms(2) mult_right_mono[of "int p + 1" "int k" L] by (simp add: algebra_simps)
    moreover have lo: "0 \<le> int p * L" using assms(2) by simp
    ultimately have "in_i64 (int p * L + L)" using assms(2,3) unfolding in_i64_def by linarith
    moreover have "nat (int p * L) = p * nat L" using assms(2) by (simp add: nat_mult_distrib)
    ultimately show ?thesis
      using FindByStatus_eq[of L "int p * L" "ords p" s m] assms(2) lo newest_sort_unique[OF assms(1)]
      by simp
  qed
  have "map (\<lambda>p. case FindByStatus (ords p) s L (int p * L) m of Ok xs \<Rightarrow> xs | _ \<Rightarrow> []) [0..<k] =
      map (\<lambda>p. take (nat L) (drop (p * nat L) ?xs)) [0..<k]"
    by (rule map_cong) (simp_all add: page)
  then show ?thesis by (simp only: concat_pages)
qed

theorem pages_cover_witness:
  "concat (map (\<lambda>p. case FindByStatus [p] StatusQueued 1 (int p * 1) sample_store of Ok xs \<Rightarrow> xs | _ \<Rightarrow> []) [0..<2])
    = [sample_ad ''b'' 1 20 StatusQueued, sample_ad ''a'' 3 10 StatusQueued]"
proof -
  have inj: "inj_on CreatedAt {a \<in> snd ` set (ads sample_store). Status a = StatusQueued}"
    by (auto simp: sample_store_def inj_on_def)
  show ?thesis
    using pages_cover[OF inj, of 1 2 "\<lambda>p. [p]"] by (simp add: in_i64_def sample_store_def numeral_2_eq_2)
qed

text \<open>The priority query.  For a non-negative limit \<^verbatim>\<open>FindByPriority\<close> returns the first ads of a
  list of all ads of the status in which no ad precedes one with a smaller effective priority, with
  equal effective and smaller submitted priority, or with both equal and an earlier creation; a
  negative limit panics.\<close>

theorem find_by_priority_order:
  "\<exists>xs. mset xs = mset (filter (\<lambda>a. Status a = s) (map snd (ads m)))
    \<and> sorted_wrt (\<lambda>x y. \<not> by_priority y x) xs
    \<and> FindByPriority ord s limit m = (if 0 \<le> limit then Ok (take (nat limit) xs) else Panic)"
proof -
  let ?xs = "sort_slice by_priority (ads_with_status ord s m)"
  have "mset ?xs = mset (filter (\<lambda>a. Status a = s) (map snd (ads m)))"
    by (simp only: mset_sort_slice mset_ads_with_status)
  moreover have "sorted_wrt (\<lambda>x y. \<not> by_priority y x) ?xs" by (rule prio.sort_slice_in_order)
  moreover have "FindByPriority ord s limit m = (if 0 \<le> limit then Ok (take (nat limit) ?xs) else Panic)"
    by (auto simp: FindByPriority_def Let_def go_slice_def)
  ultimately show ?thesis by blast
qed

lemma mem_PopFromQueue_empty:
  "(\<And>k b. lookup_ad m k = Some b \<Longrightarrow> Status b \<noteq> StatusQueued) \<Longrightarrow> store_wf m \<Longrightarrow>
   mem_PopFromQueue ord q m = (Err ErrAdNotFound, m)"
proof -
  assume none: "\<And>k b. lookup_ad m k = Some b \<Longrightarrow> Status b \<noteq> StatusQueued" and wf: "store_wf m"
  have "set (ads_with_status ord StatusQueued m) = {}"
    using none store_wf_stored[OF wf] by (auto simp: set_ads_with_status)
  then show ?thesis by (simp add: mem_PopFromQueue_def)
qed

lemma mem_PopFromQueue_some:
  assumes wf: "store_wf m" and some: "lookup_ad m k = Some b" "Status b = StatusQueued"
  shows "\<exists>a. mem_PopFromQueue ord q m = (Ok (AdID a), m) \<and> lookup_ad m (AdID a) = Some a
    \<and> Status a = StatusQueued \<and> (\<forall>k b. lookup_ad m k = Some b \<and> Status b = StatusQueued \<longrightarrow>
         EffectivePriority a < EffectivePriority b
         \<or> EffectivePriority a = EffectivePriority b \<and> CreatedAt a \<le> CreatedAt b)"
proof -
  let ?xs = "ads_with_status ord StatusQueued m"
  have "b \<in> set ?xs" using some by (rule lookup_in_status)
  then obtain a as where s: "sort_slice pop_order ?xs = a # as"
    by (cases "sort_slice pop_order ?xs") auto
  have "a \<in> set ?xs" by (metis s list.set_intros(1) set_sort_slice)
  then have a: "lookup_ad m (AdID a) = Some a" "Status a = StatusQueued"
    using store_wf_stored[OF wf] by (auto simp: set_ads_with_status)
  have "EffectivePriority a < EffectivePriority b
      \<or> EffectivePriority a = EffectivePriority b \<and> CreatedAt a \<le> CreatedAt b"
    if "lookup_ad m k = Some b" "Status b = StatusQueued" for k b
  proof -
    have "b \<in> set ?xs" using that by (rule lookup_in_status)
    from pop.sort_slice_hd_minimal[OF this] have "\<not> pop_order b a" by (simp add: s)
    then show ?thesis by (auto simp: pop_order_def split: if_splits)
  qed
  with a s show ?thesis by (auto simp: mem_PopFromQueue_def)
qed

text \<open>The memory queue.  \<^verbatim>\<open>PopFromQueue\<close> of the memory repository fails with \<^verbatim>\<open>ErrAdNotFound\<close> exactly
  when no ad is queued; otherwise it names a queued ad that no queued ad precedes in effective
  priority or, at equal priority, in creation time.  It leaves the repository as it was: the ad is
  not removed, whatever its comment says.\<close>

theorem pop_from_queue_minimal:
  assumes "store_wf m"
  shows "snd (mem_PopFromQueue ord q m) = m
    \<and> (case fst (mem_PopFromQueue ord q m) of
        Ok i \<Rightarrow> (\<exists>a. lookup_ad m i = Some a \<and> Status a = StatusQueued
          \<and> (\<forall>k b. lookup_ad m k = Some b \<and> Status b = StatusQueued \<longrightarrow>
               EffectivePriority a < EffectivePriority b
               \<or> EffectivePriority a = EffectivePriority b \<and> CreatedAt a \<le> CreatedAt b))
      | Err e \<Rightarrow> e = ErrAdNotFound \<and> (\<forall>k b. lookup_ad m k = Some b \<longrightarrow> Status b \<noteq> StatusQueued)
      | Panic \<Rightarrow> False)"
proof (cases "\<exists>k b. lookup_ad m k = Some b \<and> Status b = StatusQueued")
  case True
  with mem_PopFromQueue_some[OF assms, of _ _ ord q] show ?thesis by fastforce
next
  case False
  with mem_PopFromQueue_empty[OF _ assms, of ord q] show ?thesis by auto
qed

theorem pop_from_queue_minimal_witness:
  "snd (mem_PopFromQueue [] ''ads:queue'' sample_store) = sample_store
    \<and> fst (mem_PopFromQueue [] ''ads:queue'' sample_store) = Ok ''b''"
  using pop_from_queue_minimal[OF sample_store_wf, of "[]" "''ads:queue''"]
  by (simp add: mem_PopFromQueue_def ads_with_status_def sample_store_def pop_order_def)

end
