(* ===== verification/Redis_Cache.thy ===== *)
theory Redis_Cache
  imports Memory_Store
begin

text \<open>
  The Redis cache (\<^verbatim>\<open>internal/storage/cache/redis.go\<close>).  The client library and the server are not
  part of the repository: a \<open>redis_client\<close> is a record of the commands the code issues, each a
  function of the server's state \<^typ>\<open>'r\<close>, and every operation here takes it as an argument.  What
  the Redis documentation promises about them is stated as a predicate (\<open>redis_documented\<close>) that
  the properties name as a hypothesis.
\<close>

section \<open>What is stored\<close>

text \<open>
  \<^verbatim>\<open>json.Marshal\<close> of an ad keeps the exported fields that are not tagged \<^verbatim>\<open>json:"-"\<close>; the tag drops
  the attempts, the worker, the version and the effective priority.  \<open>ad_json\<close> is the document.  A
  field omitted when empty is read back as its zero value, which is the value omitted.  Strings are
  taken to be valid UTF-8.
\<close>

record ad_json =
  js_adId :: string
  js_submission :: AdSubmission
  js_status :: string
  js_createdAt :: instant
  js_queuedAt :: "instant option"
  js_processingStartedAt :: "instant option"
  js_completedAt :: "instant option"
  js_analysis :: "AdAnalysis option"
  js_error :: string

text \<open>A value under a key: a document, the document \<^verbatim>\<open>null\<close>, an integer, or other bytes.\<close>

datatype payload = PJson ad_json | PNull | PInt int | PRaw string

fun finite_float :: "float64 \<Rightarrow> bool" where
  "finite_float (Fin x) = True"
| "finite_float _ = False"

definition json_Marshal :: "Ad option \<Rightarrow> payload result" where
  "json_Marshal ad =
     (case ad of None \<Rightarrow> Ok PNull
      | Some a \<Rightarrow>
          if (case Analysis a of Some an \<Rightarrow> \<not> finite_float (EffectivenessScore an) | None \<Rightarrow> False)
          then Err (ClientError ''json: unsupported value'')
          else Ok (PJson \<lparr>js_adId = AdID a, js_submission = AdSubmission.truncate a,
            js_status = string_of_status (Status a), js_createdAt = CreatedAt a,
            js_queuedAt = QueuedAt a, js_processingStartedAt = ProcessingStartedAt a,
            js_completedAt = CompletedAt a, js_analysis = Analysis a, js_error = Error a\<rparr>))"

definition zero_submission :: AdSubmission where
  "zero_submission = \<lparr>Title = '''', Description = '''', Genre = '''', TargetAudience = [],
     VisualElements = [], CallToAction = '''', Duration = 0, Priority = 0\<rparr>"

text \<open>The zero time is the instant 0 of the model's clock.\<close>

definition json_Unmarshal :: "payload \<Rightarrow> Ad result" where
  "json_Unmarshal p =
     (case p of
        PJson j \<Rightarrow> Ok (AdSubmission.extend (js_submission j) (Ad.fields (js_adId j)
          (AdStatus_of (js_status j)) (js_createdAt j) (js_queuedAt j) (js_processingStartedAt j)
          (js_completedAt j) (js_analysis j) (js_error j) 0 '''' 0 0))
      | PNull \<Rightarrow> Ok (AdSubmission.extend zero_submission
          (Ad.fields '''' (StatusOther '''') 0 None None None None '''' 0 '''' 0 0))
      | PInt n \<Rightarrow> Err (ClientError ''json: cannot unmarshal number into Go value of type models.Ad'')
      | PRaw s \<Rightarrow> Err (ClientError ''json: invalid character''))"

section \<open>The client\<close>

record 'r redis_client =
  cl_ping :: "'r \<Rightarrow> goerr option \<times> 'r"
  cl_set :: "string \<Rightarrow> payload \<Rightarrow> duration \<Rightarrow> 'r \<Rightarrow> goerr option \<times> 'r"
  cl_get :: "string \<Rightarrow> 'r \<Rightarrow> (goerr + payload) \<times> 'r"
  cl_getInt64 :: "string \<Rightarrow> 'r \<Rightarrow> (goerr + int) \<times> 'r"
  cl_del :: "string \<Rightarrow> 'r \<Rightarrow> goerr option \<times> 'r"
  cl_zadd :: "string \<Rightarrow> float64 \<Rightarrow> string \<Rightarrow> 'r \<Rightarrow> goerr option \<times> 'r"
  cl_zpopmin :: "string \<Rightarrow> int \<Rightarrow> 'r \<Rightarrow> (goerr + (string option \<times> float64) list) \<times> 'r"
  cl_incr :: "string \<Rightarrow> 'r \<Rightarrow> (goerr + int) \<times> 'r"
  cl_close :: "'r \<Rightarrow> goerr option \<times> 'r"

text \<open>The repository: the client and the default time to live.\<close>

record 'r RedisRepository =
  client :: "'r redis_client"
  defaultTTL :: duration

definition wrap_unit :: "string \<Rightarrow> goerr option \<times> 'r \<Rightarrow> unit result \<times> 'r" where
  "wrap_unit msg er = (case er of (None, r) \<Rightarrow> (Ok (), r) | (Some e, r) \<Rightarrow> (Err (Wrapf msg e ''''), r))"

definition NewRedisRepository ::
  "'r redis_client \<Rightarrow> duration \<Rightarrow> 'r \<Rightarrow> 'r RedisRepository result \<times> 'r" where
  "NewRedisRepository cl ttl r =
     (case cl_ping cl r of
        (Some e, r) \<Rightarrow> (Err (Wrapf ''failed to connect to Redis: '' e ''''), r)
      | (None, r) \<Rightarrow> (Ok \<lparr>client = cl, defaultTTL = ttl\<rparr>, r))"

text \<open>\<^verbatim>\<open>Close\<close> is the client's.\<close>

definition redis_Close :: "'r RedisRepository \<Rightarrow> 'r \<Rightarrow> goerr option \<times> 'r" where
  "redis_Close rr r = cl_close (client rr) r"

section \<open>Cache operations\<close>

definition redis_Set ::
  "'r RedisRepository \<Rightarrow> string \<Rightarrow> Ad option \<Rightarrow> duration \<Rightarrow> 'r \<Rightarrow> unit result \<times> 'r" where
  "redis_Set rr adID ad ttlSeconds r =
     (case json_Marshal ad of
        Err e \<Rightarrow> (Err (Wrapf ''failed to serialize ad: '' e ''''), r)
      | Panic \<Rightarrow> (Panic, r)
      | Ok data \<Rightarrow>
          let ttl = (if 0 < ttlSeconds then ttlSeconds else defaultTTL rr)
          in wrap_unit ''failed to store ad in Redis: '' (cl_set (client rr) (''ad:'' @ adID) data ttl r))"

definition redis_Get :: "'r RedisRepository \<Rightarrow> string \<Rightarrow> 'r \<Rightarrow> Ad result \<times> 'r" where
  "redis_Get rr adID r =
     (case cl_get (client rr) (''ad:'' @ adID) r of
        (Inl e, r) \<Rightarrow>
          if e = RedisNil then (Err ErrAdNotFound, r)
          else (Err (Wrapf ''failed to retrieve ad from Redis: '' e ''''), r)
      | (Inr data, r) \<Rightarrow>
          (case json_Unmarshal data of
             Err e \<Rightarrow> (Err (Wrapf ''failed to deserialize ad: '' e ''''), r)
           | res \<Rightarrow> (res, r)))"

definition redis_Delete :: "'r RedisRepository \<Rightarrow> string \<Rightarrow> 'r \<Rightarrow> unit result \<times> 'r" where
  "redis_Delete rr adID r =
     wrap_unit ''failed to delete ad from Redis: '' (cl_del (client rr) (''ad:'' @ adID) r)"

section \<open>Queue operations\<close>

definition redis_PushToQueue ::
  "'r RedisRepository \<Rightarrow> string \<Rightarrow> string \<Rightarrow> int \<Rightarrow> 'r \<Rightarrow> unit result \<times> 'r" where
  "redis_PushToQueue rr queueName adID priority r =
     wrap_unit ''failed to push to Redis queue: ''
       (cl_zadd (client rr) queueName (f64_of_int priority) adID r)"

definition redis_PopFromQueue :: "'r RedisRepository \<Rightarrow> string \<Rightarrow> 'r \<Rightarrow> string result \<times> 'r" where
  "redis_PopFromQueue rr queueName r =
     (case cl_zpopmin (client rr) queueName 1 r of
        (Inl e, r) \<Rightarrow> (Err (Wrapf ''failed to pop from Redis queue: '' e ''''), r)
      | (Inr [], r) \<Rightarrow> (Err ErrAdNotFound, r)
      | (Inr ((None, _) # _), r) \<Rightarrow> (Err (Errorf ''invalid ad ID in Redis queue''), r)
      | (Inr ((Some adID, _) # _), r) \<Rightarrow> (Ok adID, r))"

section \<open>Counters\<close>

definition redis_IncrementCounter :: "'r RedisRepository \<Rightarrow> string \<Rightarrow> 'r \<Rightarrow> int result \<times> 'r" where
  "redis_IncrementCounter rr key r =
     (case cl_incr (client rr) key r of
        (Inl e, r) \<Rightarrow> (Err (Wrapf ''failed to increment Redis counter: '' e ''''), r)
      | (Inr val, r) \<Rightarrow> (Ok val, r))"

definition redis_GetGauge :: "'r RedisRepository \<Rightarrow> string \<Rightarrow> 'r \<Rightarrow> int result \<times> 'r" where
  "redis_GetGauge rr key r =
     (case cl_getInt64 (client rr) key r of
        (Inl e, r) \<Rightarrow>
          if e = RedisNil then (Ok 0, r) else (Err (Wrapf ''failed to get Redis gauge: '' e ''''), r)
      | (Inr val, r) \<Rightarrow> (Ok val, r))"

definition redis_SetGauge :: "'r RedisRepository \<Rightarrow> string \<Rightarrow> int \<Rightarrow> 'r \<Rightarrow> unit result \<times> 'r" where
  "redis_SetGauge rr key value r =
     wrap_unit ''failed to set Redis gauge: '' (cl_set (client rr) key (PInt value) 0 r)"

section \<open>What Redis documents\<close>

text \<open>
  The commands while the server is reachable.  \<open>kv\<close> is the visible value of a key and \<open>zs\<close> the
  scores of a sorted set.  SET makes its value the one GET returns; a missing key is the error
  \<^verbatim>\<open>redis.Nil\<close>; ZADD sets the score of a member; ZPOPMIN removes and returns a member of least score, and
  returns nothing from an empty set.  Expiry is a change of the server's state between commands.
  Values and sorted sets have separate key spaces here; on a server they share one, but the names the
  program uses for the two differ (the keys of ads begin with \<^verbatim>\<open>ad:\<close>, the counter is \<^verbatim>\<open>queue:count\<close>,
  the queue is \<^verbatim>\<open>ads:queue\<close>), so no command meets a key of the other type.
\<close>

definition redis_documented ::
  "'r redis_client \<Rightarrow> ('r \<Rightarrow> string \<Rightarrow> payload option) \<Rightarrow> ('r \<Rightarrow> string \<Rightarrow> string \<Rightarrow> rat option) \<Rightarrow> bool" where
  "redis_documented cl kv zs \<longleftrightarrow>
     (\<forall>k p ttl r. fst (cl_set cl k p ttl r) = None
        \<and> kv (snd (cl_set cl k p ttl r)) = (kv r)(k \<mapsto> p) \<and> zs (snd (cl_set cl k p ttl r)) = zs r)
   \<and> (\<forall>k r. snd (cl_get cl k r) = r
        \<and> fst (cl_get cl k r) = (case kv r k of None \<Rightarrow> Inl RedisNil | Some p \<Rightarrow> Inr p))
   \<and> (\<forall>k r. zs (snd (cl_incr cl k r)) = zs r)
   \<and> (\<forall>k r. zs (snd (cl_getInt64 cl k r)) = zs r)
   \<and> (\<forall>q x i r. fst (cl_zadd cl q (Fin x) i r) = None
        \<and> zs (snd (cl_zadd cl q (Fin x) i r)) = (zs r)(q := (zs r q)(i \<mapsto> x)))
   \<and> (\<forall>q r. zs r q = Map.empty \<longrightarrow> cl_zpopmin cl q 1 r = (Inr [], r))
   \<and> (\<forall>q r. zs r q \<noteq> Map.empty \<longrightarrow>
        (\<exists>i x. fst (cl_zpopmin cl q 1 r) = Inr [(Some i, Fin x)] \<and> zs r q i = Some x
           \<and> (\<forall>j y. zs r q j = Some y \<longrightarrow> x \<le> y)
           \<and> zs (snd (cl_zpopmin cl q 1 r)) = (zs r)(q := (zs r q)(i := None))))"

text \<open>A client that behaves as documented: two association lists.\<close>

record ref_state =
  ref_kv :: "(string \<times> payload) list"
  ref_zs :: "string \<Rightarrow> (string \<times> rat) list"

definition ref_getInt :: "string \<Rightarrow> ref_state \<Rightarrow> goerr + int" where
  "ref_getInt k r = (case map_of (ref_kv r) k of
     None \<Rightarrow> Inl RedisNil | Some (PInt n) \<Rightarrow> Inr n | Some _ \<Rightarrow> Inl (ClientError ''not an integer''))"

definition ref_client :: "ref_state redis_client" where
  "ref_client = \<lparr>
     cl_ping = (\<lambda>r. (None, r)),
     cl_set = (\<lambda>k p ttl r. (None, r\<lparr>ref_kv := AList.update k p (ref_kv r)\<rparr>)),
     cl_get = (\<lambda>k r. (case map_of (ref_kv r) k of None \<Rightarrow> Inl RedisNil | Some p \<Rightarrow> Inr p, r)),
     cl_getInt64 = (\<lambda>k r. (ref_getInt k r, r)),
     cl_del = (\<lambda>k r. (None, r\<lparr>ref_kv := AList.delete k (ref_kv r)\<rparr>)),
     cl_zadd = (\<lambda>q s i r. case s of
         Fin x \<Rightarrow> (None, r\<lparr>ref_zs := (ref_zs r)(q := AList.update i x (ref_zs r q))\<rparr>)
       | _ \<Rightarrow> (Some (ClientError ''value is not a valid float''), r)),
     cl_zpopmin = (\<lambda>q n r. case sort_slice (\<lambda>a b. snd a < snd b) (AList.clearjunk (ref_zs r q)) of
         [] \<Rightarrow> (Inr [], r)
       | (i, x) # _ \<Rightarrow> (Inr [(Some i, Fin x)],
           r\<lparr>ref_zs := (ref_zs r)(q := AList.delete i (ref_zs r q))\<rparr>)),
     cl_incr = (\<lambda>k r. case ref_getInt k r of
         Inr n \<Rightarrow> (Inr (i64 (n + 1)), r\<lparr>ref_kv := AList.update k (PInt (i64 (n + 1))) (ref_kv r)\<rparr>)
       | Inl e \<Rightarrow> if e = RedisNil then (Inr 1, r\<lparr>ref_kv := AList.update k (PInt 1) (ref_kv r)\<rparr>)
                 else (Inl e, r)),
     cl_close = (\<lambda>r. (None, r)) \<rparr>"

interpretation zset_score: strict_weak_order "\<lambda>a b :: string \<times> rat. snd a < snd b"
  by unfold_locales auto

lemma ref_zpopmin_some:
  assumes "map_of (ref_zs r q) \<noteq> Map.empty"
  shows "\<exists>i x. cl_zpopmin ref_client q n r =
      (Inr [(Some i, Fin x)], r\<lparr>ref_zs := (ref_zs r)(q := AList.delete i (ref_zs r q))\<rparr>)
    \<and> map_of (ref_zs r q) i = Some x \<and> (\<forall>j y. map_of (ref_zs r q) j = Some y \<longrightarrow> x \<le> y)"
proof -
  let ?zs = "AList.clearjunk (ref_zs r q)"
  have m: "map_of ?zs = map_of (ref_zs r q)" by (rule map_of_clearjunk)
  have d: "distinct (map fst ?zs)" by (rule distinct_clearjunk)
  from assms have "?zs \<noteq> []" using m by (metis map_of.simps(1))
  then obtain i x rest where s: "sort_slice (\<lambda>a b. snd a < snd b) ?zs = (i, x) # rest"
    by (cases "sort_slice (\<lambda>a b. snd a < snd b) ?zs") auto
  have "(i, x) \<in> set ?zs" by (metis s list.set_intros(1) set_sort_slice)
  then have ix: "map_of (ref_zs r q) i = Some x" using d m by (metis map_of_is_SomeI)
  have "x \<le> y" if "map_of (ref_zs r q) j = Some y" for j y
  proof -
    from that m have "(j, y) \<in> set ?zs" by (metis map_of_SomeD)
    from zset_score.sort_slice_hd_minimal[OF this] show ?thesis by (simp add: s)
  qed
  with ix s show ?thesis by (auto simp: ref_client_def)
qed

lemma ref_client_documented:
  "redis_documented ref_client (\<lambda>r. map_of (ref_kv r)) (\<lambda>r q. map_of (ref_zs r q))"
proof -
  have empty: "cl_zpopmin ref_client q 1 r = (Inr [], r)" if "map_of (ref_zs r q) = Map.empty" for q r
  proof -
    have "AList.clearjunk (ref_zs r q) = []"
      using that map_of_clearjunk[of "ref_zs r q"] by (metis map_of_eq_empty_iff)
    then show ?thesis by (simp add: ref_client_def)
  qed
  have some: "\<exists>i x. fst (cl_zpopmin ref_client q 1 r) = Inr [(Some i, Fin x)]
      \<and> map_of (ref_zs r q) i = Some x \<and> (\<forall>j y. map_of (ref_zs r q) j = Some y \<longrightarrow> x \<le> y)
      \<and> (\<lambda>q'. map_of (ref_zs (snd (cl_zpopmin ref_client q 1 r)) q')) =
          (\<lambda>q. map_of (ref_zs r q))(q := (map_of (ref_zs r q))(i := None))"
    if "map_of (ref_zs r q) \<noteq> Map.empty" for q r
  proof -
    from ref_zpopmin_some[OF that, of 1] obtain i x where
      p: "cl_zpopmin ref_client q 1 r =
        (Inr [(Some i, Fin x)], r\<lparr>ref_zs := (ref_zs r)(q := AList.delete i (ref_zs r q))\<rparr>)"
      and "map_of (ref_zs r q) i = Some x" "\<forall>j y. map_of (ref_zs r q) j = Some y \<longrightarrow> x \<le> y" by blast
    then show ?thesis by (intro exI[of _ i] exI[of _ x]) (auto simp: p fun_eq_iff)
  qed
  show ?thesis
    unfolding redis_documented_def using empty some
    by (auto simp: ref_client_def fun_eq_iff split: option.splits sum.splits)
qed

lemma redis_documentedD:
  assumes "redis_documented cl kv zs"
  shows "cl_get cl k r = (case kv r k of None \<Rightarrow> Inl RedisNil | Some p \<Rightarrow> Inr p, r)"
    and "fst (cl_set cl k p ttl r) = None" and "kv (snd (cl_set cl k p ttl r)) = (kv r)(k \<mapsto> p)"
    and "fst (cl_zadd cl q (Fin x) i r) = None"
    and "zs (snd (cl_zadd cl q (Fin x) i r)) = (zs r)(q := (zs r q)(i \<mapsto> x))"
    and "zs (snd (cl_incr cl k r)) = zs r" and "zs (snd (cl_getInt64 cl k r)) = zs r"
    and "zs r q = Map.empty \<Longrightarrow> cl_zpopmin cl q 1 r = (Inr [], r)"
    and "zs r q \<noteq> Map.empty \<Longrightarrow> \<exists>i x. fst (cl_zpopmin cl q 1 r) = Inr [(Some i, Fin x)]
      \<and> zs r q i = Some x \<and> (\<forall>j y. zs r q j = Some y \<longrightarrow> x \<le> y)
      \<and> zs (snd (cl_zpopmin cl q 1 r)) = (zs r)(q := (zs r q)(i := None))"
  using assms unfolding redis_documented_def by (simp_all add: prod_eq_iff)

section \<open>Properties\<close>

lemma wrap_unit_None: "fst er = None \<Longrightarrow> wrap_unit msg er = (Ok (), snd er)"
  by (cases er) (simp add: wrap_unit_def)

lemma redis_PushToQueue_documented:
  assumes "redis_documented (client rr) kv zs" and "0 \<le> p" and "in_i64 p"
  shows "fst (redis_PushToQueue rr q i p r) = Ok ()"
    and "zs (snd (redis_PushToQueue rr q i p r)) = (zs r)(q := (zs r q)(i \<mapsto> round64 (of_int p)))"
  using redis_documentedD(4,5)[OF assms(1), of q "round64 (of_int p)" i r] f64_of_int_Fin[OF assms(2,3)]
  by (simp_all add: redis_PushToQueue_def wrap_unit_None)

lemma redis_PopFromQueue_empty:
  assumes "redis_documented (client rr) kv zs" and "zs r q = Map.empty"
  shows "redis_PopFromQueue rr q r = (Err ErrAdNotFound, r)"
  using redis_documentedD(8)[OF assms] by (simp add: redis_PopFromQueue_def)

lemma redis_PopFromQueue_some:
  assumes "redis_documented (client rr) kv zs" and "zs r q \<noteq> Map.empty"
  shows "\<exists>i x. fst (redis_PopFromQueue rr q r) = Ok i \<and> zs r q i = Some x
    \<and> (\<forall>j y. zs r q j = Some y \<longrightarrow> x \<le> y)
    \<and> zs (snd (redis_PopFromQueue rr q r)) = (zs r)(q := (zs r q)(i := None))"
  using redis_documentedD(9)[OF assms]
  by (force simp: redis_PopFromQueue_def split: prod.splits)

text \<open>The image of an ad in the cache: what its JSON tags keep.\<close>

definition json_image :: "Ad \<Rightarrow> Ad" where
  "json_image a = a\<lparr>Attempts := 0, WorkerID := '''', Version := 0, EffectivePriority := 0\<rparr>"

lemma json_roundtrip:
  assumes "json_Marshal (Some a) = Ok p" and "AdStatus_of (string_of_status (Status a)) = Status a"
  shows "json_Unmarshal p = Ok (json_image a)"
  using assms
  by (cases a) (auto simp: json_Marshal_def json_Unmarshal_def json_image_def AdSubmission.defs Ad.defs
    split: if_splits)

text \<open>C31. The Redis cache returns what was stored, up to the fields its JSON form omits.  With a client
  that behaves as documented, reading an ad back after storing it gives the ad with the attempts,
  the worker, the version and the effective priority reset to zero; so an ad read from this cache
  must not be written back to the repository.\<close>

theorem redis_cache_roundtrip:
  assumes "redis_documented (client rr) kv zs"
    and "\<forall>an. Analysis a = Some an \<longrightarrow> finite_float (EffectivenessScore an)"
    and "AdStatus_of (string_of_status (Status a)) = Status a"
  shows "fst (redis_Get rr i (snd (redis_Set rr i (Some a) ttl r))) = Ok (json_image a)"
proof -
  obtain p where p: "json_Marshal (Some a) = Ok p"
    using assms(2) by (cases "Analysis a") (auto simp: json_Marshal_def)
  have u: "json_Unmarshal p = Ok (json_image a)" using p assms(3) by (rule json_roundtrip)
  let ?t = "if 0 < ttl then ttl else defaultTTL rr"
  note D = redis_documentedD[OF assms(1)]
  have "snd (redis_Set rr i (Some a) ttl r) = snd (cl_set (client rr) (''ad:'' @ i) p ?t r)"
    by (simp add: redis_Set_def p wrap_unit_None Let_def D(2))
  with D(1,3) u show ?thesis by (simp add: redis_Get_def)
qed

theorem redis_cache_roundtrip_witness:
  "fst (redis_Get \<lparr>client = ref_client, defaultTTL = nsMinute\<rparr> ''a''
     (snd (redis_Set \<lparr>client = ref_client, defaultTTL = nsMinute\<rparr> ''a'' (Some (sample_ad ''a'' 3 10 StatusQueued))
       300 \<lparr>ref_kv = [], ref_zs = (\<lambda>_. [])\<rparr>))) = Ok (json_image (sample_ad ''a'' 3 10 StatusQueued))"
  by (rule redis_cache_roundtrip[where kv = "\<lambda>r. map_of (ref_kv r)" and zs = "\<lambda>r q. map_of (ref_zs r q)"])
    (simp_all add: ref_client_documented AdStatus_of_def)

end
