(* ===== verification/Priority_Queue.thy ===== *)
theory Priority_Queue
  imports Redis_Cache
begin

text \<open>
  The distributed priority queue (\<^verbatim>\<open>internal/processor/queue.go\<close>).  Its two collaborators are the
  repository (always the in-memory one) and a cache repository, which is either that same in-memory
  repository or Redis.  The state of a process is a \<open>world\<close>: the repository and the state of the
  Redis server.  A call that fails after changing the caller's ad returns the changed ad.
\<close>

named_theorems queue_defs \<open>definitions of the queue's operations\<close>

section \<open>The world and the cache interface\<close>

record 'r world =
  repo :: MemoryRepository
  rds :: 'r

datatype 'r cache = MemoryCache | RedisCache "'r RedisRepository"

definition on_repo :: "(MemoryRepository \<Rightarrow> 'a \<times> MemoryRepository) \<Rightarrow> 'r world \<Rightarrow> 'a \<times> 'r world" where
  "on_repo f w = (case f (repo w) of (x, m) \<Rightarrow> (x, w\<lparr>repo := m\<rparr>))"

definition on_redis :: "('r \<Rightarrow> 'a \<times> 'r) \<Rightarrow> 'r world \<Rightarrow> 'a \<times> 'r world" where
  "on_redis f w = (case f (rds w) of (x, r) \<Rightarrow> (x, w\<lparr>rds := r\<rparr>))"

text \<open>Dynamic dispatch on the \<^verbatim>\<open>CacheRepository\<close> interface.\<close>

fun cache_PushToQueue :: "'r cache \<Rightarrow> string \<Rightarrow> string \<Rightarrow> int \<Rightarrow> 'r world \<Rightarrow> unit result \<times> 'r world" where
  "cache_PushToQueue MemoryCache q i p = on_repo (mem_PushToQueue q i p)"
| "cache_PushToQueue (RedisCache rr) q i p = on_redis (redis_PushToQueue rr q i p)"

fun cache_PopFromQueue :: "'r cache \<Rightarrow> nat list \<Rightarrow> string \<Rightarrow> 'r world \<Rightarrow> string result \<times> 'r world" where
  "cache_PopFromQueue MemoryCache ord q = on_repo (mem_PopFromQueue ord q)"
| "cache_PopFromQueue (RedisCache rr) ord q = on_redis (redis_PopFromQueue rr q)"

fun cache_IncrementCounter :: "'r cache \<Rightarrow> string \<Rightarrow> 'r world \<Rightarrow> int result \<times> 'r world" where
  "cache_IncrementCounter MemoryCache k = on_repo (mem_IncrementCounter k)"
| "cache_IncrementCounter (RedisCache rr) k = on_redis (redis_IncrementCounter rr k)"

fun cache_GetGauge :: "'r cache \<Rightarrow> string \<Rightarrow> 'r world \<Rightarrow> int result \<times> 'r world" where
  "cache_GetGauge MemoryCache k = on_repo (mem_GetGauge k)"
| "cache_GetGauge (RedisCache rr) k = on_redis (redis_GetGauge rr k)"

section \<open>State of the queue\<close>

record QueueOptions =
  MaxCapacity :: int
  ProcessingTimeout :: duration
  LockTTL :: duration
  MaxAttempts :: int
  EnableAging :: bool
  AgingRate :: float64
  MaxWaitTime :: duration

definition DefaultQueueOptions :: QueueOptions where
  "DefaultQueueOptions = \<lparr>MaxCapacity = 10000, ProcessingTimeout = 5 * nsMinute, LockTTL = 30 * nsSecond,
     MaxAttempts = 3, EnableAging = True, AgingRate = Fin (1 / 2), MaxWaitTime = 5 * nsMinute\<rparr>"

text \<open>
  The fields \<^verbatim>\<open>queuedItems\<close> and \<^verbatim>\<open>batchSize\<close> are never read; the shutdown channel is closed exactly
  when \<open>closed\<close> holds.
\<close>

record 'r DistributedPriorityQueue =
  cacheRepo :: "'r cache"
  instanceID :: string
  options :: QueueOptions
  closed :: bool

definition NewDistributedPriorityQueue ::
  "'r cache \<Rightarrow> string \<Rightarrow> QueueOptions \<Rightarrow> 'r DistributedPriorityQueue" where
  "NewDistributedPriorityQueue c i opts =
     \<lparr>cacheRepo = c, instanceID = i, options = opts, closed = False\<rparr>"

definition ads_queue :: string where "ads_queue = ''ads:queue''"
definition queue_count :: string where "queue_count = ''queue:count''"

section \<open>Enqueue\<close>

definition capacity_error :: "'r DistributedPriorityQueue \<Rightarrow> 'r world \<Rightarrow> unit result" where
  "capacity_error q w =
     (if 0 < MaxCapacity (options q)
      then case CountByStatus StatusQueued (repo w) of
             Ok n \<Rightarrow> if MaxCapacity (options q) \<le> n then Err ErrQueueFull else Ok ()
           | Err e \<Rightarrow> Err e
           | Panic \<Rightarrow> Panic
      else Ok ())"

definition Enqueue ::
  "'r DistributedPriorityQueue \<Rightarrow> instant \<Rightarrow> Ad \<Rightarrow> 'r world \<Rightarrow> unit result \<times> Ad \<times> 'r world" where
  "Enqueue q now ad w =
     (if closed q then (Err ErrQueueClosed, ad, w)
      else case capacity_error q w of
        Err e \<Rightarrow> (Err e, ad, w)
      | Panic \<Rightarrow> (Panic, ad, w)
      | Ok _ \<Rightarrow>
          (case update_ad (SetStatus now StatusQueued ad) (repo w) of
             (Err e, ad, m) \<Rightarrow> (Err e, ad, w\<lparr>repo := m\<rparr>)
           | (Panic, ad, m) \<Rightarrow> (Panic, ad, w\<lparr>repo := m\<rparr>)
           | (Ok _, ad, m) \<Rightarrow>
               let w = w\<lparr>repo := m\<rparr>;
                   w = snd (cache_PushToQueue (cacheRepo q) ads_queue (AdID ad) (EffectivePriority ad) w);
                   w = snd (cache_IncrementCounter (cacheRepo q) queue_count w)
               in (Ok (), ad, w)))"

section \<open>Dequeue\<close>

text \<open>
  What one round of \<^verbatim>\<open>Dequeue\<close> reads from its environment: the clock and the iteration orders of the
  two scans of the map.
\<close>

record round_env =
  e_now :: instant
  e_pop :: "nat list"
  e_find :: "nat list"

text \<open>
  The last part of both paths: fetch the claimed ad again, record the worker and the attempt, and
  update it.
\<close>

definition assign_claimed :: "'r DistributedPriorityQueue \<Rightarrow> string \<Rightarrow> MemoryRepository \<Rightarrow> Ad result \<times> MemoryRepository"
  where
  "assign_claimed q adID m =
     (case Get adID m of
        Err e \<Rightarrow> (Err e, m)
      | Panic \<Rightarrow> (Panic, m)
      | Ok updatedAd \<Rightarrow>
          (case update_ad (IncrementAttempts (AssignWorker (instanceID q) updatedAd)) m of
             (Ok _, updatedAd, m) \<Rightarrow> (Ok updatedAd, m)
           | (Err e, _, m) \<Rightarrow> (Err e, m)
           | (Panic, _, m) \<Rightarrow> (Panic, m)))"

text \<open>
  The fast path handles one identifier popped from the cache queue.  It returns, or it tries again;
  when it holds the lock at that point, the deferred release runs after the further attempts.
\<close>

datatype attempt = Return "Ad result" | Retry | RetryThenRelease string

definition dequeue_fast ::
  "'r DistributedPriorityQueue \<Rightarrow> round_env \<Rightarrow> string \<Rightarrow> 'r world \<Rightarrow> attempt \<times> 'r world" where
  "dequeue_fast q e adID w =
     (case Get adID (repo w) of
        Err err \<Rightarrow> if errors_is err ErrAdNotFound then (Retry, w) else (Return (Err err), w)
      | Panic \<Rightarrow> (Return Panic, w)
      | Ok ad \<Rightarrow>
          if \<not> IsProcessable ad then (Retry, w)
          else
            let release = (\<lambda>m. snd (ReleaseLock (AdID ad) (instanceID q) m)) in
            case AcquireLock (e_now e) (AdID ad) (instanceID q) (LockTTL (options q)) (repo w) of
              (Err err, m) \<Rightarrow> (Return (Err err), w\<lparr>repo := m\<rparr>)
            | (Panic, m) \<Rightarrow> (Return Panic, w\<lparr>repo := m\<rparr>)
            | (Ok False, m) \<Rightarrow> (Retry, w\<lparr>repo := m\<rparr>)
            | (Ok True, m) \<Rightarrow>
                (case AtomicStatusUpdate (e_now e) (AdID ad) (Version ad) StatusQueued StatusProcessing m of
                   (Err err, m) \<Rightarrow>
                     if errors_is err ErrConcurrentModification
                     then (RetryThenRelease (AdID ad), w\<lparr>repo := m\<rparr>)
                     else (Return (Err err), w\<lparr>repo := release m\<rparr>)
                 | (Panic, m) \<Rightarrow> (Return Panic, w\<lparr>repo := release m\<rparr>)
                 | (Ok _, m) \<Rightarrow>
                     (case assign_claimed q (AdID ad) m of
                        (Ok updatedAd, m) \<Rightarrow>
                          let w = snd (cache_GetGauge (cacheRepo q) queue_count (w\<lparr>repo := m\<rparr>))
                          in (Return (Ok updatedAd), w\<lparr>repo := release (repo w)\<rparr>)
                      | (r, m) \<Rightarrow> (Return r, w\<lparr>repo := release m\<rparr>))))"

text \<open>The slower path asks the repository; on success it keeps the lock.\<close>

definition dequeue_slow ::
  "'r DistributedPriorityQueue \<Rightarrow> round_env \<Rightarrow> 'r world \<Rightarrow> Ad result \<times> 'r world" where
  "dequeue_slow q e w =
     (case FindByPriority (e_find e) StatusQueued 1 (repo w) of
        Err err \<Rightarrow> (Err err, w)
      | Panic \<Rightarrow> (Panic, w)
      | Ok [] \<Rightarrow> (Err ErrQueueEmpty, w)
      | Ok (ad # _) \<Rightarrow>
          let release = (\<lambda>m. snd (ReleaseLock (AdID ad) (instanceID q) m)) in
          case AcquireLock (e_now e) (AdID ad) (instanceID q) (LockTTL (options q)) (repo w) of
            (Err err, m) \<Rightarrow> (Err err, w\<lparr>repo := m\<rparr>)
          | (Panic, m) \<Rightarrow> (Panic, w\<lparr>repo := m\<rparr>)
          | (Ok False, m) \<Rightarrow> (Err ErrItemLocked, w\<lparr>repo := m\<rparr>)
          | (Ok True, m) \<Rightarrow>
              (case AtomicStatusUpdate (e_now e) (AdID ad) (Version ad) StatusQueued StatusProcessing m of
                 (Err err, m) \<Rightarrow>
                   (if errors_is err ErrConcurrentModification then Err ErrItemLocked else Err err,
                    w\<lparr>repo := release m\<rparr>)
               | (Panic, m) \<Rightarrow> (Panic, w\<lparr>repo := m\<rparr>)
               | (Ok _, m) \<Rightarrow>
                   (case assign_claimed q (AdID ad) m of
                      (Ok updatedAd, m) \<Rightarrow>
                        (Ok updatedAd, snd (cache_GetGauge (cacheRepo q) queue_count (w\<lparr>repo := m\<rparr>)))
                    | (r, m) \<Rightarrow> (r, w\<lparr>repo := release m\<rparr>))))"

text \<open>
  \<^verbatim>\<open>Dequeue\<close> calls itself for every retry, with no bound in the code: the model spends one unit of
  fuel per round, and \<open>None\<close> is a call that has not returned within the fuel.  Round \<open>n\<close> reads
  \<open>env n\<close>.
\<close>

fun Dequeue ::
  "nat \<Rightarrow> 'r DistributedPriorityQueue \<Rightarrow> (nat \<Rightarrow> round_env) \<Rightarrow> 'r world \<Rightarrow> (Ad result \<times> 'r world) option" where
  "Dequeue 0 q env w = None"
| "Dequeue (Suc fuel) q env w =
     (if closed q then Some (Err ErrQueueClosed, w)
      else case cache_PopFromQueue (cacheRepo q) (e_pop (env 0)) ads_queue w of
        (Ok adID, w) \<Rightarrow>
          if adID = '''' then Some (dequeue_slow q (env 0) w)
          else (case dequeue_fast q (env 0) adID w of
              (Return r, w) \<Rightarrow> Some (r, w)
            | (Retry, w) \<Rightarrow> Dequeue fuel q (env \<circ> Suc) w
            | (RetryThenRelease i, w) \<Rightarrow>
                map_option (\<lambda>(r, w). (r, w\<lparr>repo := snd (ReleaseLock i (instanceID q) (repo w))\<rparr>))
                  (Dequeue fuel q (env \<circ> Suc) w))
      | (_, w) \<Rightarrow> Some (dequeue_slow q (env 0) w))"

section \<open>Complete\<close>

definition Complete ::
  "'r DistributedPriorityQueue \<Rightarrow> instant \<Rightarrow> instant \<Rightarrow> Ad \<Rightarrow> AdAnalysis \<Rightarrow> 'r world \<Rightarrow> unit result \<times> 'r world" where
  "Complete q now now' ad analysis w =
     (let release = (\<lambda>m. snd (ReleaseLock (AdID ad) (instanceID q) m)) in
      case AcquireLock now (AdID ad) (instanceID q) (LockTTL (options q)) (repo w) of
        (Err e, m) \<Rightarrow> (Err e, w\<lparr>repo := m\<rparr>)
      | (Panic, m) \<Rightarrow> (Panic, w\<lparr>repo := m\<rparr>)
      | (Ok False, m) \<Rightarrow> (Err ErrItemLocked, w\<lparr>repo := m\<rparr>)
      | (Ok True, m) \<Rightarrow>
          (case AtomicStatusUpdate now' (AdID ad) (Version ad) StatusProcessing StatusCompleted m of
             (Err e, m) \<Rightarrow> (Err e, w\<lparr>repo := release m\<rparr>)
           | (Panic, m) \<Rightarrow> (Panic, w\<lparr>repo := release m\<rparr>)
           | (Ok _, m) \<Rightarrow>
               (case Get (AdID ad) m of
                  Err e \<Rightarrow> (Err e, w\<lparr>repo := release m\<rparr>)
                | Panic \<Rightarrow> (Panic, w\<lparr>repo := release m\<rparr>)
                | Ok updatedAd \<Rightarrow>
                    (case update_ad (SetAnalysisResults analysis updatedAd) m of
                       (r, _, m) \<Rightarrow> (r, w\<lparr>repo := release m\<rparr>)))))"

section \<open>Maintenance\<close>

text \<open>
  The three scans look at the first 100 ads of a listing by status, newest first, and continue with
  the next ad after any error.
\<close>

definition requeue_one ::
  "'r DistributedPriorityQueue \<Rightarrow> instant \<Rightarrow> Ad \<Rightarrow> int \<times> 'r world \<Rightarrow> int \<times> 'r world" where
  "requeue_one q now ad cw =
     (case cw of (cnt, w) \<Rightarrow>
        if (case ProcessingStartedAt ad of None \<Rightarrow> False
            | Some t \<Rightarrow> t < now - ProcessingTimeout (options q))
        then
          if MaxAttempts (options q) \<le> Attempts ad
          then (cnt, w\<lparr>repo := snd (snd
                 (update_ad (SetError now ''Exceeded maximum processing attempts'' ad) (repo w)))\<rparr>)
          else
            (case AtomicStatusUpdate now (AdID ad) (Version ad) StatusProcessing StatusQueued (repo w) of
               (Ok _, m) \<Rightarrow>
                 (case Get (AdID ad) m of
                    Ok updatedAd \<Rightarrow>
                      (case cache_PushToQueue (cacheRepo q) ads_queue (AdID updatedAd) (Priority updatedAd)
                              (w\<lparr>repo := m\<rparr>) of
                         (Ok _, w) \<Rightarrow> (cnt + 1, w)
                       | (_, w) \<Rightarrow> (cnt, w))
                  | _ \<Rightarrow> (cnt, w\<lparr>repo := m\<rparr>))
             | (_, m) \<Rightarrow> (cnt, w\<lparr>repo := m\<rparr>))
        else (cnt, w))"

definition RequeueExpired ::
  "'r DistributedPriorityQueue \<Rightarrow> instant \<Rightarrow> nat list \<Rightarrow> 'r world \<Rightarrow> int result \<times> 'r world" where
  "RequeueExpired q now ord w =
     (if closed q then (Err ErrQueueClosed, w)
      else case FindByStatus ord StatusProcessing 100 0 (repo w) of
        Err e \<Rightarrow> (Err e, w)
      | Panic \<Rightarrow> (Panic, w)
      | Ok xs \<Rightarrow> (case fold (requeue_one q now) xs (0, w) of (cnt, w) \<Rightarrow> (Ok cnt, w)))"

text \<open>The shared tail of aging and boosting: write a priority unless the ad has changed meanwhile.\<close>

definition write_priority ::
  "'r DistributedPriorityQueue \<Rightarrow> Ad \<Rightarrow> int \<Rightarrow> int \<times> 'r world \<Rightarrow> int \<times> 'r world" where
  "write_priority q ad p cw =
     (case cw of (cnt, w) \<Rightarrow>
        case Get (AdID ad) (repo w) of
          Ok latestAd \<Rightarrow>
            if Version latestAd = Version ad
            then (case update_ad (latestAd\<lparr>EffectivePriority := p\<rparr>) (repo w) of
                (Ok _, latestAd, m) \<Rightarrow>
                  (case cache_PushToQueue (cacheRepo q) ads_queue (AdID latestAd)
                          (EffectivePriority latestAd) (w\<lparr>repo := m\<rparr>) of
                     (Ok _, w) \<Rightarrow> (cnt + 1, w)
                   | (_, w) \<Rightarrow> (cnt, w))
              | (_, _, m) \<Rightarrow> (cnt, w\<lparr>repo := m\<rparr>))
            else (cnt, w)
        | _ \<Rightarrow> (cnt, w))"

definition age_one ::
  "'r DistributedPriorityQueue \<Rightarrow> instant \<times> Ad \<Rightarrow> int \<times> 'r world \<Rightarrow> int \<times> 'r world" where
  "age_one q ta cw =
     (case ta of (now, ad) \<Rightarrow>
        if QueuedAt ad = None then cw
        else
          let newPriority = fst (CalculateEffectivePriority (AgingRate (options q)) (MaxWaitTime (options q)) now ad)
          in if newPriority \<noteq> EffectivePriority ad then write_priority q ad newPriority cw else cw)"

text \<open>The clock is read once for each ad of the scan.\<close>

definition updateQueuePriorities ::
  "'r DistributedPriorityQueue \<Rightarrow> (nat \<Rightarrow> instant) \<Rightarrow> nat list \<Rightarrow> 'r world \<Rightarrow> int result \<times> 'r world" where
  "updateQueuePriorities q now ord w =
     (case FindByStatus ord StatusQueued 100 0 (repo w) of
        Err e \<Rightarrow> (Err e, w)
      | Panic \<Rightarrow> (Panic, w)
      | Ok xs \<Rightarrow>
          (case fold (age_one q) (zip (map now [0..<length xs]) xs) (0, w) of (cnt, w) \<Rightarrow> (Ok cnt, w)))"

definition boost_one ::
  "'r DistributedPriorityQueue \<Rightarrow> instant \<times> Ad \<Rightarrow> int \<times> 'r world \<Rightarrow> int \<times> 'r world" where
  "boost_one q ta cw =
     (case ta of (now, ad) \<Rightarrow>
        if QueuedAt ad = None then cw
        else if HasExceededMaxWaitTime now (MaxWaitTime (options q)) ad then write_priority q ad 1 cw
        else cw)"

definition BoostLowPriorityItems ::
  "'r DistributedPriorityQueue \<Rightarrow> (nat \<Rightarrow> instant) \<Rightarrow> nat list \<Rightarrow> 'r world \<Rightarrow> int result \<times> 'r world" where
  "BoostLowPriorityItems q now ord w =
     (if closed q then (Err ErrQueueClosed, w)
      else case FindByStatus ord StatusQueued 100 0 (repo w) of
        Err e \<Rightarrow> (Err e, w)
      | Panic \<Rightarrow> (Panic, w)
      | Ok xs \<Rightarrow>
          (case fold (boost_one q) (zip (map now [0..<length xs]) xs) (0, w) of (cnt, w) \<Rightarrow> (Ok cnt, w)))"

section \<open>Size, closing, and the maintenance loop\<close>

definition Size :: "'r world \<Rightarrow> int result" where
  "Size w = CountByStatus StatusQueued (repo w)"

definition Close :: "'r DistributedPriorityQueue \<Rightarrow> unit result \<times> 'r DistributedPriorityQueue" where
  "Close q = (if closed q then (Ok (), q) else (Ok (), q\<lparr>closed := True\<rparr>))"

text \<open>
  The loop waits for one of five events.  An event of a ticker carries what its scan reads; the
  first two end the loop.
\<close>

datatype maintenance_event =
    CtxDone
  | ShutdownSignal
  | RequeueTick instant "nat list"
  | AgingTick "nat \<Rightarrow> instant" "nat list"
  | BoostTick "nat \<Rightarrow> instant" "nat list"

fun StartMaintenanceLoop ::
  "'r DistributedPriorityQueue \<Rightarrow> maintenance_event list \<Rightarrow> 'r world \<Rightarrow> 'r world" where
  "StartMaintenanceLoop q [] w = w"
| "StartMaintenanceLoop q (CtxDone # evs) w = w"
| "StartMaintenanceLoop q (ShutdownSignal # evs) w = w"
| "StartMaintenanceLoop q (RequeueTick now ord # evs) w =
     StartMaintenanceLoop q evs (snd (RequeueExpired q now ord w))"
| "StartMaintenanceLoop q (AgingTick now ord # evs) w =
     StartMaintenanceLoop q evs
       (if EnableAging (options q) then snd (updateQueuePriorities q now ord w) else w)"
| "StartMaintenanceLoop q (BoostTick now ord # evs) w =
     StartMaintenanceLoop q evs (snd (BoostLowPriorityItems q now ord w))"

end
