(* ===== verification/Queue_Lemmas.thy ===== *)
theory Queue_Lemmas
  imports Priority_Queue
begin

text \<open>
  The functional behaviour of the queue's operations on every branch, in terms of what is stored
  under each identifier, and the properties of single operations.
\<close>

section \<open>Cache calls seen from the repository\<close>

lemma on_repo_simps [simp]:
  "fst (on_repo f w) = fst (f (repo w))" "repo (snd (on_repo f w)) = snd (f (repo w))"
  "rds (snd (on_repo f w)) = rds w"
  by (simp_all add: on_repo_def split: prod.splits)

lemma on_redis_simps [simp]:
  "fst (on_redis f w) = fst (f (rds w))" "repo (snd (on_redis f w)) = repo w"
  "rds (snd (on_redis f w)) = snd (f (rds w))"
  by (simp_all add: on_redis_def split: prod.splits)

lemma cache_IncrementCounter_repo [simp]: "repo (snd (cache_IncrementCounter c k w)) = repo w"
  by (cases c) (simp_all add: mem_IncrementCounter_def)

lemma cache_GetGauge_repo [simp]: "repo (snd (cache_GetGauge c k w)) = repo w"
  by (cases c) (simp_all add: mem_GetGauge_def)

text \<open>Pushing to the memory queue records the priority in the stored ad; Redis keeps it apart.\<close>

definition pushed :: "'r cache \<Rightarrow> int \<Rightarrow> Ad \<Rightarrow> Ad" where
  "pushed c p a = (case c of MemoryCache \<Rightarrow> a\<lparr>EffectivePriority := p\<rparr> | RedisCache rr \<Rightarrow> a)"

lemma pushed_simps [simp]:
  "AdID (pushed c p a) = AdID a" "Version (pushed c p a) = Version a" "Status (pushed c p a) = Status a"
  "Attempts (pushed c p a) = Attempts a" "ProcessingStartedAt (pushed c p a) = ProcessingStartedAt a"
  "QueuedAt (pushed c p a) = QueuedAt a" "Priority (pushed c p a) = Priority a"
  "CreatedAt (pushed c p a) = CreatedAt a" "Analysis (pushed c p a) = Analysis a"
  "WorkerID (pushed c p a) = WorkerID a" "CompletedAt (pushed c p a) = CompletedAt a"
  by (cases c; simp add: pushed_def)+

lemma pushed_same: "EffectivePriority a = p \<Longrightarrow> pushed c p a = a"
  by (cases c) (simp_all add: pushed_def)

lemma push_lookup:
  "lookup_ad (repo (snd (cache_PushToQueue c q i p w))) k =
     (if k = i \<and> i \<noteq> '''' then map_option (pushed c p) (lookup_ad (repo w) i) else lookup_ad (repo w) k)"
  by (cases c; cases "lookup_ad (repo w) i") (auto simp: mem_PushToQueue_def pushed_def)

lemma push_locks [simp]: "locks (repo (snd (cache_PushToQueue c q i p w))) = locks (repo w)"
  by (cases c) (auto simp: mem_PushToQueue_def split: option.splits)

lemma push_wf: "store_wf (repo w) \<Longrightarrow> store_wf (repo (snd (cache_PushToQueue c q i p w)))"
  by (cases c) (auto simp: mem_PushToQueue_def split: option.splits)

lemma push_keys: "map fst (ads (repo (snd (cache_PushToQueue c q i p w)))) = map fst (ads (repo w))"
  by (cases c) (auto simp: mem_PushToQueue_def split: option.splits)

section \<open>Counting by status\<close>

definition status_count :: "AdStatus \<Rightarrow> MemoryRepository \<Rightarrow> int" where
  "status_count s m = int (length (filter (\<lambda>(k, a). Status a = s) (ads m)))"

lemma CountByStatus_eq: "CountByStatus s m = Ok (status_count s m)"
  by (simp add: CountByStatus_def status_count_def)

lemma length_filter_update:
  "length (filter P (AList.update k v xs)) \<le> Suc (length (filter P xs))"
  by (induction xs) auto

lemma status_count_put: "status_count s (put_ad k a m) \<le> status_count s m + 1"
  using length_filter_update[of "\<lambda>(k, a). Status a = s" k a "ads m"] by (simp add: status_count_def)

lemma length_filter_map_entry:
  assumes "\<And>a. P (k, f a) = P (k, a)"
  shows "length (filter P (AList.map_entry k f xs)) = length (filter P xs)"
proof (induction xs)
  case (Cons x xs)
  then show ?case using assms[of "snd x"] by (cases x) simp
qed simp

lemma status_count_push [simp]:
  "status_count s (repo (snd (cache_PushToQueue c q i p w))) = status_count s (repo w)"
proof -
  have "length (filter (\<lambda>(k, a). Status a = s) (AList.map_entry i (\<lambda>a. a\<lparr>EffectivePriority := p\<rparr>) (ads (repo w))))
      = length (filter (\<lambda>(k, a). Status a = s) (ads (repo w)))"
    by (rule length_filter_map_entry) simp
  then show ?thesis
    by (cases c; cases "lookup_ad (repo w) i") (simp_all add: mem_PushToQueue_def status_count_def)
qed

section \<open>Enqueue\<close>

lemma capacity_error_eq:
  "capacity_error q w =
     (if 0 < MaxCapacity (options q) \<and> MaxCapacity (options q) \<le> status_count StatusQueued (repo w)
      then Err ErrQueueFull else Ok ())"
  by (simp add: capacity_error_def CountByStatus_eq)

text \<open>The ad a successful \<^verbatim>\<open>Enqueue\<close> stores and hands back.\<close>

definition enqueued :: "instant \<Rightarrow> Ad \<Rightarrow> Ad" where
  "enqueued now a = bump_version (SetStatus now StatusQueued a)"

lemma enqueued_simps [simp]:
  "AdID (enqueued now a) = AdID a" "Version (enqueued now a) = i64 (Version a + 1)"
  "Status (enqueued now a) = StatusQueued" "QueuedAt (enqueued now a) = Some now"
  "EffectivePriority (enqueued now a) = Priority a" "Priority (enqueued now a) = Priority a"
  "Attempts (enqueued now a) = Attempts a" "ProcessingStartedAt (enqueued now a) = ProcessingStartedAt a"
  "CreatedAt (enqueued now a) = CreatedAt a" "Analysis (enqueued now a) = Analysis a"
  by (simp_all add: enqueued_def)

definition enqueue_result :: "'r DistributedPriorityQueue \<Rightarrow> Ad \<Rightarrow> MemoryRepository \<Rightarrow> unit result" where
  "enqueue_result q ad m =
     (if closed q then Err ErrQueueClosed
      else if 0 < MaxCapacity (options q) \<and> MaxCapacity (options q) \<le> status_count StatusQueued m
      then Err ErrQueueFull
      else case lookup_ad m (AdID ad) of
        None \<Rightarrow> Err (err_not_found (AdID ad))
      | Some old \<Rightarrow> if Version old = Version ad then Ok () else Err (err_modified (AdID ad)))"

lemma Enqueue_cases:
  assumes "AdID ad \<noteq> ''''"
  shows "fst (Enqueue q now ad w) = enqueue_result q ad (repo w)"
    and "enqueue_result q ad (repo w) = Ok () \<Longrightarrow> fst (snd (Enqueue q now ad w)) = enqueued now ad"
    and "enqueue_result q ad (repo w) = Ok () \<Longrightarrow> lookup_ad (repo (snd (snd (Enqueue q now ad w)))) =
      (lookup_ad (repo w))(AdID ad \<mapsto> enqueued now ad)"
    and "enqueue_result q ad (repo w) = Ok () \<Longrightarrow> locks (repo (snd (snd (Enqueue q now ad w)))) = locks (repo w)"
    and "enqueue_result q ad (repo w) \<noteq> Ok () \<Longrightarrow> snd (snd (Enqueue q now ad w)) = w"
  using assms
  by (auto simp: Enqueue_def enqueue_result_def capacity_error_eq store_eval Let_def push_lookup fun_eq_iff
      pushed_same enqueued_def split: option.splits if_splits)

text \<open>C13. Enqueuing, on every branch.  A closed queue, a full queue, an ad without an identifier, an unknown
  ad and an ad whose version is not the stored one are refused with their own error, in this order,
  and no refusal changes the repository or Redis.  The first two leave the caller's ad alone; the
  others are found only after the status was set, so the caller's ad says queued, with a new queue
  time and effective priority, although nothing was stored.  Otherwise the ad is stored as queued: its
  queue time is the clock's, its effective priority is the submitted one, its version is the next;
  the caller's ad is the stored one and no other ad and no lock changes.  This holds for both caches,
  even when the push to Redis fails.\<close>

theorem enqueue_behaviour:
  "case Enqueue q now ad w of (res, ad', w') \<Rightarrow>
     res = (if closed q then Err ErrQueueClosed
        else if 0 < MaxCapacity (options q) \<and> MaxCapacity (options q) \<le> status_count StatusQueued (repo w)
        then Err ErrQueueFull
        else if AdID ad = '''' then Err err_id_required
        else case lookup_ad (repo w) (AdID ad) of
          None \<Rightarrow> Err (err_not_found (AdID ad))
        | Some old \<Rightarrow> if Version old = Version ad then Ok () else Err (err_modified (AdID ad)))
   \<and> ad' = (if res = Err ErrQueueClosed \<or> res = Err ErrQueueFull then ad
        else ad\<lparr>Status := StatusQueued, QueuedAt := Some now, EffectivePriority := Priority ad,
                Version := if res = Ok () then i64 (Version ad + 1) else Version ad\<rparr>)
   \<and> (if res = Ok ()
      then lookup_ad (repo w') = (lookup_ad (repo w))(AdID ad \<mapsto> ad') \<and> locks (repo w') = locks (repo w)
      else w' = w)"
proof (cases "AdID ad = ''''")
  case True
  then show ?thesis
    by (auto simp: Enqueue_def capacity_error_eq update_ad_def SetStatus_def Let_def err_id_required_def)
next
  case False
  have e: "enqueued now ad = ad\<lparr>Status := StatusQueued, QueuedAt := Some now,
      EffectivePriority := Priority ad, Version := i64 (Version ad + 1)\<rparr>"
    by (simp add: enqueued_def SetStatus_def Let_def bump_version_def)
  obtain res ad' w' where E: "Enqueue q now ad w = (res, ad', w')" by (cases "Enqueue q now ad w")
  note C = Enqueue_cases[OF False, where q = q and now = now and w = w, unfolded E fst_conv snd_conv]
  show ?thesis
  proof (cases "enqueue_result q ad (repo w) = Ok ()")
    case True
    with C show ?thesis
      using False by (simp add: E e) (simp add: enqueue_result_def split: if_splits)
  next
    case no: False
    have "ad' = (if res = Err ErrQueueClosed \<or> res = Err ErrQueueFull then ad
        else ad\<lparr>Status := StatusQueued, QueuedAt := Some now, EffectivePriority := Priority ad, Version := Version ad\<rparr>)"
      using E no False
      by (auto simp: Enqueue_def enqueue_result_def capacity_error_eq store_eval Let_def SetStatus_def
          err_not_found_def err_modified_def split: option.splits if_splits)
    with C no False show ?thesis by (simp add: E enqueue_result_def)
  qed
qed

theorem enqueue_behaviour_witness:
  "fst (Enqueue (NewDistributedPriorityQueue MemoryCache ''api-1'' DefaultQueueOptions) 50
      (sample_ad ''c'' 2 30 StatusCompleted) \<lparr>repo = sample_store, rds = ()\<rparr>) = Ok ()"
  using enqueue_behaviour[where q = "NewDistributedPriorityQueue MemoryCache ''api-1'' DefaultQueueOptions" and now = 50
      and ad = "sample_ad ''c'' 2 30 StatusCompleted" and w = "\<lparr>repo = sample_store, rds = ()\<rparr>"]
  by (simp add: NewDistributedPriorityQueue_def DefaultQueueOptions_def status_count_def sample_store_def
    split: prod.splits)

text \<open>The capacity bound.  When a capacity is set, a successful \<^verbatim>\<open>Enqueue\<close> leaves at most that many
  ads queued.\<close>

theorem enqueue_within_capacity:
  assumes "0 < MaxCapacity (options q)" and "fst (Enqueue q now ad w) = Ok ()" and "AdID ad \<noteq> ''''"
  shows "status_count StatusQueued (repo (snd (snd (Enqueue q now ad w)))) \<le> MaxCapacity (options q)"
proof -
  have ok: "enqueue_result q ad (repo w) = Ok ()" using assms(2) Enqueue_cases(1)[OF assms(3), of q now w] by simp
  then have lt: "status_count StatusQueued (repo w) < MaxCapacity (options q)" and c: "\<not> closed q"
    using assms(1) by (auto simp: enqueue_result_def split: if_splits)
  from ok obtain old where old: "lookup_ad (repo w) (AdID ad) = Some old" "Version old = Version ad"
    by (auto simp: enqueue_result_def split: if_splits option.splits)
  have "status_count StatusQueued (repo (snd (snd (Enqueue q now ad w)))) =
      status_count StatusQueued (put_ad (AdID ad) (enqueued now ad) (repo w))"
    using lt c old assms(3) by (simp add: Enqueue_def capacity_error_eq store_eval Let_def enqueued_def)
  also have "\<dots> \<le> status_count StatusQueued (repo w) + 1" by (rule status_count_put)
  finally show ?thesis using lt by simp
qed

end
