(* ===== verification/Queue_Dequeue.thy ===== *)
theory Queue_Dequeue
  imports Queue_Lemmas
begin

text \<open>
  Claiming and completing an ad: what \<^verbatim>\<open>Dequeue\<close> and \<^verbatim>\<open>Complete\<close> of
  \<^verbatim>\<open>internal/processor/queue.go\<close> do on every branch, when \<^verbatim>\<open>Dequeue\<close> returns, and when it does not.
\<close>

declare Dequeue.simps(2) [simp del]

lemmas Dequeue_step = Dequeue.simps(2)

section \<open>One claim\<close>

text \<open>The ad a successful \<^verbatim>\<open>Dequeue\<close> stores and returns.\<close>

definition dequeued :: "string \<Rightarrow> instant \<Rightarrow> Ad \<Rightarrow> Ad" where
  "dequeued inst now a =
     bump_version (IncrementAttempts (AssignWorker inst (set_status_bump now StatusProcessing a)))"

lemma assign_simps [simp]:
  "AdID (IncrementAttempts (AssignWorker i a)) = AdID a"
  "Version (IncrementAttempts (AssignWorker i a)) = Version a"
  "Status (IncrementAttempts (AssignWorker i a)) = Status a"
  "Attempts (IncrementAttempts (AssignWorker i a)) = i64 (Attempts a + 1)"
  "WorkerID (IncrementAttempts (AssignWorker i a)) = i"
  "ProcessingStartedAt (IncrementAttempts (AssignWorker i a)) = ProcessingStartedAt a"
  "EffectivePriority (IncrementAttempts (AssignWorker i a)) = EffectivePriority a"
  "CreatedAt (IncrementAttempts (AssignWorker i a)) = CreatedAt a"
  "CompletedAt (IncrementAttempts (AssignWorker i a)) = CompletedAt a"
  "QueuedAt (IncrementAttempts (AssignWorker i a)) = QueuedAt a"
  "Priority (IncrementAttempts (AssignWorker i a)) = Priority a"
  "Analysis (IncrementAttempts (AssignWorker i a)) = Analysis a"
  by (simp_all add: IncrementAttempts_def AssignWorker_def)

lemma dequeued_simps [simp]:
  "AdID (dequeued i t a) = AdID a" "Status (dequeued i t a) = StatusProcessing"
  "WorkerID (dequeued i t a) = i" "Attempts (dequeued i t a) = i64 (Attempts a + 1)"
  "Version (dequeued i t a) = i64 (i64 (Version a + 1) + 1)"
  "ProcessingStartedAt (dequeued i t a) = ProcessingStartedAt a"
  "EffectivePriority (dequeued i t a) = EffectivePriority a" "CreatedAt (dequeued i t a) = CreatedAt a"
  "Priority (dequeued i t a) = Priority a" "QueuedAt (dequeued i t a) = QueuedAt a"
  "CompletedAt (dequeued i t a) = CompletedAt a" "Analysis (dequeued i t a) = Analysis a"
  by (simp_all add: dequeued_def)

lemma assign_claimed_ok:
  assumes "lookup_ad m i = Some b" and "AdID b = i" and "i \<noteq> ''''"
  shows "assign_claimed q i m =
    (Ok (bump_version (IncrementAttempts (AssignWorker (instanceID q) b))),
     put_ad i (bump_version (IncrementAttempts (AssignWorker (instanceID q) b))) m)"
  using assms by (simp add: assign_claimed_def store_eval)

lemma take_lock_change:
  "lookup_ad (take_lock t i w ttl m) k = lookup_ad m k" by simp

text \<open>The fast path on an ad that is queued and whose lock is free.\<close>

lemma dequeue_fast_ok:
  assumes "lookup_ad (repo w) i = Some a" and "AdID a = i" and "i \<noteq> ''''" and "Status a = StatusQueued"
    and "lock_free (e_now e) i (instanceID q) (repo w)"
  shows "\<exists>w'. dequeue_fast q e i w = (Return (Ok (dequeued (instanceID q) (e_now e) a)), w')
    \<and> lookup_ad (repo w') = (lookup_ad (repo w))(i \<mapsto> dequeued (instanceID q) (e_now e) a)
    \<and> locks (repo w') = (locks (repo w))(i := None)"
  using assms
  by (auto simp: dequeue_fast_def store_eval assign_claimed_ok IsProcessable_def Let_def fun_eq_iff
      ReleaseLock_locks dequeued_def)

lemma dequeue_fast_locked:
  assumes "lookup_ad (repo w) i = Some a" and "AdID a = i" and "i \<noteq> ''''"
    and "\<not> lock_free (e_now e) i (instanceID q) (repo w)"
  shows "dequeue_fast q e i w = (Retry, w)"
  using assms by (auto simp: dequeue_fast_def store_eval Let_def)

lemma dequeue_fast_missing:
  assumes "lookup_ad (repo w) i = None" and "i \<noteq> ''''"
  shows "dequeue_fast q e i w = (Retry, w)"
  using assms by (simp add: dequeue_fast_def store_eval err_not_found_def)

lemma dequeue_slow_empty:
  assumes "\<And>k b. lookup_ad (repo w) k = Some b \<Longrightarrow> Status b \<noteq> StatusQueued" and "store_wf (repo w)"
  shows "dequeue_slow q e w = (Err ErrQueueEmpty, w)"
proof -
  have "set (ads_with_status (e_find e) StatusQueued (repo w)) = {}"
    using assms(1) store_wf_stored[OF assms(2)] by (auto simp: set_ads_with_status)
  then show ?thesis by (simp add: dequeue_slow_def FindByPriority_def go_slice_def)
qed

section \<open>Dequeue from the memory queue\<close>

text \<open>The ads the memory queue may hand out next: queued, of least effective priority, then oldest.\<close>

definition next_queued :: "MemoryRepository \<Rightarrow> Ad \<Rightarrow> bool" where
  "next_queued m a \<longleftrightarrow> lookup_ad m (AdID a) = Some a \<and> Status a = StatusQueued
     \<and> (\<forall>k b. lookup_ad m k = Some b \<and> Status b = StatusQueued \<longrightarrow>
          EffectivePriority a < EffectivePriority b
          \<or> EffectivePriority a = EffectivePriority b \<and> CreatedAt a \<le> CreatedAt b)"

lemma memory_pop:
  assumes "store_wf (repo w)" and "lookup_ad (repo w) k = Some b" and "Status b = StatusQueued"
  shows "\<exists>a. cache_PopFromQueue MemoryCache ord qn w = (Ok (AdID a), w) \<and> next_queued (repo w) a \<and> AdID a \<noteq> ''''"
proof -
  from mem_PopFromQueue_some[OF assms, of ord qn] obtain a where
    "mem_PopFromQueue ord qn (repo w) = (Ok (AdID a), repo w)" "next_queued (repo w) a"
    unfolding next_queued_def by blast
  moreover from this have "AdID a \<noteq> ''''" using store_wf_lookup[OF assms(1)] unfolding next_queued_def by blast
  ultimately show ?thesis by (intro exI[of _ a]) (simp add: on_repo_def)
qed

lemma memory_pop_empty:
  assumes "store_wf (repo w)" and "\<And>k b. lookup_ad (repo w) k = Some b \<Longrightarrow> Status b \<noteq> StatusQueued"
  shows "cache_PopFromQueue MemoryCache ord qn w = (Err ErrAdNotFound, w)"
  using mem_PopFromQueue_empty[OF assms(2) assms(1), where ord = ord and q = qn] by (simp add: on_repo_def)

text \<open>C14. Dequeuing with the memory cache.  When no lock is held by another owner, one round is enough,
  on every branch: a closed queue is refused; with no queued ad the answer is \<^verbatim>\<open>ErrQueueEmpty\<close>;
  otherwise the call returns a queued ad that no queued ad precedes in effective priority and, at
  equal priority, in creation time, stored and returned as processing, assigned to this instance,
  with one more attempt and its version advanced twice.  No other ad changes, and the ad's lock is
  released.\<close>

theorem dequeue_memory:
  assumes "cacheRepo q = MemoryCache" and "store_wf (repo w)"
    and "\<And>i. lock_free (e_now (env 0)) i (instanceID q) (repo w)"
  shows "\<exists>res w'. Dequeue (Suc fuel) q env w = Some (res, w') \<and>
     (if closed q then res = Err ErrQueueClosed \<and> w' = w
      else if \<forall>k b. lookup_ad (repo w) k = Some b \<longrightarrow> Status b \<noteq> StatusQueued
      then res = Err ErrQueueEmpty \<and> w' = w
      else \<exists>a a'. next_queued (repo w) a \<and> res = Ok a'
        \<and> a' = a\<lparr>Status := StatusProcessing, WorkerID := instanceID q, Attempts := i64 (Attempts a + 1),
                  Version := i64 (i64 (Version a + 1) + 1)\<rparr>
        \<and> lookup_ad (repo w') = (lookup_ad (repo w))(AdID a \<mapsto> a')
        \<and> locks (repo w') = (locks (repo w))(AdID a := None))"
proof -
  have d: "dequeued i t a = a\<lparr>Status := StatusProcessing, WorkerID := i, Attempts := i64 (Attempts a + 1),
      Version := i64 (i64 (Version a + 1) + 1)\<rparr>" for i t a
    by (simp add: dequeued_def set_status_bump_def bump_version_def IncrementAttempts_def AssignWorker_def Let_def)
  consider "closed q" | "\<not> closed q" "\<forall>k b. lookup_ad (repo w) k = Some b \<longrightarrow> Status b \<noteq> StatusQueued"
    | k b where "\<not> closed q" "lookup_ad (repo w) k = Some b" "Status b = StatusQueued" by blast
  then show ?thesis
  proof cases
    case 2
    then have "Dequeue (Suc fuel) q env w = Some (Err ErrQueueEmpty, w)"
      using memory_pop_empty[OF assms(2)] dequeue_slow_empty[OF _ assms(2)]
      by (simp add: assms(1) Dequeue_step del: cache_PopFromQueue.simps)
    with 2 show ?thesis by simp
  next
    case 3
    from memory_pop[OF assms(2) 3(2,3), of "e_pop (env 0)" ads_queue] obtain a where
      a: "cache_PopFromQueue MemoryCache (e_pop (env 0)) ads_queue w = (Ok (AdID a), w)"
        "next_queued (repo w) a" "AdID a \<noteq> ''''" by blast
    then have "lookup_ad (repo w) (AdID a) = Some a" "Status a = StatusQueued" by (auto simp: next_queued_def)
    from dequeue_fast_ok[OF this(1) refl a(3) this(2) assms(3)] obtain w' where
      w': "dequeue_fast q (env 0) (AdID a) w = (Return (Ok (dequeued (instanceID q) (e_now (env 0)) a)), w')"
        "lookup_ad (repo w') = (lookup_ad (repo w))(AdID a \<mapsto> dequeued (instanceID q) (e_now (env 0)) a)"
        "locks (repo w') = (locks (repo w))(AdID a := None)" by blast
    have D: "Dequeue (Suc fuel) q env w = Some (Ok (dequeued (instanceID q) (e_now (env 0)) a), w')"
      using 3(1) a(1,3) w'(1) by (simp add: assms(1) Dequeue_step del: cache_PopFromQueue.simps)
    have ne: "\<not> (\<forall>k b. lookup_ad (repo w) k = Some b \<longrightarrow> Status b \<noteq> StatusQueued)" using 3(2,3) by blast
    show ?thesis
    proof (intro exI conjI)
      show "Dequeue (Suc fuel) q env w = Some (Ok (dequeued (instanceID q) (e_now (env 0)) a), w')" by (rule D)
      show "if closed q then Ok (dequeued (instanceID q) (e_now (env 0)) a) = Err ErrQueueClosed \<and> w' = w
        else if \<forall>k b. lookup_ad (repo w) k = Some b \<longrightarrow> Status b \<noteq> StatusQueued
        then Ok (dequeued (instanceID q) (e_now (env 0)) a) = Err ErrQueueEmpty \<and> w' = w
        else \<exists>b a'. next_queued (repo w) b \<and> Ok (dequeued (instanceID q) (e_now (env 0)) a) = Ok a'
          \<and> a' = b\<lparr>Status := StatusProcessing, WorkerID := instanceID q, Attempts := i64 (Attempts b + 1),
                    Version := i64 (i64 (Version b + 1) + 1)\<rparr>
          \<and> lookup_ad (repo w') = (lookup_ad (repo w))(AdID b \<mapsto> a')
          \<and> locks (repo w') = (locks (repo w))(AdID b := None)"
        unfolding if_not_P[OF 3(1)] if_not_P[OF ne]
        by (rule exI[of _ a], rule exI, intro conjI, rule a(2), rule refl, rule d, rule w'(2), rule w'(3))
    qed
  qed (simp add: Dequeue_step)
qed

lemma next_queued_sample: "next_queued sample_store a \<Longrightarrow> a = sample_ad ''b'' 1 20 StatusQueued"
  by (force simp: next_queued_def sample_store_def split: if_splits)

theorem dequeue_memory_witness:
  "\<exists>w'. Dequeue 1 (NewDistributedPriorityQueue MemoryCache ''api-1'' DefaultQueueOptions)
      (\<lambda>_. \<lparr>e_now = 60, e_pop = [1], e_find = []\<rparr>) \<lparr>repo = sample_store, rds = ()\<rparr>
    = Some (Ok ((sample_ad ''b'' 1 20 StatusQueued)\<lparr>Status := StatusProcessing, WorkerID := ''api-1'',
        Attempts := 1, Version := 3\<rparr>), w')"
proof -
  let ?q = "NewDistributedPriorityQueue MemoryCache ''api-1'' DefaultQueueOptions :: unit DistributedPriorityQueue"
  let ?w = "\<lparr>repo = sample_store, rds = ()\<rparr>" and ?env = "\<lambda>_. \<lparr>e_now = 60, e_pop = [1], e_find = []\<rparr>"
  have q: "cacheRepo ?q = MemoryCache" "instanceID ?q = ''api-1''" "\<not> closed ?q"
    by (simp_all add: NewDistributedPriorityQueue_def)
  have free: "lock_free t i o' (repo ?w)" for t i o' by (simp add: lock_free_def sample_store_def)
  have "lookup_ad (repo ?w) ''b'' = Some (sample_ad ''b'' 1 20 StatusQueued)" by (simp add: sample_store_def)
  then have ne: "\<not> (\<forall>k b. lookup_ad (repo ?w) k = Some b \<longrightarrow> Status b \<noteq> StatusQueued)" by fastforce
  have wf: "store_wf (repo ?w)" by (simp add: sample_store_wf)
  from dequeue_memory[where fuel = 0 and env = ?env, OF q(1) wf free, unfolded if_not_P[OF q(3)] if_not_P[OF ne]]
  obtain res w' where D: "Dequeue (Suc 0) ?q ?env ?w = Some (res, w')" and
    R: "\<exists>a a'. next_queued (repo ?w) a \<and> res = Ok a' \<and> a' = a\<lparr>Status := StatusProcessing,
       WorkerID := instanceID ?q, Attempts := i64 (Attempts a + 1), Version := i64 (i64 (Version a + 1) + 1)\<rparr>"
    by fast
  from R obtain a where "next_queued (repo ?w) a" and res: "res = Ok (a\<lparr>Status := StatusProcessing,
       WorkerID := instanceID ?q, Attempts := i64 (Attempts a + 1), Version := i64 (i64 (Version a + 1) + 1)\<rparr>)"
    by fast
  then have "a = sample_ad ''b'' 1 20 StatusQueued" by (intro next_queued_sample) simp
  with D res have "Dequeue (Suc 0) ?q ?env ?w = Some (Ok ((sample_ad ''b'' 1 20 StatusQueued)
    \<lparr>Status := StatusProcessing, WorkerID := ''api-1'', Attempts := 1, Version := 3\<rparr>), w')"
    by (simp only: q) (simp add: i64_small)
  then show ?thesis unfolding One_nat_def by blast
qed

section \<open>When Dequeue does not return\<close>

text \<open>C22. A locked ad at the head of the memory queue blocks every worker.  When the first queued ad (the
  only one of its rank) is locked by another owner and the lock does not expire, \<^verbatim>\<open>Dequeue\<close> with the
  memory cache never returns: the memory queue hands out the same identifier in every round, and
  each round finds the lock taken and recurses, even when other queued ads are free.\<close>

theorem dequeue_memory_livelock:
  assumes "cacheRepo q = MemoryCache" and "\<not> closed q" and "store_wf (repo w)"
    and "lookup_ad (repo w) (AdID a) = Some a" and "Status a = StatusQueued"
    and first: "\<And>k b. lookup_ad (repo w) k = Some b \<Longrightarrow> Status b = StatusQueued \<Longrightarrow> b \<noteq> a \<Longrightarrow> pop_order a b"
    and "\<And>n. \<not> lock_free (e_now (env n)) (AdID a) (instanceID q) (repo w)"
  shows "Dequeue fuel q env w = None"
  using assms(7)
proof (induction fuel arbitrary: env)
  case (Suc fuel)
  from memory_pop[OF assms(3,4,5), of "e_pop (env 0)" ads_queue] obtain c where
    c: "cache_PopFromQueue MemoryCache (e_pop (env 0)) ads_queue w = (Ok (AdID c), w)"
      "next_queued (repo w) c" "AdID c \<noteq> ''''" by blast
  have "c = a"
  proof (rule ccontr)
    assume "c \<noteq> a"
    with c(2) first[of "AdID c" c] have "pop_order a c" by (simp add: next_queued_def)
    moreover have "EffectivePriority c < EffectivePriority a
        \<or> EffectivePriority c = EffectivePriority a \<and> CreatedAt c \<le> CreatedAt a"
      using c(2) assms(4,5) unfolding next_queued_def by blast
    ultimately show False by (auto simp: pop_order_def split: if_splits)
  qed
  with dequeue_fast_locked[OF assms(4) refl, of "env 0" q] c Suc.prems
  have "dequeue_fast q (env 0) (AdID a) w = (Retry, w)" by simp
  moreover have "Dequeue fuel q (env \<circ> Suc) w = None" by (rule Suc.IH) (use Suc.prems in simp)
  ultimately show ?case using c \<open>c = a\<close> assms(1,2) by (simp add: Dequeue_step del: cache_PopFromQueue.simps)
qed simp

theorem dequeue_memory_livelock_witness:
  "Dequeue 1000 (NewDistributedPriorityQueue MemoryCache ''api-1'' DefaultQueueOptions)
      (\<lambda>n. \<lparr>e_now = 60, e_pop = [], e_find = []\<rparr>)
      \<lparr>repo = sample_store\<lparr>locks := [''b'' \<mapsto> \<lparr>ownerID = ''api-2'', expiresAt = 90\<rparr>]\<rparr>, rds = ()\<rparr> = None"
proof (rule dequeue_memory_livelock[where a = "sample_ad ''b'' 1 20 StatusQueued"])
  show "store_wf (repo \<lparr>repo = sample_store\<lparr>locks := [''b'' \<mapsto> \<lparr>ownerID = ''api-2'', expiresAt = 90\<rparr>]\<rparr>, rds = ()\<rparr>)"
    by (simp add: sample_store_wf)
qed (auto simp: NewDistributedPriorityQueue_def sample_store_def lock_free_def pop_order_def split: if_splits)

end
