(* ===== verification/Queue_Complete.thy ===== *)
theory Queue_Complete
  imports Queue_Dequeue
begin

text \<open>
  Completing an ad: what \<^verbatim>\<open>Complete\<close> of \<^verbatim>\<open>internal/processor/queue.go\<close> does on every branch.
\<close>

section \<open>Complete on every branch\<close>

definition completed :: "instant \<Rightarrow> AdAnalysis \<Rightarrow> Ad \<Rightarrow> Ad" where
  "completed now an a = bump_version (SetAnalysisResults an (set_status_bump now StatusCompleted a))"

lemma SetAnalysisResults_simps [simp]:
  "AdID (SetAnalysisResults an a) = AdID a" "Version (SetAnalysisResults an a) = Version a"
  "Status (SetAnalysisResults an a) = Status a" "Analysis (SetAnalysisResults an a) = Some an"
  "CompletedAt (SetAnalysisResults an a) = CompletedAt a" "Attempts (SetAnalysisResults an a) = Attempts a"
  "ProcessingStartedAt (SetAnalysisResults an a) = ProcessingStartedAt a"
  "EffectivePriority (SetAnalysisResults an a) = EffectivePriority a"
  "CreatedAt (SetAnalysisResults an a) = CreatedAt a" "QueuedAt (SetAnalysisResults an a) = QueuedAt a"
  "Priority (SetAnalysisResults an a) = Priority a"
  by (simp_all add: SetAnalysisResults_def)

lemma completed_simps [simp]:
  "AdID (completed t an a) = AdID a" "Status (completed t an a) = StatusCompleted"
  "Analysis (completed t an a) = Some an" "CompletedAt (completed t an a) = Some t"
  "Version (completed t an a) = i64 (i64 (Version a + 1) + 1)"
  "ProcessingStartedAt (completed t an a) = ProcessingStartedAt a"
  "Attempts (completed t an a) = Attempts a" "QueuedAt (completed t an a) = QueuedAt a"
  "EffectivePriority (completed t an a) = EffectivePriority a" "CreatedAt (completed t an a) = CreatedAt a"
  "Priority (completed t an a) = Priority a"
  by (simp_all add: completed_def)

lemma Complete_locked:
  "\<not> lock_free now (AdID ad) (instanceID q) (repo w) \<Longrightarrow> Complete q now now' ad an w = (Err ErrItemLocked, w)"
  by (simp add: Complete_def store_eval)

lemma Complete_refused:
  assumes "lock_free now (AdID ad) (instanceID q) (repo w)"
    and "\<And>b. lookup_ad (repo w) (AdID ad) = Some b \<Longrightarrow> Version b \<noteq> Version ad \<or> Status b \<noteq> StatusProcessing"
  shows "fst (Complete q now now' ad an w) =
      Err (if lookup_ad (repo w) (AdID ad) = None then ErrAdNotFound else ErrConcurrentModification)"
    and "lookup_ad (repo (snd (Complete q now now' ad an w))) = lookup_ad (repo w)"
    and "locks (repo (snd (Complete q now now' ad an w))) = (locks (repo w))(AdID ad := None)"
  using assms
  by (auto simp: Complete_def store_eval AtomicStatusUpdate_def ReleaseLock_locks fun_eq_iff split: option.splits)

lemma Complete_ok:
  assumes "lock_free now (AdID ad) (instanceID q) (repo w)" and "AdID ad \<noteq> ''''"
    and "lookup_ad (repo w) (AdID ad) = Some b" and "AdID b = AdID ad"
    and "Version b = Version ad" and "Status b = StatusProcessing"
  shows "fst (Complete q now now' ad an w) = Ok ()"
    and "lookup_ad (repo (snd (Complete q now now' ad an w))) =
      (lookup_ad (repo w))(AdID ad \<mapsto> completed now' an b)"
    and "locks (repo (snd (Complete q now now' ad an w))) = (locks (repo w))(AdID ad := None)"
  using assms
  by (auto simp: Complete_def store_eval completed_def ReleaseLock_locks fun_eq_iff)

text \<open>C15. Completing, on every branch.  A lock of another owner refuses the call and nothing changes.
  Otherwise the stored ad decides: an unknown ad, one whose version is not the caller's and one that
  is not processing are refused with their errors and no ad changes; else the stored ad becomes
  completed, with the analysis, the completion time and two version steps, and no other ad changes.
  The lock on the ad is free afterwards in all these cases.\<close>

theorem complete_behaviour:
  assumes "store_wf (repo w)"
  shows "case Complete q now now' ad an w of (res, w') \<Rightarrow>
     if \<not> lock_free now (AdID ad) (instanceID q) (repo w) then res = Err ErrItemLocked \<and> w' = w
     else locks (repo w') = (locks (repo w))(AdID ad := None)
       \<and> (case lookup_ad (repo w) (AdID ad) of
            None \<Rightarrow> res = Err ErrAdNotFound \<and> lookup_ad (repo w') = lookup_ad (repo w)
          | Some b \<Rightarrow>
              if Version b = Version ad \<and> Status b = StatusProcessing
              then res = Ok () \<and> lookup_ad (repo w') = (lookup_ad (repo w))(AdID ad \<mapsto>
                b\<lparr>Status := StatusCompleted, CompletedAt := Some now', Analysis := Some an,
                   Version := i64 (i64 (Version b + 1) + 1)\<rparr>)
              else res = Err ErrConcurrentModification \<and> lookup_ad (repo w') = lookup_ad (repo w))"
proof -
  have c: "completed now' an b = b\<lparr>Status := StatusCompleted, CompletedAt := Some now', Analysis := Some an,
      Version := i64 (i64 (Version b + 1) + 1)\<rparr>" for b
    by (simp add: completed_def set_status_bump_def bump_version_def SetAnalysisResults_def Let_def)
  show ?thesis
  proof (cases "lock_free now (AdID ad) (instanceID q) (repo w)")
    case False
    then show ?thesis by (simp add: Complete_locked)
  next
    case True
    note R = Complete_refused[OF True, of now' an] and O = Complete_ok[OF True, of _ now' an]
    show ?thesis
    proof (cases "lookup_ad (repo w) (AdID ad)")
      case None
      then show ?thesis using R True by (simp add: case_prod_unfold)
    next
      case (Some b)
      have wf: "AdID b = AdID ad" "AdID ad \<noteq> ''''" using store_wf_lookup[OF assms Some] by simp_all
      show ?thesis
      proof (cases "Version b = Version ad \<and> Status b = StatusProcessing")
        case True
        then show ?thesis using O[OF wf(2) Some wf(1)] Some \<open>lock_free _ _ _ _\<close>
          by (simp add: case_prod_unfold c)
      next
        case False
        then show ?thesis using R Some \<open>lock_free _ _ _ _\<close> by (simp add: case_prod_unfold)
      qed
    qed
  qed
qed

text \<open>A store in which the worker of this instance is processing an ad.\<close>

definition processing_world :: "unit world" where
  "processing_world = \<lparr>repo = \<lparr>ads = [(''a'', (sample_ad ''a'' 3 10 StatusProcessing)\<lparr>Version := 4\<rparr>)],
     locks = [''a'' \<mapsto> \<lparr>ownerID = ''api-1'', expiresAt = 90\<rparr>]\<rparr>, rds = ()\<rparr>"

lemma processing_world_wf: "store_wf (repo processing_world)"
  by (simp add: store_wf_def processing_world_def)

theorem complete_behaviour_witness:
  "fst (Complete (NewDistributedPriorityQueue MemoryCache ''api-1'' DefaultQueueOptions) 70 71
      ((sample_ad ''a'' 3 10 StatusProcessing)\<lparr>Version := 4\<rparr>)
      \<lparr>EffectivenessScore = Fin 7, Strengths = [], ImprovementSuggestions = []\<rparr> processing_world) = Ok ()"
  using complete_behaviour[OF processing_world_wf, where now = 70 and now' = 71
      and q = "NewDistributedPriorityQueue MemoryCache ''api-1'' DefaultQueueOptions"
      and ad = "(sample_ad ''a'' 3 10 StatusProcessing)\<lparr>Version := 4\<rparr>"
      and an = "\<lparr>EffectivenessScore = Fin 7, Strengths = [], ImprovementSuggestions = []\<rparr>"]
  by (simp add: processing_world_def lock_free_def NewDistributedPriorityQueue_def case_prod_unfold)

end
