(* ===== verification/Queue_Invariants.thy ===== *)
theory Queue_Invariants
  imports Queue_Complete
begin

text \<open>
  Invariants of every stored ad.  A predicate on ads that each single change of an ad keeps is kept
  by every operation of the queue, on every branch, and by the maintenance loop; the locales prove
  this once, first for the scans that change priorities and then for every operation, and their
  interpretations give the properties.
\<close>

section \<open>Predicates kept by every change of an ad\<close>

text \<open>What the priority scans need: a predicate that a new version and a new effective priority keep.\<close>

locale priority_invariant =
  fixes P :: "Ad \<Rightarrow> bool"
  assumes bump: "P a \<Longrightarrow> P (bump_version a)"
    and priority: "P a \<Longrightarrow> 1 \<le> p \<or> p = EffectivePriority a \<or> p = Priority a \<Longrightarrow>
      P (a\<lparr>EffectivePriority := p\<rparr>)"
begin

definition all_ads :: "MemoryRepository \<Rightarrow> bool" where
  "all_ads m \<longleftrightarrow> store_wf m \<and> (\<forall>k a. lookup_ad m k = Some a \<longrightarrow> P a)"

lemma all_ads_wf: "all_ads m \<Longrightarrow> store_wf m"
  by (simp add: all_ads_def)

lemma all_ads_lookup: "all_ads m \<Longrightarrow> lookup_ad m k = Some a \<Longrightarrow> P a"
  by (simp add: all_ads_def)

lemma all_ads_put: "all_ads m \<Longrightarrow> P a \<Longrightarrow> AdID a = k \<Longrightarrow> k \<noteq> '''' \<Longrightarrow> all_ads (put_ad k a m)"
  by (auto simp: all_ads_def intro: store_wf_put)

lemma all_ads_change:
  "all_ads m \<Longrightarrow> (\<And>a. AdID (f a) = AdID a) \<Longrightarrow> (\<And>a. lookup_ad m k = Some a \<Longrightarrow> P a \<Longrightarrow> P (f a)) \<Longrightarrow>
   all_ads (change_ad k f m)"
  by (auto simp: all_ads_def)

lemma all_ads_ads: "ads m' = ads m \<Longrightarrow> all_ads m' = all_ads m"
  by (simp add: all_ads_def store_wf_def)

lemma all_ads_acquire [simp]: "all_ads (snd (AcquireLock now i w ttl m)) = all_ads m"
  by (rule all_ads_ads) simp

lemma all_ads_take [simp]: "all_ads (take_lock now i w ttl m) = all_ads m"
  by (rule all_ads_ads) simp

lemma all_ads_release [simp]: "all_ads (snd (ReleaseLock i w m)) = all_ads m"
  by (rule all_ads_ads) simp

lemma all_ads_update: "all_ads m \<Longrightarrow> P a \<Longrightarrow> all_ads (snd (snd (update_ad a m)))"
  using update_ad_cases[of m a] by (auto intro!: all_ads_put bump)

lemma all_ads_push:
  "all_ads (repo w) \<Longrightarrow>
   (\<And>a. lookup_ad (repo w) i = Some a \<Longrightarrow> 1 \<le> p \<or> p = EffectivePriority a \<or> p = Priority a) \<Longrightarrow>
   all_ads (repo (snd (cache_PushToQueue c q i p w)))"
  by (cases c) (auto simp: mem_PushToQueue_def priority intro!: all_ads_change split: option.splits)

lemma all_ads_pop: "all_ads (repo w) \<Longrightarrow> all_ads (repo (snd (cache_PopFromQueue c ord q w)))"
  by (cases c) (auto simp: mem_PopFromQueue_def split: list.splits)

lemma Get_P: "all_ads m \<Longrightarrow> Get i m = Ok a \<Longrightarrow> P a \<and> lookup_ad m i = Some a"
  by (auto simp: Get_def all_ads_def split: if_splits option.splits)

lemma listing_P:
  "all_ads m \<Longrightarrow> FindByStatus ord s l off m = Ok xs \<Longrightarrow> a \<in> set xs \<Longrightarrow> P a \<and> Status a = s"
  using go_slice_subset[of "sort_slice newest_first (ads_with_status ord s m)" off _ xs]
  by (fastforce simp: FindByStatus_def Let_def set_ads_with_status all_ads_def store_wf_stored
      split: if_splits)

lemma push_stored:
  assumes "cache_PushToQueue c qn (AdID a) p w = (r, w')" and "all_ads (repo w)"
    and "lookup_ad (repo w) i = Some a" and "1 \<le> p \<or> p = EffectivePriority a \<or> p = Priority a"
  shows "all_ads (repo w')"
proof -
  have "AdID a = i" using store_wf_lookup[OF all_ads_wf[OF assms(2)] assms(3)] by simp
  with assms all_ads_push[of w "AdID a" p c qn] show ?thesis by simp
qed

text \<open>A scan keeps the invariant when the treatment of each listed ad does.\<close>

lemma fold_keeps:
  assumes "\<And>x cw. x \<in> set xs \<Longrightarrow> all_ads (repo (snd cw)) \<Longrightarrow> all_ads (repo (snd (f x cw)))"
  shows "all_ads (repo (snd cw)) \<Longrightarrow> all_ads (repo (snd (fold f xs cw)))"
  using assms by (induction xs arbitrary: cw) auto

lemma write_priority_keeps:
  assumes "all_ads (repo (snd cw))" and "1 \<le> p"
  shows "all_ads (repo (snd (write_priority q ad p cw)))"
proof -
  obtain cnt w where cw: "cw = (cnt, w)" by (cases cw)
  show ?thesis
  proof (cases "Get (AdID ad) (repo w)")
    case (Ok b)
    have b: "P b" "lookup_ad (repo w) (AdID ad) = Some b" using Get_P[OF _ Ok] assms(1) by (auto simp: cw)
    let ?b = "b\<lparr>EffectivePriority := p\<rparr>"
    obtain r b' m where u: "update_ad ?b (repo w) = (r, b', m)" by (cases "update_ad ?b (repo w)")
    have m: "all_ads m" using all_ads_update[of "repo w" ?b] assms priority[OF b(1)] by (simp add: cw u)
    have "EffectivePriority b' = p \<and> lookup_ad m (AdID b') = Some b'" if "r = Ok ()"
      using that update_ad_cases[of "repo w" ?b] by (auto simp: u)
    then have "all_ads (repo w')"
      if "r = Ok ()" "cache_PushToQueue c qn (AdID b') (EffectivePriority b') (w\<lparr>repo := m\<rparr>) = (r', w')" for c qn r' w'
      using push_stored[OF that(2), of "AdID b'"] that(1) m by simp
    with m assms(1) Ok u show ?thesis
      by (auto simp: write_priority_def cw split: result.split prod.split)
  qed (use assms in \<open>simp_all add: write_priority_def cw\<close>)
qed

lemma aged_ge_1: "Status a = StatusQueued \<Longrightarrow> QueuedAt a \<noteq> None \<Longrightarrow>
    1 \<le> fst (CalculateEffectivePriority r mw now a)"
  by (auto simp: CalculateEffectivePriority_def Let_def)

lemma updateQueuePriorities_keeps:
  "all_ads (repo w) \<Longrightarrow> all_ads (repo (snd (updateQueuePriorities q now ord w)))"
proof -
  assume w: "all_ads (repo w)"
  have "all_ads (repo (snd (fold (age_one q) (zip (map now [0..<length xs]) xs) (0, w))))"
    if "FindByStatus ord StatusQueued 100 0 (repo w) = Ok xs" for xs
    using w listing_P[OF w that]
    by (intro fold_keeps) (auto simp: age_one_def Let_def dest!: set_zip_rightD intro!: write_priority_keeps aged_ge_1)
  then show ?thesis using w
    by (auto simp: updateQueuePriorities_def case_prod_unfold split: result.split)
qed

lemma BoostLowPriorityItems_keeps:
  "all_ads (repo w) \<Longrightarrow> all_ads (repo (snd (BoostLowPriorityItems q now ord w)))"
proof -
  assume w: "all_ads (repo w)"
  have "all_ads (repo (snd (fold (boost_one q) zs (0, w))))" for zs
    using w by (intro fold_keeps) (auto simp: boost_one_def in_i64_def intro!: write_priority_keeps)
  then show ?thesis using w
    by (auto simp: BoostLowPriorityItems_def case_prod_unfold split: result.split)
qed

end

text \<open>The status changes the queue makes with \<^verbatim>\<open>AtomicStatusUpdate\<close>.\<close>

fun queue_move :: "AdStatus \<Rightarrow> AdStatus \<Rightarrow> bool" where
  "queue_move StatusQueued StatusProcessing = True"
| "queue_move StatusProcessing StatusCompleted = True"
| "queue_move StatusProcessing StatusQueued = True"
| "queue_move _ _ = False"

text \<open>A predicate that the changes of the other operations keep, too.\<close>

locale ad_invariant = priority_invariant P for P :: "Ad \<Rightarrow> bool" +
  assumes move: "P a \<Longrightarrow> queue_move (Status a) s \<Longrightarrow> P (set_status_bump now s a)"
    and queued: "P a \<Longrightarrow> P (SetStatus now StatusQueued a)"
    and assign: "P a \<Longrightarrow> P (IncrementAttempts (AssignWorker i a))"
    and results: "P a \<Longrightarrow> P (SetAnalysisResults an a)"
    and failed: "P a \<Longrightarrow> Status a = StatusProcessing \<Longrightarrow> P (SetError now msg a)"
begin

lemma all_ads_move:
  "all_ads m \<Longrightarrow> queue_move f t \<Longrightarrow> all_ads (snd (AtomicStatusUpdate now i v f t m))"
  by (auto simp: AtomicStatusUpdate_def move intro!: all_ads_change split: option.splits)

lemma Enqueue_keeps: "all_ads (repo w) \<Longrightarrow> P ad \<Longrightarrow> all_ads (repo (snd (snd (Enqueue q now ad w))))"
proof -
  assume w: "all_ads (repo w)" and ad: "P ad"
  let ?u = "update_ad (SetStatus now StatusQueued ad) (repo w)"
  have u: "all_ads (snd (snd ?u))" by (rule all_ads_update[OF w queued[OF ad]])
  have p: "EffectivePriority (fst (snd ?u)) = EffectivePriority a"
    if "fst ?u = Ok ()" "lookup_ad (snd (snd ?u)) (AdID (fst (snd ?u))) = Some a" for a
    using that update_ad_cases[of "repo w" "SetStatus now StatusQueued ad"] by auto
  show ?thesis
    using w u p by (auto simp: Enqueue_def Let_def split: result.split prod.split intro!: all_ads_push)
qed

lemma assign_claimed_keeps: "all_ads m \<Longrightarrow> all_ads (snd (assign_claimed q i m))"
proof -
  assume m: "all_ads m"
  show ?thesis
  proof (cases "Get i m")
    case (Ok a)
    have "P (IncrementAttempts (AssignWorker (instanceID q) a))" using Get_P[OF m Ok] by (simp add: assign)
    from all_ads_update[OF m this] Ok show ?thesis
      by (auto simp: assign_claimed_def split: result.split prod.split)
  qed (use m in \<open>simp_all add: assign_claimed_def\<close>)
qed

text \<open>The same facts for a call whose result is a given pair, as the case distinctions meet it.\<close>

lemma keeps_pairs:
  "AtomicStatusUpdate now i v f t m = (r, m') \<Longrightarrow> all_ads m \<Longrightarrow> queue_move f t \<Longrightarrow> all_ads m'"
  "assign_claimed q i m = (ra, m') \<Longrightarrow> all_ads m \<Longrightarrow> all_ads m'"
  "update_ad a m = (r, a', m') \<Longrightarrow> all_ads m \<Longrightarrow> P a \<Longrightarrow> all_ads m'"
  "cache_PopFromQueue c ord qn w = (rs, w') \<Longrightarrow> all_ads (repo w) \<Longrightarrow> all_ads (repo w')"
  using all_ads_move[of m f t now i v] assign_claimed_keeps[of m q i] all_ads_update[of m a]
    all_ads_pop[of w c ord qn] by simp_all

lemma dequeue_fast_keeps: "all_ads (repo w) \<Longrightarrow> all_ads (repo (snd (dequeue_fast q e i w)))"
  by (auto simp: dequeue_fast_def store_eval Let_def split: result.split prod.split dest: keeps_pairs)

lemma dequeue_slow_keeps: "all_ads (repo w) \<Longrightarrow> all_ads (repo (snd (dequeue_slow q e w)))"
  by (auto simp: dequeue_slow_def store_eval Let_def split: result.split prod.split list.split
      dest: keeps_pairs)

lemma Dequeue_keeps:
  "Dequeue fuel q env w = Some (res, w') \<Longrightarrow> all_ads (repo w) \<Longrightarrow> all_ads (repo w')"
proof (induction fuel arbitrary: env w res w')
  case (Suc fuel)
  let ?pop = "cache_PopFromQueue (cacheRepo q) (e_pop (env 0)) ads_queue w"
  obtain r w1 where pop: "?pop = (r, w1)" by (cases ?pop)
  have w1: "all_ads (repo w1)" using keeps_pairs(4)[OF pop Suc.prems(2)] .
  show ?case
  proof (cases "\<exists>i. \<not> closed q \<and> r = Ok i \<and> i \<noteq> ''''")
    case True
    then obtain i where i: "\<not> closed q" "r = Ok i" "i \<noteq> ''''" by blast
    obtain att w2 where att: "dequeue_fast q (env 0) i w1 = (att, w2)"
      by (cases "dequeue_fast q (env 0) i w1")
    have w2: "all_ads (repo w2)" using dequeue_fast_keeps[OF w1, of q "env 0" i] by (simp add: att)
    from Suc.prems(1) i show ?thesis
      using w2 by (cases att) (auto simp: Dequeue_step pop att dest: Suc.IH[OF _ w2])
  next
    case False
    with Suc.prems pop w1 dequeue_slow_keeps[OF w1, of q "env 0"] show ?thesis
      by (auto simp: Dequeue_step split: if_splits result.splits)
  qed
qed simp

lemma results_pair:
  "update_ad (SetAnalysisResults an a) m = (r, a', m') \<Longrightarrow> Get i m = Ok a \<Longrightarrow> all_ads m \<Longrightarrow> all_ads m'"
  by (rule keeps_pairs(3)) (auto dest: Get_P intro: results)

lemma Complete_keeps: "all_ads (repo w) \<Longrightarrow> all_ads (repo (snd (Complete q now now' ad an w)))"
  by (auto simp: Complete_def store_eval Let_def split: result.split prod.split
      dest: keeps_pairs(1) results_pair)

lemma requeue_pair:
  "cache_PushToQueue c qn (AdID a) (Priority a) (w\<lparr>repo := m\<rparr>) = (r, w') \<Longrightarrow> Get i m = Ok a \<Longrightarrow> all_ads m \<Longrightarrow>
   all_ads (repo w')"
  by (rule push_stored) (auto dest: Get_P)

lemma requeue_one_keeps:
  assumes "all_ads (repo (snd cw))" and "P ad" and "Status ad = StatusProcessing"
  shows "all_ads (repo (snd (requeue_one q now ad cw)))"
proof -
  obtain cnt w where cw: "cw = (cnt, w)" by (cases cw)
  have "all_ads (snd (snd (update_ad (SetError now msg ad) (repo w))))" for msg
    using assms by (intro all_ads_update failed) (simp_all add: cw)
  then show ?thesis
    using assms(1)
    by (auto simp: requeue_one_def cw split: result.split prod.split option.split
        dest: keeps_pairs(1) requeue_pair)
qed

lemma RequeueExpired_keeps: "all_ads (repo w) \<Longrightarrow> all_ads (repo (snd (RequeueExpired q now ord w)))"
proof -
  assume w: "all_ads (repo w)"
  have "all_ads (repo (snd (fold (requeue_one q now) xs (0, w))))"
    if "FindByStatus ord StatusProcessing 100 0 (repo w) = Ok xs" for xs
    using w listing_P[OF w that] by (intro fold_keeps) (auto intro: requeue_one_keeps)
  then show ?thesis using w
    by (auto simp: RequeueExpired_def case_prod_unfold split: result.split)
qed

lemma maintenance_keeps: "all_ads (repo w) \<Longrightarrow> all_ads (repo (StartMaintenanceLoop q evs w))"
  by (induction q evs w rule: StartMaintenanceLoop.induct)
    (auto simp: RequeueExpired_keeps updateQueuePriorities_keeps BoostLowPriorityItems_keeps)

end

section \<open>The invariants of the queue\<close>

text \<open>No ad has a processing start time: nothing in the system sets one.\<close>

definition never_started :: "Ad \<Rightarrow> bool" where
  "never_started a \<longleftrightarrow> ProcessingStartedAt a = None"

text \<open>
  An ad past its submission has a queue time and a priority of at least 1; a completed ad has a
  completion time.
\<close>

definition stamped :: "Ad \<Rightarrow> bool" where
  "stamped a \<longleftrightarrow> 1 \<le> Priority a
     \<and> (Status a \<noteq> StatusSubmitted \<longrightarrow> QueuedAt a \<noteq> None \<and> 1 \<le> EffectivePriority a)
     \<and> (Status a = StatusCompleted \<longrightarrow> CompletedAt a \<noteq> None)"

lemma SetError_simps [simp]:
  "Status (SetError now msg a) = StatusFailed" "Priority (SetError now msg a) = Priority a"
  "EffectivePriority (SetError now msg a) = EffectivePriority a"
  "QueuedAt (SetError now msg a) = QueuedAt a" "AdID (SetError now msg a) = AdID a"
  "Version (SetError now msg a) = Version a"
  "ProcessingStartedAt (SetError now msg a) = ProcessingStartedAt a"
  by (simp_all add: SetError_def)

interpretation never: ad_invariant never_started
  by unfold_locales (auto simp: never_started_def)

interpretation stamps: ad_invariant stamped
proof
  fix a s now
  assume "stamped a" and "queue_move (Status a) s"
  then show "stamped (set_status_bump now s a)"
    by (cases "Status a"; cases s) (auto simp: stamped_def)
qed (auto simp: stamped_def)

interpretation filed: ad_invariant "\<lambda>a. True"
  by unfold_locales auto

lemma filed_all [simp]: "filed.all_ads m = store_wf m"
  by (simp add: filed.all_ads_def)

text \<open>
  The operations of the queue as data, and a run of them.  An ad enters by being saved as
  \<^verbatim>\<open>NewAd\<close> made it; \<^verbatim>\<open>Enqueue\<close> is called with that ad.
\<close>

datatype queue_op =
    QSubmit instant instant AdSubmission string
  | QDequeue nat "nat \<Rightarrow> round_env"
  | QComplete instant instant Ad AdAnalysis
  | QMaintain "maintenance_event list"

fun queue_step :: "'r DistributedPriorityQueue \<Rightarrow> queue_op \<Rightarrow> 'r world \<Rightarrow> 'r world" where
  "queue_step q (QSubmit now now' s i) w =
     (let ad = (NewAd now s)\<lparr>AdID := i\<rparr>;
          w = w\<lparr>repo := snd (save_ad ad (repo w))\<rparr>
      in snd (snd (Enqueue q now' ad w)))"
| "queue_step q (QDequeue fuel env) w =
     (case Dequeue fuel q env w of Some (r, w') \<Rightarrow> w' | None \<Rightarrow> w)"
| "queue_step q (QComplete now now' ad an) w = snd (Complete q now now' ad an w)"
| "queue_step q (QMaintain evs) w = StartMaintenanceLoop q evs w"

context ad_invariant
begin

lemma queue_run_keeps:
  assumes "all_ads (repo w)"
    and "\<And>now now' s i. QSubmit now now' s i \<in> set ops \<Longrightarrow> P ((NewAd now s)\<lparr>AdID := i\<rparr>)"
  shows "all_ads (repo (fold (queue_step q) ops w))"
  using assms
proof (induction ops arbitrary: w)
  case (Cons op ops)
  have "all_ads (repo (queue_step q op w))"
  proof (cases op)
    case (QSubmit now now' s i)
    let ?ad = "(NewAd now s)\<lparr>AdID := i\<rparr>"
    have p: "P ?ad" by (rule Cons.prems(2)[of now now']) (simp add: QSubmit)
    then have "all_ads (snd (save_ad ?ad (repo w)))"
      using Cons.prems(1) by (auto simp: save_ad_def intro!: all_ads_put)
    then show ?thesis by (simp add: QSubmit Let_def Enqueue_keeps p)
  next
    case (QDequeue fuel env)
    then show ?thesis using Cons.prems by (auto split: option.split dest: Dequeue_keeps)
  qed (simp_all add: Complete_keeps maintenance_keeps Cons.prems)
  then have "all_ads (repo (fold (queue_step q) ops (queue_step q op w)))"
    by (rule Cons.IH) (rule Cons.prems(2), erule list.set_intros(2))
  then show ?case by simp
qed simp

end

text \<open>A world whose repository has just been created.\<close>

definition fresh_world :: "'r \<Rightarrow> 'r world" where
  "fresh_world r = \<lparr>repo = NewMemoryRepository, rds = r\<rparr>"

lemma fresh_world_all:
  "never.all_ads (repo (fresh_world r))" "stamps.all_ads (repo (fresh_world r))"
  by (simp_all add: fresh_world_def never.all_ads_def stamps.all_ads_def) (simp_all add: NewMemoryRepository_def)

lemma queue_run_never: "never.all_ads (repo (fold (queue_step q) ops (fresh_world r)))"
  by (rule never.queue_run_keeps[OF fresh_world_all(1)]) (simp add: never_started_def)

lemma queue_run_stamped: "stamps.all_ads (repo (fold (queue_step q) ops (fresh_world r)))"
  by (rule stamps.queue_run_keeps[OF fresh_world_all(2)]) (auto simp: stamped_def)

text \<open>C1. The invariant of the queue.  Whatever submissions, dequeues, completions and rounds of the
  maintenance loop a queue has seen, in any order, with either cache, every ad is filed under its
  own non-empty identifier and has a submitted priority of at least 1; past its submission it also
  has a queue time and an effective priority of at least 1, and once completed a completion time.\<close>

theorem queue_invariant:
  "store_wf (repo (fold (queue_step q) ops (fresh_world r)))
   \<and> (\<forall>k a. lookup_ad (repo (fold (queue_step q) ops (fresh_world r))) k = Some a \<longrightarrow>
        1 \<le> Priority a
      \<and> (Status a \<noteq> StatusSubmitted \<longrightarrow> QueuedAt a \<noteq> None \<and> 1 \<le> EffectivePriority a)
      \<and> (Status a = StatusCompleted \<longrightarrow> CompletedAt a \<noteq> None))"
  using queue_run_stamped[of q ops r] by (auto simp: stamps.all_ads_def stamped_def)

theorem queue_invariant_witness:
  "store_wf (repo (fold (queue_step (NewDistributedPriorityQueue MemoryCache ''api-1'' DefaultQueueOptions))
     [QSubmit 10 11 (sample_submission 3) ''a'', QDequeue 1 (\<lambda>_. \<lparr>e_now = 20, e_pop = [], e_find = []\<rparr>)]
     (fresh_world ())))"
  using queue_invariant[of "NewDistributedPriorityQueue MemoryCache ''api-1'' DefaultQueueOptions"
      "[QSubmit 10 11 (sample_submission 3) ''a'', QDequeue 1 (\<lambda>_. \<lparr>e_now = 20, e_pop = [], e_find = []\<rparr>)]" "()"]
  by (rule conjunct1)

lemma requeue_idle:
  assumes "never.all_ads (repo w)"
  shows "RequeueExpired q now ord w = (if closed q then Err ErrQueueClosed else Ok 0, w)"
proof -
  obtain xs where xs: "FindByStatus ord StatusProcessing 100 0 (repo w) = Ok xs"
    using FindByStatus_eq[of 100 0] by (simp add: in_i64_def)
  have "fold (requeue_one q now) ys cw = cw" if "set ys \<subseteq> set xs" for ys cw
    using that never.listing_P[OF assms xs]
    by (induction ys arbitrary: cw) (auto simp: requeue_one_def never_started_def)
  with xs show ?thesis by (simp add: RequeueExpired_def)
qed

lemma requeue_idle_world: "never.all_ads (repo w) \<Longrightarrow> snd (RequeueExpired q now ord w) = w"
  by (simp add: requeue_idle)

text \<open>C28. Expired work is never requeued.  In every state the queue can reach from a new repository,
  \<^verbatim>\<open>RequeueExpired\<close> finds nothing to do: it counts 0 and changes nothing, however long an ad has been
  processing.  The scan looks at the time processing started, which \<^verbatim>\<open>Dequeue\<close> never records.\<close>

theorem requeue_expired_idle:
  "RequeueExpired q now ord (fold (queue_step q) ops (fresh_world r)) =
     (if closed q then Err ErrQueueClosed else Ok 0, fold (queue_step q) ops (fresh_world r))"
  by (rule requeue_idle[OF queue_run_never])

end
