(* ===== verification/Queue_Maintenance.thy ===== *)
theory Queue_Maintenance
  imports Queue_Invariants
begin

text \<open>
  The maintenance scans of \<^verbatim>\<open>internal/processor/queue.go\<close> (requeueing, aging, boosting): what each does
  to every ad it lists, and which ads they never list.
\<close>

section \<open>Scans that treat each listed ad on its own\<close>

text \<open>
  The contract of the treatment of one listed ad: as long as the ad is stored as it was listed, its
  entry becomes \<open>effect x\<close>, no other entry changes, and the counter grows by at most \<open>hits x\<close>, exactly
  so if \<open>exact\<close>.
\<close>

locale ad_scan =
  fixes step :: "'x \<Rightarrow> int \<times> 'r world \<Rightarrow> int \<times> 'r world"
    and listed :: "'x \<Rightarrow> Ad"
    and effect :: "'x \<Rightarrow> Ad"
    and hits :: "'x \<Rightarrow> int"
    and exact :: bool
    and ok :: "Ad \<Rightarrow> bool"
  assumes step_entry: "ok (listed x) \<Longrightarrow> lookup_ad (repo w) (AdID (listed x)) = Some (listed x) \<Longrightarrow>
      lookup_ad (repo (snd (step x (c, w)))) = (lookup_ad (repo w))(AdID (listed x) \<mapsto> effect x)"
    and step_count: "ok (listed x) \<Longrightarrow> lookup_ad (repo w) (AdID (listed x)) = Some (listed x) \<Longrightarrow>
      c \<le> fst (step x (c, w)) \<and> fst (step x (c, w)) \<le> c + hits x
      \<and> (exact \<longrightarrow> fst (step x (c, w)) = c + hits x)"
begin

lemma scan_entry:
  assumes "distinct (map (\<lambda>x. AdID (listed x)) xs)"
    and "\<forall>x \<in> set xs. ok (listed x) \<and> lookup_ad (repo w) (AdID (listed x)) = Some (listed x)"
  shows "lookup_ad (repo (snd (fold step xs (c, w)))) k =
    (case find (\<lambda>x. AdID (listed x) = k) xs of None \<Rightarrow> lookup_ad (repo w) k | Some x \<Rightarrow> Some (effect x))"
  using assms
proof (induction xs arbitrary: c w)
  case (Cons y ys)
  obtain c' w' where step: "step y (c, w) = (c', w')" by (cases "step y (c, w)")
  have e: "lookup_ad (repo w') = (lookup_ad (repo w))(AdID (listed y) \<mapsto> effect y)"
    using step_entry[of y w c] Cons.prems by (simp add: step)
  from Cons.prems have d: "distinct (map (\<lambda>x. AdID (listed x)) ys)" by simp
  from Cons.prems have n: "AdID (listed x) \<noteq> AdID (listed y)" if "x \<in> set ys" for x using that by force
  have stored: "\<forall>x \<in> set ys. ok (listed x) \<and> lookup_ad (repo w') (AdID (listed x)) = Some (listed x)"
    using Cons.prems n by (simp add: e)
  have "find (\<lambda>x. AdID (listed x) = AdID (listed y)) ys = None" using n by (auto simp: find_None_iff)
  with Cons.IH[OF d stored, of c'] show ?case by (auto simp: step e split: option.split)
qed simp

lemma scan_listed:
  assumes "distinct (map (\<lambda>x. AdID (listed x)) xs)"
    and "\<forall>x \<in> set xs. ok (listed x) \<and> lookup_ad (repo w) (AdID (listed x)) = Some (listed x)"
    and "x \<in> set xs"
  shows "lookup_ad (repo (snd (fold step xs (c, w)))) (AdID (listed x)) = Some (effect x)"
proof -
  obtain y where y: "find (\<lambda>y. AdID (listed y) = AdID (listed x)) xs = Some y"
    using assms(3) by (cases "find (\<lambda>y. AdID (listed y) = AdID (listed x)) xs") (auto simp: find_None_iff)
  then have "y \<in> set xs" "AdID (listed y) = AdID (listed x)"
    by (auto simp: find_Some_iff in_set_conv_nth)
  then have "y = x" using assms(1,3) by (auto simp: distinct_map dest: inj_onD)
  with y show ?thesis using scan_entry[OF assms(1,2)] by simp
qed

lemma scan_unlisted:
  assumes "distinct (map (\<lambda>x. AdID (listed x)) xs)"
    and "\<forall>x \<in> set xs. ok (listed x) \<and> lookup_ad (repo w) (AdID (listed x)) = Some (listed x)"
    and "\<And>x. x \<in> set xs \<Longrightarrow> AdID (listed x) \<noteq> k"
  shows "lookup_ad (repo (snd (fold step xs (c, w)))) k = lookup_ad (repo w) k"
proof -
  have "find (\<lambda>x. AdID (listed x) = k) xs = None" using assms(3) by (auto simp: find_None_iff)
  then show ?thesis using scan_entry[OF assms(1,2)] by simp
qed

lemma scan_count:
  assumes "distinct (map (\<lambda>x. AdID (listed x)) xs)"
    and "\<forall>x \<in> set xs. ok (listed x) \<and> lookup_ad (repo w) (AdID (listed x)) = Some (listed x)"
  shows "c \<le> fst (fold step xs (c, w)) \<and> fst (fold step xs (c, w)) \<le> c + sum_list (map hits xs)
    \<and> (exact \<longrightarrow> fst (fold step xs (c, w)) = c + sum_list (map hits xs))"
  using assms
proof (induction xs arbitrary: c w)
  case (Cons y ys)
  obtain c' w' where step: "step y (c, w) = (c', w')" by (cases "step y (c, w)")
  have e: "lookup_ad (repo w') = (lookup_ad (repo w))(AdID (listed y) \<mapsto> effect y)"
    using step_entry[of y w c] Cons.prems by (simp add: step)
  have c: "c \<le> c' \<and> c' \<le> c + hits y \<and> (exact \<longrightarrow> c' = c + hits y)"
    using step_count[of y w c] Cons.prems by (simp add: step)
  from Cons.prems have d: "distinct (map (\<lambda>x. AdID (listed x)) ys)" by simp
  from Cons.prems have n: "AdID (listed x) \<noteq> AdID (listed y)" if "x \<in> set ys" for x using that by force
  have stored: "\<forall>x \<in> set ys. ok (listed x) \<and> lookup_ad (repo w') (AdID (listed x)) = Some (listed x)"
    using Cons.prems n by (simp add: e)
  from Cons.IH[OF d stored, of c'] c show ?case by (auto simp: step)
qed simp

end

section \<open>The listings of the scans\<close>

text \<open>The list a scan works on: stored ads of the status, each once, at most 100.\<close>

lemma listing_100:
  assumes wf: "store_wf m" and xs: "FindByStatus ord s 100 0 m = Ok xs"
  shows "distinct (map AdID xs)" and "x \<in> set xs \<Longrightarrow> lookup_ad m (AdID x) = Some x \<and> Status x = s \<and> AdID x \<noteq> ''''"
proof -
  let ?ys = "sort_slice newest_first (ads_with_status ord s m)"
  have xs: "xs = take 100 ?ys" using FindByStatus_eq[of 100 0 ord s m] xs by (simp add: in_i64_def)
  have "mset (map AdID ?ys) = mset (map AdID (filter (\<lambda>a. Status a = s) (map snd (ads m))))"
    by (simp only: mset_map mset_sort_slice mset_ads_with_status)
  moreover have "distinct (map AdID (filter (\<lambda>a. Status a = s) (map snd (ads m))))"
  proof -
    have "map AdID (map snd (ads m)) = map fst (ads m)"
      using store_wf_mem[OF wf] by (auto intro!: map_cong)
    then have "distinct (map AdID (map snd (ads m)))" by (simp only: store_wf_distinct[OF wf])
    then show ?thesis by (rule distinct_map_filter)
  qed
  ultimately have d: "distinct (map AdID ?ys)" by (metis mset_eq_imp_distinct_iff)
  show "distinct (map AdID xs)" unfolding xs take_map[symmetric] by (rule distinct_take[OF d])
  assume "x \<in> set xs"
  then have "x \<in> set (ads_with_status ord s m)" using in_set_takeD[of x 100 ?ys] by (simp add: xs)
  then have x: "lookup_ad m (AdID x) = Some x" "Status x = s"
    using store_wf_stored[OF wf] by (auto simp: set_ads_with_status)
  with store_wf_lookup[OF wf x(1)] show "lookup_ad m (AdID x) = Some x \<and> Status x = s \<and> AdID x \<noteq> ''''" by simp
qed

text \<open>With at most 100 ads of the status, all of them are listed.\<close>

lemma listing_all:
  assumes wf: "store_wf m" and xs: "FindByStatus ord s 100 0 m = Ok xs"
    and "status_count s m \<le> 100" and "lookup_ad m k = Some a" and "Status a = s"
  shows "a \<in> set xs"
proof -
  let ?ys = "sort_slice newest_first (ads_with_status ord s m)"
  have "length ?ys \<le> 100" using assms(3) by (simp add: status_count_def length_ads_with_status)
  then have "xs = ?ys" using FindByStatus_eq[of 100 0 ord s m] xs by (simp add: in_i64_def)
  then show ?thesis using lookup_in_status[OF assms(4,5), of ord] by simp
qed

lemma listing_all_mset:
  assumes "FindByStatus ord s 100 0 m = Ok xs" and "status_count s m \<le> 100"
  shows "mset xs = mset (filter (\<lambda>a. Status a = s) (map snd (ads m)))"
proof -
  let ?ys = "sort_slice newest_first (ads_with_status ord s m)"
  have "length ?ys \<le> 100" using assms(2) by (simp add: status_count_def length_ads_with_status)
  then have "xs = ?ys" using FindByStatus_eq[of 100 0 ord s m] assms(1) by (simp add: in_i64_def)
  then show ?thesis by (simp only: mset_sort_slice mset_ads_with_status)
qed

text \<open>An ad with 100 newer ones of its status is not listed.\<close>

lemma newest_prefix:
  assumes "in_order newest_first xs" and "a \<in> set (take n xs)"
  shows "length (filter (\<lambda>b. CreatedAt a < CreatedAt b) xs) < n"
proof -
  from assms(2) obtain i where i: "i < length xs" "i < n" "xs ! i = a"
    by (auto simp: in_set_conv_nth)
  let ?P = "\<lambda>b. CreatedAt a < CreatedAt b"
  have "\<not> ?P b" if "b \<in> set (drop i xs)" for b
  proof -
    from that obtain l where "l < length xs - i" "xs ! (i + l) = b"
      by (auto simp: in_set_conv_nth)
    then obtain j where j: "i \<le> j" "j < length xs" "xs ! j = b" by (intro that[of "i + l"]) auto
    show ?thesis
    proof (cases "i = j")
      case False
      with j have "\<not> newest_first b a" using sorted_wrt_nth_less[OF assms(1), of i j] i(3) by simp
      then show ?thesis by (simp add: newest_first_def)
    qed (use i j in simp)
  qed
  then have "filter ?P (drop i xs) = []" by (simp only: filter_empty_conv) blast
  moreover have "filter ?P xs = filter ?P (take i xs) @ filter ?P (drop i xs)"
    by (metis append_take_drop_id filter_append)
  ultimately have "length (filter ?P xs) = length (filter ?P (take i xs))" by simp
  also have "\<dots> \<le> length (take i xs)" by (rule length_filter_le)
  finally show ?thesis using i(2) by simp
qed

lemma listing_skips:
  assumes xs: "FindByStatus ord s 100 0 m = Ok xs"
    and "100 \<le> length (filter (\<lambda>b. Status b = s \<and> CreatedAt a < CreatedAt b) (map snd (ads m)))"
  shows "a \<notin> set xs"
proof
  let ?ys = "sort_slice newest_first (ads_with_status ord s m)"
  assume "a \<in> set xs"
  then have "a \<in> set (take 100 ?ys)" using FindByStatus_eq[of 100 0 ord s m] xs by (simp add: in_i64_def)
  from newest_prefix[OF newest.sort_slice_in_order this]
  have "length (filter (\<lambda>b. CreatedAt a < CreatedAt b) ?ys) < 100" .
  moreover have "mset (filter (\<lambda>b. CreatedAt a < CreatedAt b) ?ys) =
      mset (filter (\<lambda>b. CreatedAt a < CreatedAt b) (filter (\<lambda>b. Status b = s) (map snd (ads m))))"
    by (simp only: mset_filter mset_sort_slice mset_ads_with_status)
  then have "size (mset (filter (\<lambda>b. CreatedAt a < CreatedAt b) ?ys)) =
      size (mset (filter (\<lambda>b. CreatedAt a < CreatedAt b) (filter (\<lambda>b. Status b = s) (map snd (ads m)))))"
    by (rule arg_cong)
  ultimately show False using assms(2) by (simp only: size_mset filter_filter conj_commute)
qed

section \<open>Requeueing\<close>

definition expired :: "'r DistributedPriorityQueue \<Rightarrow> instant \<Rightarrow> Ad \<Rightarrow> bool" where
  "expired q now a \<longleftrightarrow> (\<exists>t. ProcessingStartedAt a = Some t \<and> t < now - ProcessingTimeout (options q))"

definition requeued :: "'r DistributedPriorityQueue \<Rightarrow> instant \<Rightarrow> Ad \<Rightarrow> Ad" where
  "requeued q now a =
     (if \<not> expired q now a then a
      else if MaxAttempts (options q) \<le> Attempts a
      then bump_version (SetError now ''Exceeded maximum processing attempts'' a)
      else pushed (cacheRepo q) (Priority a) (set_status_bump now StatusQueued a))"

definition requeue_hit :: "'r DistributedPriorityQueue \<Rightarrow> instant \<Rightarrow> Ad \<Rightarrow> int" where
  "requeue_hit q now a = (if expired q now a \<and> Attempts a < MaxAttempts (options q) then 1 else 0)"

lemma memory_push_ok:
  "cacheRepo q = MemoryCache \<Longrightarrow> lookup_ad (repo w) i = Some a \<Longrightarrow> i \<noteq> '''' \<Longrightarrow>
   fst (cache_PushToQueue (cacheRepo q) qn i p w) = Ok ()"
  by (simp add: mem_PushToQueue_def)

lemma requeue_step:
  assumes "lookup_ad (repo w) (AdID a) = Some a" and "AdID a \<noteq> ''''" and "Status a = StatusProcessing"
  shows "lookup_ad (repo (snd (requeue_one q now a (c, w)))) = (lookup_ad (repo w))(AdID a \<mapsto> requeued q now a)"
    and "c \<le> fst (requeue_one q now a (c, w)) \<and> fst (requeue_one q now a (c, w)) \<le> c + requeue_hit q now a"
    and "cacheRepo q = MemoryCache \<Longrightarrow> fst (requeue_one q now a (c, w)) = c + requeue_hit q now a"
proof -
  let ?m = "change_ad (AdID a) (set_status_bump now StatusQueued) (repo w)"
  obtain r w' where p: "cache_PushToQueue (cacheRepo q) ads_queue (AdID a) (Priority a) (w\<lparr>repo := ?m\<rparr>) = (r, w')"
    by (cases "cache_PushToQueue (cacheRepo q) ads_queue (AdID a) (Priority a) (w\<lparr>repo := ?m\<rparr>)")
  have l: "lookup_ad (repo w') = (lookup_ad (repo w))
      (AdID a \<mapsto> pushed (cacheRepo q) (Priority a) (set_status_bump now StatusQueued a))"
    using push_lookup[of "cacheRepo q" ads_queue "AdID a" "Priority a" "w\<lparr>repo := ?m\<rparr>"] assms
    by (auto simp: p fun_eq_iff)
  have ok: "r = Ok ()" if c: "cacheRepo q = MemoryCache"
  proof -
    have "fst (cache_PushToQueue (cacheRepo q) ads_queue (AdID a) (Priority a) (w\<lparr>repo := ?m\<rparr>)) = Ok ()"
      by (rule memory_push_ok[OF c, of _ _ "set_status_bump now StatusQueued a"]) (simp_all add: assms)
    then show ?thesis by (simp only: p fst_conv)
  qed
  have u: "AtomicStatusUpdate now (AdID a) (Version a) StatusProcessing StatusQueued (repo w) = (Ok (), ?m)"
    using assms by (simp add: store_eval)
  have g: "Get (AdID a) ?m = Ok (set_status_bump now StatusQueued a)" using assms by (simp add: store_eval)
  have e: "update_ad (SetError now msg a) (repo w) = (Ok (), bump_version (SetError now msg a),
      put_ad (AdID a) (bump_version (SetError now msg a)) (repo w))" for msg
    using update_ad_ok[of "repo w" "SetError now msg a" a] assms by simp
  note d = requeue_one_def requeued_def requeue_hit_def expired_def
  consider "\<not> expired q now a" | "expired q now a" "MaxAttempts (options q) \<le> Attempts a"
    | "expired q now a" "Attempts a < MaxAttempts (options q)" by linarith
  then have "lookup_ad (repo (snd (requeue_one q now a (c, w)))) = (lookup_ad (repo w))(AdID a \<mapsto> requeued q now a)
    \<and> c \<le> fst (requeue_one q now a (c, w)) \<and> fst (requeue_one q now a (c, w)) \<le> c + requeue_hit q now a
    \<and> (cacheRepo q = MemoryCache \<longrightarrow> fst (requeue_one q now a (c, w)) = c + requeue_hit q now a)"
  proof cases
    case 1
    then show ?thesis using assms(1) by (auto simp: d fun_eq_iff split: option.splits)
  next
    case 2
    then show ?thesis by (auto simp: d e fun_eq_iff)
  next
    case 3
    have R: "requeue_one q now a (c, w) = (case r of Ok _ \<Rightarrow> (c + 1, w') | _ \<Rightarrow> (c, w'))"
      using 3 by (auto simp: requeue_one_def expired_def u g p)
    have "requeued q now a = pushed (cacheRepo q) (Priority a) (set_status_bump now StatusQueued a)"
      "requeue_hit q now a = 1" using 3 by (simp_all add: requeued_def requeue_hit_def)
    then show ?thesis using l ok by (cases r) (auto simp: R)
  qed
  then show "lookup_ad (repo (snd (requeue_one q now a (c, w)))) = (lookup_ad (repo w))(AdID a \<mapsto> requeued q now a)"
    "c \<le> fst (requeue_one q now a (c, w)) \<and> fst (requeue_one q now a (c, w)) \<le> c + requeue_hit q now a"
    "cacheRepo q = MemoryCache \<Longrightarrow> fst (requeue_one q now a (c, w)) = c + requeue_hit q now a"
    by blast+
qed

interpretation requeue_scan: ad_scan "requeue_one q now" "\<lambda>a. a" "requeued q now" "requeue_hit q now"
  "cacheRepo q = MemoryCache" "\<lambda>a. AdID a \<noteq> '''' \<and> Status a = StatusProcessing" for q now
  by unfold_locales (simp_all add: requeue_step)

section \<open>Aging and boosting\<close>

text \<open>What writing a priority leaves of the ad.\<close>

definition reprioritised :: "int \<Rightarrow> Ad \<Rightarrow> Ad" where
  "reprioritised p a = bump_version (a\<lparr>EffectivePriority := p\<rparr>)"

lemma write_priority_step:
  assumes "lookup_ad (repo w) (AdID a) = Some a" and "AdID a \<noteq> ''''"
  shows "lookup_ad (repo (snd (write_priority q a p (c, w)))) = (lookup_ad (repo w))(AdID a \<mapsto> reprioritised p a)"
    and "c \<le> fst (write_priority q a p (c, w)) \<and> fst (write_priority q a p (c, w)) \<le> c + 1"
    and "cacheRepo q = MemoryCache \<Longrightarrow> fst (write_priority q a p (c, w)) = c + 1"
proof -
  let ?a = "reprioritised p a"
  let ?m = "put_ad (AdID a) ?a (repo w)"
  have u: "update_ad (a\<lparr>EffectivePriority := p\<rparr>) (repo w) = (Ok (), ?a, ?m)"
    using update_ad_ok[of "repo w" "a\<lparr>EffectivePriority := p\<rparr>" a] assms by (simp add: reprioritised_def)
  have i: "AdID ?a = AdID a" "EffectivePriority ?a = p" by (simp_all add: reprioritised_def)
  obtain r w' where p: "cache_PushToQueue (cacheRepo q) ads_queue (AdID a) p (w\<lparr>repo := ?m\<rparr>) = (r, w')"
    by (cases "cache_PushToQueue (cacheRepo q) ads_queue (AdID a) p (w\<lparr>repo := ?m\<rparr>)")
  have l: "lookup_ad (repo w') = (lookup_ad (repo w))(AdID a \<mapsto> ?a)"
    using push_lookup[of "cacheRepo q" ads_queue "AdID a" p "w\<lparr>repo := ?m\<rparr>"] assms
    by (auto simp: p fun_eq_iff i pushed_same)
  have ok: "r = Ok ()" if c: "cacheRepo q = MemoryCache"
  proof -
    have "fst (cache_PushToQueue (cacheRepo q) ads_queue (AdID a) p (w\<lparr>repo := ?m\<rparr>)) = Ok ()"
      by (rule memory_push_ok[OF c, of _ _ ?a]) (simp_all add: assms)
    then show ?thesis by (simp only: p fst_conv)
  qed
  have W: "write_priority q a p (c, w) = (case r of Ok _ \<Rightarrow> (c + 1, w') | _ \<Rightarrow> (c, w'))"
    using assms by (simp add: write_priority_def store_eval u i p)
  show "lookup_ad (repo (snd (write_priority q a p (c, w)))) = (lookup_ad (repo w))(AdID a \<mapsto> ?a)"
    "c \<le> fst (write_priority q a p (c, w)) \<and> fst (write_priority q a p (c, w)) \<le> c + 1"
    "cacheRepo q = MemoryCache \<Longrightarrow> fst (write_priority q a p (c, w)) = c + 1"
    using l ok by (auto simp: W split: result.splits)
qed

definition aged_priority :: "'r DistributedPriorityQueue \<Rightarrow> instant \<Rightarrow> Ad \<Rightarrow> int" where
  "aged_priority q now a =
     fst (CalculateEffectivePriority (AgingRate (options q)) (MaxWaitTime (options q)) now a)"

text \<open>Whether a scan writes to a listed ad, what it leaves of it, and what it counts.\<close>

definition ages :: "'r DistributedPriorityQueue \<Rightarrow> instant \<times> Ad \<Rightarrow> bool" where
  "ages q ta = (case ta of (now, a) \<Rightarrow> QueuedAt a \<noteq> None \<and> aged_priority q now a \<noteq> EffectivePriority a)"

definition aged :: "'r DistributedPriorityQueue \<Rightarrow> instant \<times> Ad \<Rightarrow> Ad" where
  "aged q ta = (if ages q ta then reprioritised (aged_priority q (fst ta) (snd ta)) (snd ta) else snd ta)"

definition boosts :: "'r DistributedPriorityQueue \<Rightarrow> instant \<times> Ad \<Rightarrow> bool" where
  "boosts q ta = (case ta of (now, a) \<Rightarrow>
     QueuedAt a \<noteq> None \<and> HasExceededMaxWaitTime now (MaxWaitTime (options q)) a)"

definition boosted :: "'r DistributedPriorityQueue \<Rightarrow> instant \<times> Ad \<Rightarrow> Ad" where
  "boosted q ta = (if boosts q ta then reprioritised 1 (snd ta) else snd ta)"

interpretation aging_scan: ad_scan "age_one q" snd "aged q" "\<lambda>x. if ages q x then 1 else 0"
  "cacheRepo q = MemoryCache" "\<lambda>a. AdID a \<noteq> ''''" for q
  by unfold_locales
    (auto simp: age_one_def aged_def ages_def aged_priority_def Let_def fun_eq_iff write_priority_step)

interpretation boost_scan: ad_scan "boost_one q" snd "boosted q" "\<lambda>x. if boosts q x then 1 else 0"
  "cacheRepo q = MemoryCache" "\<lambda>a. AdID a \<noteq> ''''" for q
  by unfold_locales
    (auto simp: boost_one_def boosted_def boosts_def fun_eq_iff write_priority_step)

section \<open>The scans as a whole\<close>

lemma RequeueExpired_fold:
  assumes "\<not> closed q"
  obtains xs where "FindByStatus ord StatusProcessing 100 0 (repo w) = Ok xs"
    and "RequeueExpired q now ord w =
      (Ok (fst (fold (requeue_one q now) xs (0, w))), snd (fold (requeue_one q now) xs (0, w)))"
  using FindByStatus_eq[of 100 0 ord StatusProcessing "repo w"] assms
  by (auto simp: RequeueExpired_def in_i64_def case_prod_unfold)

lemma aging_fold:
  obtains xs where "FindByStatus ord StatusQueued 100 0 (repo w) = Ok xs"
    and "updateQueuePriorities q now ord w =
      (Ok (fst (fold (age_one q) (zip (map now [0..<length xs]) xs) (0, w))),
       snd (fold (age_one q) (zip (map now [0..<length xs]) xs) (0, w)))"
  using FindByStatus_eq[of 100 0 ord StatusQueued "repo w"]
  by (auto simp: updateQueuePriorities_def in_i64_def case_prod_unfold)

lemma boost_fold:
  assumes "\<not> closed q"
  obtains xs where "FindByStatus ord StatusQueued 100 0 (repo w) = Ok xs"
    and "BoostLowPriorityItems q now ord w =
      (Ok (fst (fold (boost_one q) (zip (map now [0..<length xs]) xs) (0, w))),
       snd (fold (boost_one q) (zip (map now [0..<length xs]) xs) (0, w)))"
  using FindByStatus_eq[of 100 0 ord StatusQueued "repo w"] assms
  by (auto simp: BoostLowPriorityItems_def in_i64_def case_prod_unfold)

lemma timed_listing:
  fixes now :: "nat \<Rightarrow> instant"
  assumes "store_wf (repo w)" and "FindByStatus ord s 100 0 (repo w) = Ok xs"
  defines "zs \<equiv> zip (map now [0..<length xs]) xs"
  shows "distinct (map (\<lambda>x. AdID (snd x)) zs)"
    and "\<forall>x \<in> set zs. AdID (snd x) \<noteq> '''' \<and> lookup_ad (repo w) (AdID (snd x)) = Some (snd x)"
    and "a \<in> set xs \<Longrightarrow> \<exists>j. (now j, a) \<in> set zs"
    and "x \<in> set zs \<Longrightarrow> snd x \<in> set xs"
proof -
  have snd: "map snd zs = xs" by (simp add: zs_def)
  have "map (\<lambda>x. AdID (snd x)) zs = map AdID (map snd zs)" by simp
  then show "distinct (map (\<lambda>x. AdID (snd x)) zs)" using listing_100(1)[OF assms(1,2)] by (simp only: snd)
  show sub: "snd x \<in> set xs" if "x \<in> set zs" for x
    using that snd by (metis image_eqI set_map)
  show "\<forall>x \<in> set zs. AdID (snd x) \<noteq> '''' \<and> lookup_ad (repo w) (AdID (snd x)) = Some (snd x)"
    using sub listing_100(2)[OF assms(1,2)] by blast
  show "\<exists>j. (now j, a) \<in> set zs" if a: "a \<in> set xs"
  proof -
    from a obtain j where "j < length xs" "xs ! j = a" by (auto simp: in_set_conv_nth)
    then have "zs ! j = (now j, a)" "j < length zs" by (simp_all add: zs_def)
    then show ?thesis by (metis nth_mem)
  qed
qed

text \<open>The scans of the queued ads leave every other ad alone.\<close>

lemma timed_listing_other:
  fixes now :: "nat \<Rightarrow> instant"
  assumes "store_wf (repo w)" and "FindByStatus ord s 100 0 (repo w) = Ok xs"
    and "lookup_ad (repo w) k = Some a" and "Status a \<noteq> s"
    and "x \<in> set (zip (map now [0..<length xs]) xs)"
  shows "AdID (snd x) \<noteq> k"
  using timed_listing(4)[OF assms(1,2,5)] listing_100(2)[OF assms(1,2), of "snd x"] assms(3,4) by auto

lemma aging_other:
  assumes "store_wf (repo w)" and "lookup_ad (repo w) k = Some a" and "Status a \<noteq> StatusQueued"
  shows "lookup_ad (repo (snd (updateQueuePriorities q now ord w))) k = Some a"
proof -
  obtain xs where xs: "FindByStatus ord StatusQueued 100 0 (repo w) = Ok xs"
    and R: "snd (updateQueuePriorities q now ord w) =
      snd (fold (age_one q) (zip (map now [0..<length xs]) xs) (0, w))"
    using aging_fold[of ord w q now] by (metis snd_conv)
  note T = timed_listing[OF assms(1) xs, where now = now]
  show ?thesis
    using aging_scan.scan_unlisted[OF T(1,2) timed_listing_other[OF assms(1) xs assms(2,3)], where q = q and c = 0]
      assms(2) by (simp add: R)
qed

lemma boost_other:
  assumes "store_wf (repo w)" and "lookup_ad (repo w) k = Some a" and "Status a \<noteq> StatusQueued"
  shows "lookup_ad (repo (snd (BoostLowPriorityItems q now ord w))) k = Some a"
proof (cases "closed q")
  case False
  obtain xs where xs: "FindByStatus ord StatusQueued 100 0 (repo w) = Ok xs"
    and R: "snd (BoostLowPriorityItems q now ord w) =
      snd (fold (boost_one q) (zip (map now [0..<length xs]) xs) (0, w))"
    using boost_fold[OF False, of ord w now] by (metis snd_conv)
  note T = timed_listing[OF assms(1) xs, where now = now]
  show ?thesis
    using boost_scan.scan_unlisted[OF T(1,2) timed_listing_other[OF assms(1) xs assms(2,3)], where q = q and c = 0]
      assms(2) by (simp add: R)
qed (simp add: BoostLowPriorityItems_def assms(2))

text \<open>What \<^verbatim>\<open>RequeueExpired\<close> does to an ad that has a processing start time.  With at most 100 ads
  processing, one whose start lies before the cutoff becomes failed, with the error recorded, when
  its attempts are used up, and queued again otherwise; every other ad stays as it was.\<close>

theorem requeue_expired_effect:
  assumes "store_wf (repo w)" and "\<not> closed q" and "status_count StatusProcessing (repo w) \<le> 100"
    and "lookup_ad (repo w) k = Some a"
  shows "lookup_ad (repo (snd (RequeueExpired q now ord w))) k =
    Some (if Status a = StatusProcessing
             \<and> (\<exists>t. ProcessingStartedAt a = Some t \<and> t < now - ProcessingTimeout (options q))
          then if MaxAttempts (options q) \<le> Attempts a
               then a\<lparr>Error := ''Exceeded maximum processing attempts'', Status := StatusFailed,
                      Version := i64 (Version a + 1)\<rparr>
               else pushed (cacheRepo q) (Priority a) (a\<lparr>Status := StatusQueued, Version := i64 (Version a + 1)\<rparr>)
          else a)"
proof -
  obtain xs where xs: "FindByStatus ord StatusProcessing 100 0 (repo w) = Ok xs"
    and R: "snd (RequeueExpired q now ord w) = snd (fold (requeue_one q now) xs (0, w))"
    using RequeueExpired_fold[OF assms(2), of ord w now] by (metis snd_conv)
  note L = listing_100[OF assms(1) xs]
  have stored: "\<forall>x \<in> set xs. (AdID x \<noteq> '''' \<and> Status x = StatusProcessing) \<and> lookup_ad (repo w) (AdID x) = Some x"
    using L(2) by blast
  have e: "requeued q now a = (if expired q now a
      then if MaxAttempts (options q) \<le> Attempts a
           then a\<lparr>Error := ''Exceeded maximum processing attempts'', Status := StatusFailed,
                  Version := i64 (Version a + 1)\<rparr>
           else pushed (cacheRepo q) (Priority a) (a\<lparr>Status := StatusQueued, Version := i64 (Version a + 1)\<rparr>)
      else a)"
    by (simp add: requeued_def SetError_def SetStatus_def bump_version_def set_status_bump_def Let_def)
  have k: "AdID a = k" using store_wf_lookup[OF assms(1,4)] by simp
  show ?thesis
  proof (cases "Status a = StatusProcessing")
    case True
    then have "a \<in> set xs" using listing_all[OF assms(1) xs assms(3,4)] by simp
    from requeue_scan.scan_listed[OF L(1) stored this, where c = 0] True show ?thesis
      by (simp add: R k e expired_def)
  next
    case False
    then have "AdID x \<noteq> k" if "x \<in> set xs" for x using L(2)[OF that] assms(4) by auto
    from requeue_scan.scan_unlisted[OF L(1) stored this, where c = 0] False show ?thesis
      by (simp add: R assms(4))
  qed
qed

text \<open>A store with one ad that has been processing for a day.\<close>

definition stuck_world :: "unit world" where
  "stuck_world = \<lparr>repo = \<lparr>ads = [(''a'', sample_ad ''a'' 3 10 StatusProcessing)], locks = Map.empty\<rparr>, rds = ()\<rparr>"

theorem requeue_expired_effect_witness:
  "map_option Status (lookup_ad (repo (snd (RequeueExpired
      (NewDistributedPriorityQueue MemoryCache ''api-1'' DefaultQueueOptions) nsDay [] stuck_world))) ''a'')
    = Some StatusQueued"
  using requeue_expired_effect[of stuck_world
      "NewDistributedPriorityQueue MemoryCache ''api-1'' DefaultQueueOptions" "''a''"
      "sample_ad ''a'' 3 10 StatusProcessing" nsDay "[]"]
  by (simp add: stuck_world_def store_wf_def NewDistributedPriorityQueue_def DefaultQueueOptions_def
      status_count_def nsDay_def nsMinute_def nsSecond_def)

text \<open>C25. Aging as a scan.  With at most 100 ads queued, every queued ad that has a queue time is given the
  effective priority that \<^verbatim>\<open>CalculateEffectivePriority\<close> computes at one of the scan's readings of the
  clock (and a new version exactly when that is a change).  Every other ad stays as it was: an ad of
  any other status, whether or not it has a queue time, and a queued ad without one; and no ad appears
  or disappears.\<close>

theorem aging_scan_effect:
  assumes "store_wf (repo w)" and "status_count StatusQueued (repo w) \<le> 100"
  shows "case lookup_ad (repo w) k of
      None \<Rightarrow> lookup_ad (repo (snd (updateQueuePriorities q now ord w))) k = None
    | Some a \<Rightarrow> \<exists>j. lookup_ad (repo (snd (updateQueuePriorities q now ord w))) k =
        Some (let p = fst (CalculateEffectivePriority (AgingRate (options q)) (MaxWaitTime (options q)) (now j) a)
              in if Status a = StatusQueued \<and> QueuedAt a \<noteq> None \<and> p \<noteq> EffectivePriority a
                 then a\<lparr>EffectivePriority := p, Version := i64 (Version a + 1)\<rparr> else a)"
proof -
  obtain xs where xs: "FindByStatus ord StatusQueued 100 0 (repo w) = Ok xs"
    and R: "snd (updateQueuePriorities q now ord w) =
      snd (fold (age_one q) (zip (map now [0..<length xs]) xs) (0, w))"
    using aging_fold[of ord w q now] by (metis snd_conv)
  note T = timed_listing[OF assms(1) xs, where now = now]
  have unlisted: "lookup_ad (repo (snd (updateQueuePriorities q now ord w))) k = lookup_ad (repo w) k"
    if nq: "\<And>a. lookup_ad (repo w) k = Some a \<Longrightarrow> Status a \<noteq> StatusQueued"
  proof -
    have "AdID (snd x) \<noteq> k" if x: "x \<in> set (zip (map now [0..<length xs]) xs)" for x
      using T(4)[OF x] listing_100(2)[OF assms(1) xs, of "snd x"] nq[of "snd x"] by auto
    from aging_scan.scan_unlisted[OF T(1,2) this, where q = q and c = 0] show ?thesis by (simp add: R)
  qed
  show ?thesis
  proof (cases "lookup_ad (repo w) k")
    case None
    with unlisted show ?thesis by simp
  next
    case (Some a)
    have k: "AdID a = k" using store_wf_lookup[OF assms(1) Some] by simp
    show ?thesis
    proof (cases "Status a = StatusQueued")
      case True
      then obtain j where j: "(now j, a) \<in> set (zip (map now [0..<length xs]) xs)"
        using T(3) listing_all[OF assms(1) xs assms(2) Some] by blast
      from aging_scan.scan_listed[OF T(1,2) j, where q = q and c = 0] True Some show ?thesis
        by (auto simp: R k aged_def ages_def aged_priority_def reprioritised_def bump_version_def Let_def intro!: exI[of _ j])
    next
      case False
      with unlisted Some show ?thesis by (simp add: Let_def)
    qed
  qed
qed

lemma boost_of_1:
  assumes "0 \<le> w" "in_i64 w" "0 < m" "in_i64 m"
  shows "priorityBoost 1 (waitingRatio w m) (Fin (1 / 2)) \<in> {0, 1}"
proof -
  obtain r where r: "waitingRatio w m = Fin r" "0 \<le> r" "r \<le> 1"
    using waitingRatio_mono[OF assms(1) order_refl assms(2-4)] by auto
  have "0 \<le> priorityBoost 1 (Fin r) (Fin (1 / 2))" "priorityBoost 1 (Fin r) (Fin (1 / 2)) \<le> 1"
    using priorityBoost_mono[of 1 r r "1 / 2"] r(2,3) by simp_all
  then show ?thesis by (auto simp: r(1))
qed

theorem aging_scan_effect_witness:
  "\<exists>j::nat. lookup_ad (repo (snd (updateQueuePriorities
      (NewDistributedPriorityQueue MemoryCache ''api-1'' DefaultQueueOptions) (\<lambda>j. 20) [] \<lparr>repo = sample_store, rds = ()\<rparr>))) ''b''
    = Some (sample_ad ''b'' 1 20 StatusQueued)"
  using aging_scan_effect[where k = "''b''" and w = "\<lparr>repo = sample_store, rds = ()\<rparr>" and now = "\<lambda>j. 20"
      and q = "NewDistributedPriorityQueue MemoryCache ''api-1'' DefaultQueueOptions" and ord = "[]"]
    boost_of_1[of 0 "MaxWaitTime DefaultQueueOptions"]
  by (simp add: sample_store_wf)
    (auto simp: sample_store_def status_count_def CalculateEffectivePriority_def Let_def time_since_def
      sat64_def i64_small NewDistributedPriorityQueue_def DefaultQueueOptions_def nsMinute_def nsSecond_def in_i64_def)

text \<open>C26. Boosting.  With at most 100 ads queued, an open queue gives every queued ad that has waited
  longer than the maximum at every reading of the clock the effective priority 1.\<close>

theorem boost_scan_effect:
  assumes "store_wf (repo w)" and "\<not> closed q" and "status_count StatusQueued (repo w) \<le> 100"
    and "lookup_ad (repo w) k = Some a" and "Status a = StatusQueued" and "QueuedAt a \<noteq> None"
    and "\<And>j. MaxWaitTime (options q) < GetWaitingTime (now j) a"
  shows "lookup_ad (repo (snd (BoostLowPriorityItems q now ord w))) k =
    Some (a\<lparr>EffectivePriority := 1, Version := i64 (Version a + 1)\<rparr>)"
proof -
  obtain xs where xs: "FindByStatus ord StatusQueued 100 0 (repo w) = Ok xs"
    and R: "snd (BoostLowPriorityItems q now ord w) =
      snd (fold (boost_one q) (zip (map now [0..<length xs]) xs) (0, w))"
    using boost_fold[OF assms(2), of ord w now] by (metis snd_conv)
  note T = timed_listing[OF assms(1) xs, where now = now]
  have k: "AdID a = k" using store_wf_lookup[OF assms(1,4)] by simp
  obtain j where j: "(now j, a) \<in> set (zip (map now [0..<length xs]) xs)"
    using T(3) listing_all[OF assms(1) xs assms(3,4,5)] by blast
  from boost_scan.scan_listed[OF T(1,2) j, where q = q and c = 0] assms(6,7) show ?thesis
    by (simp add: R k boosted_def boosts_def HasExceededMaxWaitTime_def reprioritised_def bump_version_def)
qed

theorem boost_scan_effect_witness:
  "map_option EffectivePriority (lookup_ad (repo (snd (BoostLowPriorityItems
      (NewDistributedPriorityQueue MemoryCache ''api-1'' DefaultQueueOptions) (\<lambda>j. nsDay) []
      \<lparr>repo = sample_store, rds = ()\<rparr>))) ''a'') = Some 1"
  using boost_scan_effect[of "\<lparr>repo = sample_store, rds = ()\<rparr>"
      "NewDistributedPriorityQueue MemoryCache ''api-1'' DefaultQueueOptions" "''a''"
      "sample_ad ''a'' 3 10 StatusQueued" "\<lambda>j. nsDay" "[]"]
  by (simp add: sample_store_wf)
    (simp add: sample_store_def status_count_def NewDistributedPriorityQueue_def DefaultQueueOptions_def
      GetWaitingTime_def time_since_def sat64_def nsDay_def nsMinute_def nsSecond_def)

text \<open>C27. The oldest ads starve.  An ad with at least 100 newer ads in the queue is never aged nor boosted:
  both scans leave it as it is, for as long as the newer ads stay queued.\<close>

theorem oldest_ads_starve:
  assumes "store_wf (repo w)" and "lookup_ad (repo w) k = Some a"
    and "100 \<le> length (filter (\<lambda>b. Status b = StatusQueued \<and> CreatedAt a < CreatedAt b) (map snd (ads (repo w))))"
  shows "lookup_ad (repo (snd (updateQueuePriorities q now ord w))) k = Some a
    \<and> lookup_ad (repo (snd (BoostLowPriorityItems q now ord w))) k = Some a"
proof -
  have other: "AdID (snd x) \<noteq> k"
    if xs: "FindByStatus ord StatusQueued 100 0 (repo w) = Ok xs"
      and x: "x \<in> set (zip (map now [0..<length xs]) xs)" for xs x
    using timed_listing(4)[OF assms(1) xs x] listing_skips[OF xs assms(3)]
      listing_100(2)[OF assms(1) xs, of "snd x"] assms(2) by auto
  show ?thesis
  proof
    obtain xs where xs: "FindByStatus ord StatusQueued 100 0 (repo w) = Ok xs"
      and R: "snd (updateQueuePriorities q now ord w) =
        snd (fold (age_one q) (zip (map now [0..<length xs]) xs) (0, w))"
      using aging_fold[of ord w q now] by (metis snd_conv)
    note T = timed_listing[OF assms(1) xs, where now = now]
    show "lookup_ad (repo (snd (updateQueuePriorities q now ord w))) k = Some a"
      using aging_scan.scan_unlisted[OF T(1,2) other[OF xs], where q = q and c = 0] assms(2) by (simp add: R)
    show "lookup_ad (repo (snd (BoostLowPriorityItems q now ord w))) k = Some a"
    proof (cases "closed q")
      case False
      then have "snd (BoostLowPriorityItems q now ord w) =
          snd (fold (boost_one q) (zip (map now [0..<length xs]) xs) (0, w))"
        using xs by (simp add: BoostLowPriorityItems_def case_prod_unfold)
      then show ?thesis
        using boost_scan.scan_unlisted[OF T(1,2) other[OF xs], where q = q and c = 0] assms(2) by simp
    qed (simp add: BoostLowPriorityItems_def assms(2))
  qed
qed

text \<open>What \<^verbatim>\<open>RequeueExpired\<close> counts.  With the memory cache and at most 100 ads processing, the call
  returns the number of the ads it queued again: processing, started before the cutoff, with
  attempts left.\<close>

theorem requeue_expired_count:
  assumes "store_wf (repo w)" and "\<not> closed q" and "status_count StatusProcessing (repo w) \<le> 100"
    and "cacheRepo q = MemoryCache"
  shows "fst (RequeueExpired q now ord w) = Ok (int (length (filter (\<lambda>a. Status a = StatusProcessing
      \<and> (\<exists>t. ProcessingStartedAt a = Some t \<and> t < now - ProcessingTimeout (options q))
      \<and> Attempts a < MaxAttempts (options q)) (map snd (ads (repo w))))))"
proof -
  let ?Q = "\<lambda>a. expired q now a \<and> Attempts a < MaxAttempts (options q)"
  obtain xs where xs: "FindByStatus ord StatusProcessing 100 0 (repo w) = Ok xs"
    and R: "fst (RequeueExpired q now ord w) = Ok (fst (fold (requeue_one q now) xs (0, w)))"
    using RequeueExpired_fold[OF assms(2), of ord w now] by (metis fst_conv)
  note L = listing_100[OF assms(1) xs]
  have stored: "\<forall>x \<in> set xs. (AdID x \<noteq> '''' \<and> Status x = StatusProcessing) \<and> lookup_ad (repo w) (AdID x) = Some x"
    using L(2) by blast
  have "fst (fold (requeue_one q now) xs (0, w)) = sum_list (map (requeue_hit q now) xs)"
    using requeue_scan.scan_count[OF L(1) stored, where c = 0] assms(4) by simp
  also have "\<dots> = int (length (filter ?Q xs))"
    by (induction xs) (simp_all add: requeue_hit_def)
  also have "int (length (filter ?Q xs)) = int (size (mset (filter ?Q xs)))" by (simp only: size_mset)
  also have "mset (filter ?Q xs) = mset (filter ?Q (filter (\<lambda>a. Status a = StatusProcessing) (map snd (ads (repo w)))))"
    by (simp only: mset_filter listing_all_mset[OF xs assms(3)])
  also have "filter ?Q (filter (\<lambda>a. Status a = StatusProcessing) (map snd (ads (repo w)))) =
      filter (\<lambda>a. Status a = StatusProcessing
        \<and> (\<exists>t. ProcessingStartedAt a = Some t \<and> t < now - ProcessingTimeout (options q))
        \<and> Attempts a < MaxAttempts (options q)) (map snd (ads (repo w)))"
    unfolding filter_filter by (rule filter_cong) (auto simp: expired_def)
  finally show ?thesis by (simp only: R size_mset)
qed

theorem requeue_expired_count_witness:
  "fst (RequeueExpired (NewDistributedPriorityQueue MemoryCache ''api-1'' DefaultQueueOptions) nsDay [] stuck_world)
    = Ok 1"
  using requeue_expired_count[of stuck_world
      "NewDistributedPriorityQueue MemoryCache ''api-1'' DefaultQueueOptions" nsDay "[]"]
  by (simp add: stuck_world_def store_wf_def NewDistributedPriorityQueue_def DefaultQueueOptions_def
      status_count_def nsDay_def nsMinute_def nsSecond_def)

text \<open>A store with 101 queued ads; the first is the oldest.\<close>

definition crowded_ads :: "(string \<times> Ad) list" where
  "crowded_ads = map (\<lambda>n. (CHR ''x'' # replicate n CHR ''1'',
     sample_ad (CHR ''x'' # replicate n CHR ''1'') 3 (int n) StatusQueued)) [0..<101]"

lemma crowded_wf: "store_wf \<lparr>ads = crowded_ads, locks = Map.empty\<rparr>"
  by (auto simp: store_wf_def crowded_ads_def distinct_map inj_on_def comp_def)

lemma crowded_newer:
  "length (filter (\<lambda>b. Status b = StatusQueued \<and> 0 < CreatedAt b) (map snd crowded_ads)) = 100"
proof -
  have "filter (\<lambda>b. Status b = StatusQueued \<and> 0 < CreatedAt b) (map snd crowded_ads) =
      map (\<lambda>n. sample_ad (CHR ''x'' # replicate n CHR ''1'') 3 (int n) StatusQueued) (filter (\<lambda>n. 0 < n) [0..<101])"
    by (simp add: crowded_ads_def filter_map comp_def)
  moreover have "filter (\<lambda>n. 0 < n) [0..<101] = [1..<101::nat]" by (simp add: upt_rec)
  ultimately show ?thesis by simp
qed

theorem oldest_ads_starve_witness:
  "lookup_ad (repo (snd (BoostLowPriorityItems (NewDistributedPriorityQueue MemoryCache ''api-1'' DefaultQueueOptions)
      (\<lambda>_. nsDay) [] \<lparr>repo = \<lparr>ads = crowded_ads, locks = Map.empty\<rparr>, rds = ()\<rparr>))) ''x''
    = Some (sample_ad ''x'' 3 0 StatusQueued)"
proof -
  have "lookup_ad \<lparr>ads = crowded_ads, locks = Map.empty\<rparr> ''x'' = Some (sample_ad ''x'' 3 0 StatusQueued)"
    by (simp add: crowded_ads_def upt_rec)
  then show ?thesis
    using oldest_ads_starve[of "\<lparr>repo = \<lparr>ads = crowded_ads, locks = Map.empty\<rparr>, rds = ()\<rparr>" "''x''"
        "sample_ad ''x'' 3 0 StatusQueued"] crowded_wf crowded_newer by simp
qed

end
