(* ===== verification/Queue_Progress.thy ===== *)
theory Queue_Progress
  imports Queue_Maintenance
begin

text \<open>
  Sequences of \<^verbatim>\<open>Dequeue\<close> calls: every claim is of one queued ad, with either cache; successive
  calls empty the memory queue in order; with Redis every call returns, and a process whose
  repository is empty empties the shared queue.
\<close>

section \<open>Claims, with either cache\<close>

lemma dequeue_fast_cases:
  assumes "store_wf (repo w)" and "dequeue_fast q e i w = (att, w')" and "i \<noteq> ''''"
  shows "(\<exists>a. att = Return (Ok (dequeued (instanceID q) (e_now e) a)) \<and> lookup_ad (repo w) (AdID a) = Some a
      \<and> Status a = StatusQueued
      \<and> lookup_ad (repo w') = (lookup_ad (repo w))(AdID a \<mapsto> dequeued (instanceID q) (e_now e) a))
    \<or> (\<forall>x. att \<noteq> Return (Ok x)) \<and> lookup_ad (repo w') = lookup_ad (repo w)"
proof (cases "lookup_ad (repo w) i")
  case None
  then show ?thesis using dequeue_fast_missing[OF None assms(3)] assms(2) by auto
next
  case (Some a)
  have i: "AdID a = i" using store_wf_lookup[OF assms(1) Some] by simp
  show ?thesis
  proof (cases "lock_free (e_now e) i (instanceID q) (repo w)")
    case False
    with dequeue_fast_locked[OF Some i assms(3)] assms(2) show ?thesis by auto
  next
    case True
    show ?thesis
    proof (cases "Status a = StatusQueued")
      case queued: True
      from dequeue_fast_ok[OF Some i assms(3) queued True] assms(2) Some i queued show ?thesis
        by (intro disjI1 exI[of _ a]) auto
    next
      case False
      then have "AtomicStatusUpdate (e_now e) i (Version a) StatusQueued StatusProcessing
          (take_lock (e_now e) i (instanceID q) (LockTTL (options q)) (repo w)) =
          (Err ErrConcurrentModification, take_lock (e_now e) i (instanceID q) (LockTTL (options q)) (repo w))"
        using Some by (simp add: AtomicStatusUpdate_def)
      then show ?thesis using Some i assms(2,3) True
        by (auto simp: dequeue_fast_def store_eval Let_def split: if_splits)
    qed
  qed
qed

lemma FindByPriority_1:
  "FindByPriority ord s 1 m = Ok (take 1 (sort_slice by_priority (ads_with_status ord s m)))"
proof -
  have "go_slice xs 0 (if int (length xs) < 1 then int (length xs) else 1) = Ok (take 1 xs)" for xs :: "Ad list"
    by (cases xs) (auto simp: go_slice_def)
  then show ?thesis by (simp only: FindByPriority_def Let_def)
qed

lemma dequeue_slow_cases:
  assumes "store_wf (repo w)"
  shows "(\<exists>a. fst (dequeue_slow q e w) = Ok (dequeued (instanceID q) (e_now e) a)
      \<and> lookup_ad (repo w) (AdID a) = Some a \<and> Status a = StatusQueued
      \<and> lookup_ad (repo (snd (dequeue_slow q e w))) =
          (lookup_ad (repo w))(AdID a \<mapsto> dequeued (instanceID q) (e_now e) a))
    \<or> (\<forall>x. fst (dequeue_slow q e w) \<noteq> Ok x) \<and> lookup_ad (repo (snd (dequeue_slow q e w))) = lookup_ad (repo w)"
proof -
  let ?ys = "sort_slice by_priority (ads_with_status (e_find e) StatusQueued (repo w))"
  obtain xs where xs: "FindByPriority (e_find e) StatusQueued 1 (repo w) = Ok xs" and t: "xs = take 1 ?ys"
    using FindByPriority_1[of "e_find e" StatusQueued "repo w"] by blast
  have sub: "set xs \<subseteq> set (ads_with_status (e_find e) StatusQueued (repo w))"
    unfolding t using set_take_subset[of 1 ?ys] by (simp only: set_sort_slice)
  show ?thesis
  proof (cases xs)
    case Nil
    with xs show ?thesis by (simp add: dequeue_slow_def)
  next
    case (Cons a rest)
    with sub have "a \<in> snd ` set (ads (repo w))" and s: "Status a = StatusQueued"
      by (auto simp: set_ads_with_status)
    then have a: "lookup_ad (repo w) (AdID a) = Some a" using store_wf_stored[OF assms] by simp
    have "AdID a \<noteq> ''''" using store_wf_lookup[OF assms a] by simp
    with xs Cons a s show ?thesis
      by (cases "lock_free (e_now e) (AdID a) (instanceID q) (repo w)")
        (auto simp: dequeue_slow_def store_eval assign_claimed_ok dequeued_def Let_def intro!: exI[of _ a])
  qed
qed

lemma pop_lookup: "lookup_ad (repo (snd (cache_PopFromQueue c ord qn w))) = lookup_ad (repo w)"
  by (cases c) (auto simp: mem_PopFromQueue_def split: list.splits)

lemma Dequeue_cases:
  assumes "Dequeue fuel q env w = Some (res, w')" and "store_wf (repo w)"
  shows "(\<exists>a n. res = Ok (dequeued (instanceID q) (e_now (env n)) a) \<and> lookup_ad (repo w) (AdID a) = Some a
      \<and> Status a = StatusQueued
      \<and> lookup_ad (repo w') = (lookup_ad (repo w))(AdID a \<mapsto> dequeued (instanceID q) (e_now (env n)) a))
    \<or> (\<forall>x. res \<noteq> Ok x) \<and> lookup_ad (repo w') = lookup_ad (repo w)"
  using assms
proof (induction fuel arbitrary: env w res w')
  case (Suc fuel)
  let ?pop = "cache_PopFromQueue (cacheRepo q) (e_pop (env 0)) ads_queue w"
  obtain r w1 where pop: "?pop = (r, w1)" by (cases ?pop)
  have wf: "store_wf (repo w1)"
    using filed.keeps_pairs(4)[OF pop] Suc.prems(2) by simp
  have l: "lookup_ad (repo w1) = lookup_ad (repo w)" using pop_lookup[of "cacheRepo q" "e_pop (env 0)" ads_queue w] pop by simp
  consider "closed q" | i where "\<not> closed q" "r = Ok i" "i \<noteq> ''''"
    | "\<not> closed q" "Dequeue (Suc fuel) q env w = Some (dequeue_slow q (env 0) w1)"
  proof (cases "closed q \<or> (\<exists>i. r = Ok i \<and> i \<noteq> '''')")
    case False
    then have "Dequeue (Suc fuel) q env w = Some (dequeue_slow q (env 0) w1)"
      by (cases r) (auto simp: Dequeue_step pop)
    with False that(3) show ?thesis by blast
  qed (use that in blast)
  then show ?case
  proof cases
    case 1
    with Suc.prems show ?thesis by (auto simp: Dequeue_step)
  next
    case 3
    then have s: "dequeue_slow q (env 0) w1 = (res, w')" using Suc.prems(1) by simp
    show ?thesis using dequeue_slow_cases[OF wf, of q "env 0"] unfolding s l fst_conv snd_conv by blast
  next
    case 2
    obtain att w2 where att: "dequeue_fast q (env 0) i w1 = (att, w2)" by (cases "dequeue_fast q (env 0) i w1")
    have wf2: "store_wf (repo w2)" using filed.dequeue_fast_keeps[of w1 q "env 0" i] wf by (simp add: att)
    note C = dequeue_fast_cases[OF wf att 2(3)]
    have "\<exists>w3. Dequeue fuel q (env \<circ> Suc) w2 = Some (res, w3) \<and> lookup_ad (repo w') = lookup_ad (repo w3)"
      if "\<forall>x. att \<noteq> Return x"
      using that Suc.prems(1) 2 by (cases att) (auto simp: Dequeue_step pop att)
    moreover have "res = x \<and> w' = w2" if "att = Return x" for x
      using that Suc.prems(1) 2 by (simp add: Dequeue_step pop att)
    ultimately show ?thesis
    proof (cases "\<exists>x. att = Return x")
      case True
      then obtain x where x: "att = Return x" by blast
      with \<open>\<And>x. att = Return x \<Longrightarrow> _\<close> have res: "res = x" "w' = w2" by blast+
      show ?thesis using C unfolding x res l attempt.inject by blast
    next
      case False
      then obtain w3 where w3: "Dequeue fuel q (env \<circ> Suc) w2 = Some (res, w3)" "lookup_ad (repo w') = lookup_ad (repo w3)"
        using \<open>\<forall>x. att \<noteq> Return x \<Longrightarrow> _\<close> by blast
      have l2: "lookup_ad (repo w2) = lookup_ad (repo w)" using C False l by auto
      from Suc.IH[OF w3(1) wf2] show ?thesis unfolding w3(2) l2 comp_def by blast
    qed
  qed
qed simp

text \<open>C10. A claim is of one queued ad.  Whenever \<^verbatim>\<open>Dequeue\<close> returns, with either cache and after any
  number of rounds: if it returns an ad, that ad was queued and is now stored, as returned, as
  processing, assigned to this instance, with one more attempt and its version advanced twice, and
  no other ad has changed; if it returns an error, no ad has changed.\<close>

theorem dequeue_sound:
  assumes "Dequeue fuel q env w = Some (res, w')" and "store_wf (repo w)"
  shows "case res of
      Ok a' \<Rightarrow> (\<exists>a. lookup_ad (repo w) (AdID a') = Some a \<and> Status a = StatusQueued
        \<and> a' = a\<lparr>Status := StatusProcessing, WorkerID := instanceID q, Attempts := i64 (Attempts a + 1),
                  Version := i64 (i64 (Version a + 1) + 1)\<rparr>
        \<and> lookup_ad (repo w') = (lookup_ad (repo w))(AdID a' \<mapsto> a'))
    | _ \<Rightarrow> lookup_ad (repo w') = lookup_ad (repo w)"
proof -
  have d: "dequeued i t a = a\<lparr>Status := StatusProcessing, WorkerID := i, Attempts := i64 (Attempts a + 1),
      Version := i64 (i64 (Version a + 1) + 1)\<rparr>" for i t a
    by (simp add: dequeued_def set_status_bump_def bump_version_def IncrementAttempts_def AssignWorker_def Let_def)
  show ?thesis
    using Dequeue_cases[OF assms] by (cases res) (auto simp: d)
qed

theorem dequeue_sound_witness:
  "\<exists>w'. Dequeue 1 (NewDistributedPriorityQueue MemoryCache ''api-1'' DefaultQueueOptions)
      (\<lambda>_. \<lparr>e_now = 60, e_pop = [], e_find = []\<rparr>) \<lparr>repo = NewMemoryRepository, rds = ()\<rparr>
      = Some (Err ErrQueueEmpty, w')
    \<and> lookup_ad (repo w') = lookup_ad NewMemoryRepository"
proof -
  let ?q = "NewDistributedPriorityQueue MemoryCache ''api-1'' DefaultQueueOptions :: unit DistributedPriorityQueue"
  let ?w = "\<lparr>repo = NewMemoryRepository, rds = ()\<rparr>" and ?env = "\<lambda>_::nat. \<lparr>e_now = 60, e_pop = [], e_find = []\<rparr>"
  have D: "Dequeue 1 ?q ?env ?w = Some (Err ErrQueueEmpty, ?w)"
    by (simp add: One_nat_def Dequeue_step NewDistributedPriorityQueue_def NewMemoryRepository_def
      mem_PopFromQueue_def ads_with_status_def on_repo_def dequeue_slow_def FindByPriority_1)
  from dequeue_sound[OF D] D show ?thesis by auto
qed

section \<open>Emptying the memory queue\<close>

fun dequeues ::
  "nat \<Rightarrow> 'r DistributedPriorityQueue \<Rightarrow> (nat \<Rightarrow> nat \<Rightarrow> round_env) \<Rightarrow> 'r world \<Rightarrow> Ad result list" where
  "dequeues 0 q envs w = []"
| "dequeues (Suc n) q envs w =
     (case Dequeue 1 q (envs 0) w of
        None \<Rightarrow> []
      | Some (r, w') \<Rightarrow> r # dequeues n q (envs \<circ> Suc) w')"

definition queued_ids :: "MemoryRepository \<Rightarrow> string set" where
  "queued_ids m = {k. \<exists>a. lookup_ad m k = Some a \<and> Status a = StatusQueued}"

lemma finite_queued_ids [simp]: "finite (queued_ids m)"
  by (rule finite_subset[OF _ finite_dom_map_of[of "ads m"]]) (auto simp: queued_ids_def)

definition drain_order :: "Ad \<Rightarrow> Ad \<Rightarrow> bool" where
  "drain_order x y \<longleftrightarrow> EffectivePriority x < EffectivePriority y
     \<or> EffectivePriority x = EffectivePriority y \<and> CreatedAt x \<le> CreatedAt y"

lemma dequeue_memory_one:
  assumes "cacheRepo q = MemoryCache" and "\<not> closed q" and "store_wf (repo w)" and "locks (repo w) = Map.empty"
    and "queued_ids (repo w) \<noteq> {}"
  obtains a w' where "Dequeue 1 q env w = Some (Ok (dequeued (instanceID q) (e_now (env 0)) a), w')"
    and "next_queued (repo w) a" and "store_wf (repo w')" and "locks (repo w') = Map.empty"
    and "lookup_ad (repo w') = (lookup_ad (repo w))(AdID a \<mapsto> dequeued (instanceID q) (e_now (env 0)) a)"
proof -
  obtain k b where kb: "lookup_ad (repo w) k = Some b" "Status b = StatusQueued"
    using assms(5) by (auto simp: queued_ids_def)
  from memory_pop[OF assms(3) kb, of "e_pop (env 0)" ads_queue] obtain a where
    a: "cache_PopFromQueue MemoryCache (e_pop (env 0)) ads_queue w = (Ok (AdID a), w)"
      "next_queued (repo w) a" "AdID a \<noteq> ''''" by blast
  have la: "lookup_ad (repo w) (AdID a) = Some a" "Status a = StatusQueued" using a(2) by (auto simp: next_queued_def)
  have free: "lock_free (e_now (env 0)) (AdID a) (instanceID q) (repo w)" by (simp add: lock_free_def assms(4))
  from dequeue_fast_ok[OF la(1) refl a(3) la(2) free] obtain w' where
    w': "dequeue_fast q (env 0) (AdID a) w = (Return (Ok (dequeued (instanceID q) (e_now (env 0)) a)), w')"
      "lookup_ad (repo w') = (lookup_ad (repo w))(AdID a \<mapsto> dequeued (instanceID q) (e_now (env 0)) a)"
      "locks (repo w') = (locks (repo w))(AdID a := None)" by blast
  have "Dequeue (Suc 0) q env w = Some (Ok (dequeued (instanceID q) (e_now (env 0)) a), w')"
    using a(1,3) w'(1) assms(1,2) by (simp add: Dequeue_step del: cache_PopFromQueue.simps)
  moreover have "store_wf (repo w')" using filed.dequeue_fast_keeps[of w q "env 0" "AdID a"] assms(3) w'(1) by simp
  moreover have "locks (repo w') = Map.empty" using w'(3) assms(4) by auto
  ultimately show ?thesis using that a(2) w'(2) by simp
qed

lemma dequeue_memory_none:
  assumes "cacheRepo q = MemoryCache" and "\<not> closed q" and "store_wf (repo w)" and "queued_ids (repo w) = {}"
  shows "Dequeue 1 q env w = Some (Err ErrQueueEmpty, w)"
proof -
  have none: "\<And>k b. lookup_ad (repo w) k = Some b \<Longrightarrow> Status b \<noteq> StatusQueued"
    using assms(4) by (auto simp: queued_ids_def)
  show ?thesis
    using memory_pop_empty[OF assms(3) none] dequeue_slow_empty[OF none assms(3)] assms(1,2)
    by (simp add: Dequeue_step del: cache_PopFromQueue.simps)
qed

text \<open>The queued ads are those that \<^verbatim>\<open>CountByStatus\<close> counts.\<close>

lemma status_count_card:
  assumes "store_wf m"
  shows "status_count StatusQueued m = int (card (queued_ids m))"
proof -
  let ?xs = "filter (\<lambda>(k, a). Status a = StatusQueued) (ads m)"
  have d: "distinct (map fst (ads m))" by (rule store_wf_distinct[OF assms])
  have "queued_ids m = fst ` set ?xs"
    using d by (force simp: queued_ids_def map_of_eq_Some_iff)
  moreover have "card (fst ` set ?xs) = length ?xs"
    using distinct_card[OF distinct_keys_filter[OF d], of "\<lambda>(k, a). Status a = StatusQueued"] by simp
  ultimately show ?thesis by (simp add: status_count_def)
qed

lemma dequeues_memory:
  assumes "cacheRepo q = MemoryCache" and "\<not> closed q"
  shows "store_wf (repo w) \<Longrightarrow> locks (repo w) = Map.empty \<Longrightarrow> card (queued_ids (repo w)) = n \<Longrightarrow>
    \<exists>ys. dequeues (Suc n) q envs w = map Ok ys @ [Err ErrQueueEmpty]
      \<and> distinct (map AdID ys) \<and> AdID ` set ys = queued_ids (repo w)
      \<and> sorted_wrt drain_order ys
      \<and> (\<forall>y \<in> set ys. \<exists>a. lookup_ad (repo w) (AdID y) = Some a
          \<and> y = dequeued (instanceID q) 0 a)"
proof (induction n arbitrary: w envs)
  case 0
  then have "queued_ids (repo w) = {}" by simp
  then have "dequeues (Suc 0) q envs w = map Ok [] @ [Err ErrQueueEmpty]"
    using dequeue_memory_none[OF assms 0(1), of "envs 0"] by simp
  then show ?case using 0 by (intro exI[of _ "[]"]) simp
next
  case (Suc n)
  have ne: "queued_ids (repo w) \<noteq> {}" using Suc.prems(3) by auto
  from dequeue_memory_one[OF assms Suc.prems(1,2) ne, of "envs 0"] obtain a w' where
    D: "Dequeue 1 q (envs 0) w = Some (Ok (dequeued (instanceID q) (e_now (envs 0 0)) a), w')"
    and a: "next_queued (repo w) a" and wf: "store_wf (repo w')" and nl: "locks (repo w') = Map.empty"
    and l: "lookup_ad (repo w') = (lookup_ad (repo w))(AdID a \<mapsto> dequeued (instanceID q) (e_now (envs 0 0)) a)"
    by blast
  have t: "dequeued i t b = dequeued i 0 b" for i t b
    by (simp add: dequeued_def set_status_bump_def Let_def)
  have la: "lookup_ad (repo w) (AdID a) = Some a" "Status a = StatusQueued" using a by (auto simp: next_queued_def)
  have ids: "queued_ids (repo w') = queued_ids (repo w) - {AdID a}" by (auto simp: queued_ids_def l)
  have "AdID a \<in> queued_ids (repo w)" using la by (auto simp: queued_ids_def)
  then have c: "card (queued_ids (repo w')) = n" using Suc.prems(3) by (simp add: ids)
  from Suc.IH[OF wf nl c, of "envs \<circ> Suc"] obtain ys where
    ys: "dequeues (Suc n) q (envs \<circ> Suc) w' = map Ok ys @ [Err ErrQueueEmpty]" "distinct (map AdID ys)"
      "AdID ` set ys = queued_ids (repo w')" "sorted_wrt drain_order ys"
    and src: "\<forall>y \<in> set ys. \<exists>b. lookup_ad (repo w') (AdID y) = Some b \<and> y = dequeued (instanceID q) 0 b" by blast
  have src': "\<exists>b. lookup_ad (repo w) (AdID y) = Some b \<and> y = dequeued (instanceID q) 0 b" if "y \<in> set ys" for y
  proof -
    have "AdID y \<noteq> AdID a" using that ys(3) ids by auto
    with src that show ?thesis by (auto simp: l)
  qed
  let ?y = "dequeued (instanceID q) 0 a"
  have first: "drain_order ?y y" if "y \<in> set ys" for y
  proof -
    have "AdID y \<in> queued_ids (repo w)" using that ys(3) ids by auto
    with src'[OF that] obtain b where b: "lookup_ad (repo w) (AdID y) = Some b" "y = dequeued (instanceID q) 0 b"
      "Status b = StatusQueued" by (auto simp: queued_ids_def)
    from a b(1,3) have "EffectivePriority a < EffectivePriority b
        \<or> EffectivePriority a = EffectivePriority b \<and> CreatedAt a \<le> CreatedAt b"
      unfolding next_queued_def by blast
    then show ?thesis by (simp add: drain_order_def b(2))
  qed
  have "dequeues (Suc (Suc n)) q envs w = map Ok (?y # ys) @ [Err ErrQueueEmpty]"
    unfolding dequeues.simps(2)[of "Suc n"] D option.case prod.case ys(1) t[of _ "e_now (envs 0 0)"] by simp
  moreover have "distinct (map AdID (?y # ys))" using ys(2,3) ids by auto
  moreover have "AdID ` set (?y # ys) = queued_ids (repo w)"
    using ys(3) ids \<open>AdID a \<in> queued_ids (repo w)\<close> by auto
  moreover have "sorted_wrt drain_order (?y # ys)" using first ys(4) by simp
  moreover have "\<forall>y \<in> set (?y # ys). \<exists>b. lookup_ad (repo w) (AdID y) = Some b \<and> y = dequeued (instanceID q) 0 b"
    using src' la(1) by auto
  ultimately show ?case by blast
qed

text \<open>C11. The memory queue as a priority queue.  If n ads are queued and no lock is held, n+1 successive
  calls of \<^verbatim>\<open>Dequeue\<close> with the memory cache return every queued ad exactly once, in the order of the
  effective priority and then of the creation time, and then \<^verbatim>\<open>ErrQueueEmpty\<close>, whatever the iteration
  orders of the map.\<close>

theorem dequeue_drains_in_order:
  assumes "cacheRepo q = MemoryCache" and "\<not> closed q"
    and "store_wf (repo w)" and "locks (repo w) = Map.empty" and "card (queued_ids (repo w)) = n"
  shows "\<exists>ys. dequeues (Suc n) q envs w = map Ok ys @ [Err ErrQueueEmpty]
    \<and> distinct (map AdID ys) \<and> AdID ` set ys = queued_ids (repo w)
    \<and> sorted_wrt (\<lambda>x y. EffectivePriority x < EffectivePriority y
        \<or> EffectivePriority x = EffectivePriority y \<and> CreatedAt x \<le> CreatedAt y) ys
    \<and> (\<forall>y \<in> set ys. Status y = StatusProcessing \<and> WorkerID y = instanceID q)"
proof -
  from dequeues_memory[OF assms, of envs] obtain ys where
    ys: "dequeues (Suc n) q envs w = map Ok ys @ [Err ErrQueueEmpty]" "distinct (map AdID ys)"
      "AdID ` set ys = queued_ids (repo w)" "sorted_wrt drain_order ys"
      "\<forall>y \<in> set ys. \<exists>a. lookup_ad (repo w) (AdID y) = Some a \<and> y = dequeued (instanceID q) 0 a" by blast
  have "Status y = StatusProcessing \<and> WorkerID y = instanceID q" if "y \<in> set ys" for y
    using ys(5) that by (metis dequeued_simps(2,3))
  with ys(1-4) show ?thesis unfolding drain_order_def by blast
qed

theorem dequeue_drains_in_order_witness:
  "\<forall>envs. \<exists>ys. dequeues 3 (NewDistributedPriorityQueue MemoryCache ''api-1'' DefaultQueueOptions) envs
      \<lparr>repo = sample_store, rds = ()\<rparr> = map Ok ys @ [Err ErrQueueEmpty]
    \<and> AdID ` set ys = {''a'', ''b''}"
proof (rule allI)
  fix envs
  have ids: "queued_ids sample_store = {''a'', ''b''}"
    by (auto simp: queued_ids_def sample_store_def split: if_splits)
  let ?q = "NewDistributedPriorityQueue MemoryCache ''api-1'' DefaultQueueOptions :: unit DistributedPriorityQueue"
  let ?w = "\<lparr>repo = sample_store, rds = ()\<rparr>"
  have h: "cacheRepo ?q = MemoryCache" "\<not> closed ?q" "store_wf (repo ?w)" "locks (repo ?w) = Map.empty"
    "card (queued_ids (repo ?w)) = 2"
    by (simp_all add: NewDistributedPriorityQueue_def sample_store_wf ids) (simp add: sample_store_def)
  from dequeue_drains_in_order[OF h, of envs] obtain ys where
    "dequeues (Suc 2) ?q envs ?w = map Ok ys @ [Err ErrQueueEmpty]" "AdID ` set ys = queued_ids (repo ?w)"
    by blast
  then show "\<exists>ys. dequeues 3 ?q envs ?w = map Ok ys @ [Err ErrQueueEmpty] \<and> AdID ` set ys = {''a'', ''b''}"
    by (intro exI[of _ ys]) (simp add: ids numeral_3_eq_3 numeral_2_eq_2)
qed

section \<open>Dequeue from Redis\<close>

text \<open>A retry of the fast path leaves Redis as it was.\<close>

lemma dequeue_fast_retry_rds:
  "dequeue_fast q e i w = (att, w') \<Longrightarrow> (\<forall>r. att \<noteq> Return r) \<Longrightarrow> rds w' = rds w"
  by (auto simp: dequeue_fast_def store_eval Let_def split: result.splits prod.splits if_splits)

lemma Dequeue_redis_returns:
  assumes "cacheRepo q = RedisCache rr" and doc: "redis_documented (client rr) kv zs"
  shows "finite (dom (zs (rds w) ads_queue)) \<Longrightarrow> card (dom (zs (rds w) ads_queue)) \<le> n \<Longrightarrow>
    Dequeue (Suc n) q env w \<noteq> None"
proof (induction n arbitrary: w env)
  case 0
  then have e: "zs (rds w) ads_queue = Map.empty" by simp
  show ?case using redis_PopFromQueue_empty[OF doc e] by (simp add: Dequeue_step assms(1) on_redis_def)
next
  case (Suc n)
  show ?case
  proof (cases "zs (rds w) ads_queue = Map.empty")
    case True
    then show ?thesis using redis_PopFromQueue_empty[OF doc True] by (simp add: Dequeue_step assms(1) on_redis_def)
  next
    case False
    from redis_PopFromQueue_some[OF doc False] obtain i x where
      i: "fst (redis_PopFromQueue rr ads_queue (rds w)) = Ok i" "zs (rds w) ads_queue i = Some x"
        "zs (snd (redis_PopFromQueue rr ads_queue (rds w))) = (zs (rds w))(ads_queue := (zs (rds w) ads_queue)(i := None))"
      by blast
    let ?w = "w\<lparr>rds := snd (redis_PopFromQueue rr ads_queue (rds w))\<rparr>"
    have pop: "cache_PopFromQueue (cacheRepo q) ord ads_queue w = (Ok i, ?w)" for ord
      using i(1) by (simp add: assms(1) on_redis_def case_prod_unfold)
    have "dom (zs (rds ?w) ads_queue) = dom (zs (rds w) ads_queue) - {i}" using i(3) by simp
    then have c: "finite (dom (zs (rds ?w) ads_queue))" "card (dom (zs (rds ?w) ads_queue)) \<le> n"
      using Suc.prems i(2) by (auto simp: domIff)
    obtain att w' where att: "dequeue_fast q (env 0) i ?w = (att, w')" by (cases "dequeue_fast q (env 0) i ?w")
    have "Dequeue (Suc n) q (env \<circ> Suc) w' \<noteq> None" if "\<forall>r. att \<noteq> Return r"
      using Suc.IH[of w' "env \<circ> Suc"] c dequeue_fast_retry_rds[OF att that] by (simp add: comp_def)
    then show ?thesis by (cases att) (auto simp: Dequeue_step[of "Suc n"] pop att)
  qed
qed

text \<open>C21. Dequeue returns with Redis.  While the server is reachable and behaves as documented, a call
  ends after at most one more round than the Redis queue has members: every round takes a member
  out, and the empty queue leads to the repository path, which does not retry.\<close>

theorem dequeue_redis_terminates:
  assumes "cacheRepo q = RedisCache rr" and "redis_documented (client rr) kv zs"
    and "finite (dom (zs (rds w) ads_queue))"
  shows "\<exists>res w'. Dequeue (Suc (card (dom (zs (rds w) ads_queue)))) q env w = Some (res, w')"
  using Dequeue_redis_returns[of q rr kv zs w, OF assms order_refl, of env]
  by (metis option.exhaust prod.exhaust)

definition redis_queue :: "ref_state DistributedPriorityQueue" where
  "redis_queue = NewDistributedPriorityQueue (RedisCache \<lparr>client = ref_client, defaultTTL = nsMinute\<rparr>)
     ''worker-1'' DefaultQueueOptions"

definition redis_world :: "ref_state world" where
  "redis_world = \<lparr>repo = NewMemoryRepository, rds = \<lparr>ref_kv = [],
     ref_zs = (\<lambda>q. if q = ads_queue then [(''a'', 3), (''b'', 1)] else [])\<rparr>\<rparr>"

lemma redis_queue_simps:
  "cacheRepo redis_queue = RedisCache \<lparr>client = ref_client, defaultTTL = nsMinute\<rparr>" "\<not> closed redis_queue"
  by (simp_all add: redis_queue_def NewDistributedPriorityQueue_def)

theorem dequeue_redis_terminates_witness:
  "\<forall>env. \<exists>res w'. Dequeue 3 redis_queue env redis_world = Some (res, w')"
proof -
  have d: "dom (map_of (ref_zs (rds redis_world) ads_queue)) = {''a'', ''b''}" by (auto simp: redis_world_def)
  have doc: "redis_documented (client \<lparr>client = ref_client, defaultTTL = nsMinute\<rparr>)
      (\<lambda>r. map_of (ref_kv r)) (\<lambda>r q. map_of (ref_zs r q))"
    by (simp add: ref_client_documented)
  show ?thesis
    using dequeue_redis_terminates[OF redis_queue_simps(1) doc, of redis_world] by (simp add: d numeral_3_eq_3)
qed

text \<open>A process whose repository holds no ad takes every member out of the Redis queue in a single \<^verbatim>\<open>Dequeue\<close> and
  then reports an empty queue: the ads other processes had pushed are dropped from the queue
  without being processed.\<close>

lemma empty_repository_drains_redis:
  assumes "cacheRepo q = RedisCache rr" and "\<not> closed q" and "redis_documented (client rr) kv zs"
    and "ads (repo w) = []" and "zs (rds w) ads_queue '''' = None"
  shows "finite (dom (zs (rds w) ads_queue)) \<Longrightarrow> card (dom (zs (rds w) ads_queue)) = n \<Longrightarrow>
    \<exists>w'. Dequeue (Suc n) q env w = Some (Err ErrQueueEmpty, w') \<and> zs (rds w') ads_queue = Map.empty
      \<and> repo w' = repo w"
  using assms(4,5)
proof (induction n arbitrary: w env)
  case 0
  then have e: "zs (rds w) ads_queue = Map.empty" by simp
  have "dequeue_slow q (env 0) w = (Err ErrQueueEmpty, w)"
    using 0 by (intro dequeue_slow_empty) (auto simp: store_wf_def)
  then show ?case using redis_PopFromQueue_empty[OF assms(3) e] assms(2) e
    by (simp add: Dequeue_step assms(1) on_redis_def)
next
  case (Suc n)
  then have "zs (rds w) ads_queue \<noteq> Map.empty" by auto
  from redis_PopFromQueue_some[OF assms(3) this] obtain i x where
    i: "fst (redis_PopFromQueue rr ads_queue (rds w)) = Ok i" "zs (rds w) ads_queue i = Some x"
      "zs (snd (redis_PopFromQueue rr ads_queue (rds w))) = (zs (rds w))(ads_queue := (zs (rds w) ads_queue)(i := None))"
    by blast
  let ?w = "w\<lparr>rds := snd (redis_PopFromQueue rr ads_queue (rds w))\<rparr>"
  have pop: "cache_PopFromQueue (cacheRepo q) ord ads_queue w = (Ok i, ?w)" for ord
    using i(1) by (simp add: assms(1) on_redis_def case_prod_unfold)
  have ni: "i \<noteq> ''''" using i(2) Suc.prems by auto
  have "dom (zs (rds ?w) ads_queue) = dom (zs (rds w) ads_queue) - {i}" using i(3) by simp
  then have c: "finite (dom (zs (rds ?w) ads_queue))" "card (dom (zs (rds ?w) ads_queue)) = n"
    using Suc.prems i(2) by (auto simp: domIff)
  have "dequeue_fast q (env 0) i ?w = (Retry, ?w)" using Suc.prems ni by (intro dequeue_fast_missing) auto
  moreover have e: "ads (repo ?w) = []" "zs (rds ?w) ads_queue '''' = None" using Suc.prems i(3) by auto
  moreover from Suc.IH[OF c e, of "env \<circ> Suc"] obtain w' where
    "Dequeue (Suc n) q (env \<circ> Suc) ?w = Some (Err ErrQueueEmpty, w')" "zs (rds w') ads_queue = Map.empty"
    "repo w' = repo w" by (auto simp: comp_def)
  ultimately show ?case using ni assms(2) by (simp add: Dequeue_step[of "Suc n"] pop)
qed

end
