(* ===== verification/Ad_Analyzer.thy ===== *)
theory Ad_Analyzer
  imports Ad_Model
begin

text \<open>
  The mock analysis of an ad (\<^verbatim>\<open>internal/processor/analyzer.go\<close>).  The number drawn by \<^verbatim>\<open>rand.Float64\<close>
  is an argument; its documented range is [0, 1).  The configured delay only sleeps and is left out.
\<close>

record AnalyzerOptions =
  MinScore :: float64
  MaxScore :: float64
  AnalysisDelay :: duration

definition DefaultAnalyzerOptions :: AnalyzerOptions where
  "DefaultAnalyzerOptions = \<lparr>MinScore = Fin 1, MaxScore = Fin 10, AnalysisDelay = 0\<rparr>"

record Analyzer =
  minScore :: float64
  maxScore :: float64
  analysisDelay :: duration

definition NewAnalyzer :: "AnalyzerOptions \<Rightarrow> Analyzer" where
  "NewAnalyzer opts =
     \<lparr>minScore = MinScore opts, maxScore = MaxScore opts, analysisDelay = AnalysisDelay opts\<rparr>"

text \<open>The score, rounded down to one decimal place.\<close>

definition analysis_score :: "Analyzer \<Rightarrow> float64 \<Rightarrow> float64" where
  "analysis_score a r =
     (let score = f64_add (minScore a) (f64_mul r (f64_sub (maxScore a) (minScore a)))
      in f64_div (f64_of_int (f64_to_int (f64_mul score (Fin 10)))) (Fin 10))"

definition Analyze :: "Analyzer \<Rightarrow> float64 \<Rightarrow> Ad \<Rightarrow> AdAnalysis result" where
  "Analyze a r ad =
     (let score = analysis_score a r;
          strengths =
            (if CallToAction ad \<noteq> '''' then [''Strong call to action with clear incentive: '' @ CallToAction ad] else [])
            @ (if TargetAudience ad \<noteq> [] then [''Appeals to target audience's desire for progression''] else [])
            @ (if VisualElements ad \<noteq> [] then [''Effective visual elements: '' @ VisualElements ad ! 0] else []);
          suggestions =
            (if f64_lt score (Fin 9) then [''Consider adding social proof elements''] else [])
            @ (if f64_lt score (Fin 8) then [''Highlight immediate gameplay satisfaction''] else [])
            @ (if f64_lt score (Fin 7) then [''Optimize creative elements for better engagement''] else [])
      in Ok \<lparr>EffectivenessScore = score, Strengths = strengths, ImprovementSuggestions = suggestions\<rparr>)"

text \<open>The batch keeps one result for each identifier, the last one analysed.\<close>

fun BatchAnalyze ::
  "Analyzer \<Rightarrow> (float64 \<times> Ad) list \<Rightarrow> (string \<Rightarrow> AdAnalysis option) \<Rightarrow> (string \<Rightarrow> AdAnalysis option) result" where
  "BatchAnalyze a [] results = Ok results"
| "BatchAnalyze a ((r, ad) # xs) results =
     (case Analyze a r ad of
        Err e \<Rightarrow> Err (Wrapf (''failed to analyze ad '' @ AdID ad @ '': '') e '''')
      | Panic \<Rightarrow> Panic
      | Ok analysis \<Rightarrow> BatchAnalyze a xs (results(AdID ad \<mapsto> analysis)))"

lemma analysis_score_default:
  assumes "0 \<le> x" and "x < 1"
  shows "\<exists>k. 10 \<le> k \<and> k \<le> 100
    \<and> analysis_score (NewAnalyzer DefaultAnalyzerOptions) (Fin x) = Fin (round64 (of_int k / 10))"
proof -
  let ?y = "round64 (x * 9)" and ?a = "NewAnalyzer DefaultAnalyzerOptions"
  have a: "minScore ?a = Fin 1" "maxScore ?a = Fin 10"
    by (simp_all add: NewAnalyzer_def DefaultAnalyzerOptions_def)
  have s: "f64_sub (Fin 10) (Fin 1) = Fin 9"
    using f64_of_int_small[of 9] by (simp add: f64_sub_def f64_of_int_def)
  have y: "f64 (x * 9) = Fin ?y" "0 \<le> ?y" "?y \<le> 9"
    using f64_between[of 0 9 "x * 9"] assms by auto
  let ?z = "round64 (1 + ?y)"
  have z: "f64 (1 + ?y) = Fin ?z" "1 \<le> ?z" "?z \<le> 10"
    using f64_between[of 1 10 "1 + ?y"] y by auto
  let ?t = "round64 (?z * 10)"
  have t: "f64 (?z * 10) = Fin ?t" "10 \<le> ?t" "?t \<le> 100"
    using f64_between[of 10 100 "?z * 10"] z by auto
  let ?k = "f64_to_int (Fin ?t)"
  have k: "10 \<le> ?k" "?k \<le> 100"
    using f64_to_int_between[of 10 100 ?t] t by simp_all
  then have i: "f64_of_int ?k = Fin (of_int ?k)" by (intro f64_of_int_small) simp
  have "1 \<le> of_int ?k / (10::rat)" "of_int ?k / (10::rat) \<le> 10"
    using k of_int_le_iff[of 10 ?k, where 'a = rat] of_int_le_iff[of ?k 100, where 'a = rat] by simp_all
  then have d: "f64 (of_int ?k / 10) = Fin (round64 (of_int ?k / 10))"
    using f64_between(1)[of 1 10 "of_int ?k / 10"] by simp
  have "analysis_score ?a (Fin x) = Fin (round64 (of_int ?k / 10))"
    unfolding analysis_score_def Let_def a s f64_mul.simps(1) y(1) f64_add.simps(1) z(1) t(1) i
    by (simp add: d del: f64_to_int.simps)
  with k show ?thesis by blast
qed

text \<open>The analysis.  With the default options and a random number in [0, 1) the analysis always
  succeeds; its score is a tenth k/10 with k between 10 and 100, correctly rounded, so between 1 and
  10; and it makes three suggestions below a score of 7, two below 8, one below 9 and none from 9.\<close>

theorem analyze_score:
  assumes "0 \<le> x" and "x < 1"
  shows "\<exists>an k s. Analyze (NewAnalyzer DefaultAnalyzerOptions) (Fin x) ad = Ok an
    \<and> EffectivenessScore an = Fin s \<and> s = round64 (of_int k / 10) \<and> 10 \<le> k \<and> k \<le> 100 \<and> 1 \<le> s \<and> s \<le> 10
    \<and> length (ImprovementSuggestions an) = (if s < 7 then 3 else if s < 8 then 2 else if s < 9 then 1 else 0)
    \<and> length (Strengths an) \<le> 3"
proof -
  from analysis_score_default[OF assms] obtain k where k: "10 \<le> k" "k \<le> 100"
    "analysis_score (NewAnalyzer DefaultAnalyzerOptions) (Fin x) = Fin (round64 (of_int k / 10))" by blast
  have "1 \<le> of_int k / (10::rat)" "of_int k / (10::rat) \<le> 10"
    using k of_int_le_iff[of 10 k, where 'a = rat] of_int_le_iff[of k 100, where 'a = rat] by simp_all
  then have "1 \<le> round64 (of_int k / 10)" "round64 (of_int k / 10) \<le> 10"
    using f64_between(2,3)[of 1 10 "of_int k / 10"] by simp_all
  moreover have "\<exists>an. Analyze (NewAnalyzer DefaultAnalyzerOptions) (Fin x) ad = Ok an
      \<and> EffectivenessScore an = Fin (round64 (of_int k / 10))
      \<and> length (ImprovementSuggestions an) = (if round64 (of_int k / 10) < 7 then 3
          else if round64 (of_int k / 10) < 8 then 2 else if round64 (of_int k / 10) < 9 then 1 else 0)
      \<and> length (Strengths an) \<le> 3"
    by (auto simp: Analyze_def k(3) Let_def)
  ultimately show ?thesis using k(1,2) by blast
qed

theorem analyze_score_witness:
  "\<exists>an. Analyze (NewAnalyzer DefaultAnalyzerOptions) (Fin (1 / 2)) (NewAd 10 (sample_submission 3)) = Ok an"
  using analyze_score[of "1 / 2" "NewAd 10 (sample_submission 3)"] by auto
end
