(* ===== verification/Ad_Worker.thy ===== *)
theory Ad_Worker
  imports Queue_Progress Ad_Analyzer
begin

text \<open>
  A worker (\<^verbatim>\<open>internal/processor/worker.go\<close>, the type \<^verbatim>\<open>Worker\<close>): its life cycle, and its loop, which
  dequeues an ad, analyses it and completes it.
\<close>

section \<open>State and life cycle\<close>

definition i32 :: "int \<Rightarrow> int" where
  "i32 x = (x + 2 ^ 31) mod 2 ^ 32 - 2 ^ 31"

record WorkerOptions =
  MaxConcurrent :: int
  ProcessTimeAvg :: duration

definition DefaultWorkerOptions :: "int \<Rightarrow> WorkerOptions" where
  "DefaultWorkerOptions numCPU = \<lparr>MaxConcurrent = numCPU, ProcessTimeAvg = 2 * nsSecond\<rparr>"

text \<open>
  \<open>w_closed\<close> says that the shutdown channel is closed; \<open>launched\<close> counts the loops started, which is
  what the wait group waits for.
\<close>

record Worker =
  w_id :: string
  maxConcurrent :: int
  processTime :: duration
  isRunning :: bool
  activeJobs :: int
  processed :: int
  w_errors :: int
  w_closed :: bool
  launched :: nat

definition NewWorker :: "string \<Rightarrow> WorkerOptions \<Rightarrow> Worker" where
  "NewWorker uuid opts = \<lparr>w_id = ''worker-'' @ uuid, maxConcurrent = MaxConcurrent opts,
     processTime = ProcessTimeAvg opts, isRunning = False, activeJobs = 0, processed = 0, w_errors = 0,
     w_closed = False, launched = 0\<rparr>"

definition worker_Start :: "Worker \<Rightarrow> unit result \<times> Worker" where
  "worker_Start wk =
     (if isRunning wk
      then (Err (Errorf (''worker '' @ w_id wk @ '' is already running'')), wk)
      else (Ok (), wk\<lparr>isRunning := True, launched := launched wk + nat (maxConcurrent wk)\<rparr>))"

text \<open>Closing a closed channel panics; with waiting, the call then blocks until the loops have returned.\<close>

definition worker_Stop :: "Worker \<Rightarrow> unit result \<times> Worker" where
  "worker_Stop wk =
     (if \<not> isRunning wk then (Ok (), wk)
      else if w_closed wk then (Panic, wk\<lparr>isRunning := False\<rparr>)
      else (Ok (), wk\<lparr>isRunning := False, w_closed := True\<rparr>))"

record WorkerStats =
  st_id :: string
  st_running :: bool
  st_activeJobs :: int
  st_processed :: int
  st_errors :: int
  st_maxConcurrent :: int

definition Stats :: "Worker \<Rightarrow> WorkerStats" where
  "Stats wk = \<lparr>st_id = w_id wk, st_running = isRunning wk, st_activeJobs = activeJobs wk,
     st_processed = processed wk, st_errors = w_errors wk, st_maxConcurrent = maxConcurrent wk\<rparr>"

section \<open>The loop\<close>

text \<open>
  What an iteration reads from its environment: whether it sees a shutdown at its head, while it waits
  or while it processes; the rounds of \<^verbatim>\<open>Dequeue\<close>; the random number of the analysis; and the clock at
  \<^verbatim>\<open>Complete\<close>.
\<close>

record iter_env =
  i_stop :: bool
  i_fuel :: nat
  i_rounds :: "nat \<Rightarrow> round_env"
  i_wait_stop :: bool
  i_cancelled :: "goerr option"
  i_rand :: float64
  i_lock_now :: instant
  i_done_now :: instant

definition processAd :: "Analyzer \<Rightarrow> iter_env \<Rightarrow> Ad \<Rightarrow> AdAnalysis result" where
  "processAd a e ad = (case i_cancelled e of Some err \<Rightarrow> Err err | None \<Rightarrow> Analyze a (i_rand e) ad)"

definition add_active :: "int \<Rightarrow> Worker \<Rightarrow> Worker" where
  "add_active n wk = wk\<lparr>activeJobs := i32 (activeJobs wk + n)\<rparr>"

definition add_error :: "Worker \<Rightarrow> Worker" where
  "add_error wk = wk\<lparr>w_errors := i64 (w_errors wk + 1)\<rparr>"

definition add_processed :: "Worker \<Rightarrow> Worker" where
  "add_processed wk = wk\<lparr>processed := i64 (processed wk + 1)\<rparr>"

text \<open>How an iteration ends: the loop goes on, returns, is inside a \<^verbatim>\<open>Dequeue\<close> that has not returned, or panics.\<close>

datatype loop_status = Running | Exited | Blocked | Crashed

definition process_iteration ::
  "'r DistributedPriorityQueue \<Rightarrow> Analyzer \<Rightarrow> iter_env \<Rightarrow> Worker \<Rightarrow> 'r world \<Rightarrow> loop_status \<times> Worker \<times> 'r world"
  where
  "process_iteration q a e wk w =
     (if i_stop e then (Exited, wk, w)
      else case Dequeue (i_fuel e) q (i_rounds e) w of
        None \<Rightarrow> (Blocked, wk, w)
      | Some (Panic, w) \<Rightarrow> (Crashed, wk, w)
      | Some (Err err, w) \<Rightarrow>
          if err = ErrQueueEmpty then (if i_wait_stop e then Exited else Running, wk, w)
          else if err = ErrItemLocked then (Running, wk, w)
          else (if i_wait_stop e then Exited else Running, add_error wk, w)
      | Some (Ok ad, w) \<Rightarrow>
          let wk = add_active 1 wk;
              res = processAd a e ad;
              wk = add_active (- 1) wk
          in (case res of
                Err err \<Rightarrow> (Running, add_error wk, w)
              | Panic \<Rightarrow> (Crashed, wk, w)
              | Ok analysis \<Rightarrow>
                  (case Complete q (i_lock_now e) (i_done_now e) ad analysis w of
                     (Ok _, w) \<Rightarrow> (Running, add_processed wk, w)
                   | (Err err, w) \<Rightarrow> (Running, add_error wk, w)
                   | (Panic, w) \<Rightarrow> (Crashed, wk, w))))"

fun processLoop ::
  "'r DistributedPriorityQueue \<Rightarrow> Analyzer \<Rightarrow> iter_env list \<Rightarrow> Worker \<Rightarrow> 'r world \<Rightarrow> loop_status \<times> Worker \<times> 'r world"
  where
  "processLoop q a [] wk w = (Running, wk, w)"
| "processLoop q a (e # es) wk w =
     (case process_iteration q a e wk w of
        (Running, wk, w) \<Rightarrow> processLoop q a es wk w
      | r \<Rightarrow> r)"

section \<open>Life cycle properties\<close>

text \<open>A worker's life cycle.  A new worker starts as many loops as its options say, a running one is
  not started again, and stopping it twice is harmless.  But a worker that is started again after a
  stop panics at the next stop, because its channel is already closed.\<close>

theorem worker_lifecycle:
  "let wk0 = NewWorker uuid opts;
       wk1 = snd (worker_Start wk0);
       wk2 = snd (worker_Stop wk1);
       wk3 = snd (worker_Start wk2)
   in fst (worker_Start wk0) = Ok () \<and> isRunning wk1 \<and> launched wk1 = nat (MaxConcurrent opts)
    \<and> fst (worker_Start wk1) = Err (Errorf (''worker worker-'' @ uuid @ '' is already running''))
    \<and> snd (worker_Start wk1) = wk1
    \<and> fst (worker_Stop wk1) = Ok () \<and> \<not> isRunning wk2 \<and> worker_Stop wk2 = (Ok (), wk2)
    \<and> fst (worker_Start wk2) = Ok () \<and> fst (worker_Stop wk3) = Panic"
  by (simp add: Let_def NewWorker_def worker_Start_def worker_Stop_def)

section \<open>What an iteration does\<close>

lemma i32_small: "- (2 ^ 31) \<le> x \<Longrightarrow> x < 2 ^ 31 \<Longrightarrow> i32 x = x"
  by (simp add: i32_def)

lemma add_active_back:
  "- (2 ^ 31) \<le> activeJobs wk \<Longrightarrow> activeJobs wk < 2 ^ 31 - 1 \<Longrightarrow> add_active (- 1) (add_active 1 wk) = wk"
  by (simp add: add_active_def i32_small)

lemma worker_counters [simp]:
  "activeJobs (add_error wk) = activeJobs wk" "processed (add_error wk) = processed wk"
  "activeJobs (add_processed wk) = activeJobs wk" "w_errors (add_processed wk) = w_errors wk"
  "w_errors (add_error wk) = i64 (w_errors wk + 1)" "processed (add_processed wk) = i64 (processed wk + 1)"
  "w_errors (add_active n wk) = w_errors wk" "processed (add_active n wk) = processed wk"
  by (simp_all add: add_error_def add_processed_def add_active_def)

lemma Analyze_ok: "\<exists>an. Analyze a r ad = Ok an"
  by (simp add: Analyze_def Let_def)

text \<open>The analysis a worker attaches to an ad it has dequeued.\<close>

definition analysis_of :: "Analyzer \<Rightarrow> iter_env \<Rightarrow> Ad \<Rightarrow> AdAnalysis" where
  "analysis_of a e ad = (case Analyze a (i_rand e) ad of
      Ok an \<Rightarrow> an
    | _ \<Rightarrow> \<lparr>EffectivenessScore = NaN, Strengths = [], ImprovementSuggestions = []\<rparr>)"

lemma Analyze_analysis_of: "Analyze a (i_rand e) ad = Ok (analysis_of a e ad)"
  using Analyze_ok[of a "i_rand e" ad] by (auto simp: analysis_of_def)

text \<open>More fuel does not change a call that has returned.\<close>

lemma Dequeue_more_fuel: "Dequeue n q env w = Some r \<Longrightarrow> n \<le> m \<Longrightarrow> Dequeue m q env w = Some r"
proof (induction n arbitrary: m env w r)
  case (Suc n)
  from Suc.prems(2) obtain m' where m: "m = Suc m'" "n \<le> m'" by (cases m) auto
  let ?pop = "cache_PopFromQueue (cacheRepo q) (e_pop (env 0)) ads_queue w"
  obtain p w1 where pop: "?pop = (p, w1)" by (cases ?pop)
  have ih: "Dequeue n q (env \<circ> Suc) w2 = Some r2 \<Longrightarrow> Dequeue m' q (env \<circ> Suc) w2 = Some r2" for w2 r2
    by (rule Suc.IH[OF _ m(2)])
  show ?case
  proof (cases "\<not> closed q \<and> (\<exists>i. p = Ok i \<and> i \<noteq> '''')")
    case True
    then obtain i where i: "\<not> closed q" "p = Ok i" "i \<noteq> ''''" by blast
    obtain att w2 where att: "dequeue_fast q (env 0) i w1 = (att, w2)" by (cases "dequeue_fast q (env 0) i w1")
    show ?thesis
    proof (cases att)
      case (RetryThenRelease j)
      with Suc.prems(1) i obtain r2 where "Dequeue n q (env \<circ> Suc) w2 = Some r2"
        by (auto simp: Dequeue_step pop att)
      from ih[OF this] this Suc.prems(1) i RetryThenRelease show ?thesis
        by (simp add: Dequeue_step pop att m(1))
    next
      case Retry
      with Suc.prems(1) i have "Dequeue n q (env \<circ> Suc) w2 = Some r" by (simp add: Dequeue_step pop att)
      from ih[OF this] i Retry show ?thesis by (simp add: Dequeue_step pop att m(1))
    qed (use Suc.prems(1) i in \<open>simp add: Dequeue_step pop att m(1)\<close>)
  next
    case False
    with Suc.prems(1) show ?thesis by (cases p) (auto simp: Dequeue_step pop m(1))
  qed
qed simp

lemma iteration_completes:
  assumes "cacheRepo q = MemoryCache" and "\<not> closed q" and "store_wf (repo w)" and "locks (repo w) = Map.empty"
    and "queued_ids (repo w) \<noteq> {}" and "\<not> i_stop e" and "i_cancelled e = None" and "i_fuel e = Suc n"
    and "- (2 ^ 31) \<le> activeJobs wk" "activeJobs wk < 2 ^ 31 - 1"
  obtains b w' where "next_queued (repo w) b"
    and "process_iteration q a e wk w = (Running, add_processed wk, w')"
    and "store_wf (repo w')" and "locks (repo w') = Map.empty"
    and "lookup_ad (repo w') = (lookup_ad (repo w))(AdID b \<mapsto>
      completed (i_done_now e) (analysis_of a e (dequeued (instanceID q) 0 b)) (dequeued (instanceID q) 0 b))"
proof -
  have t: "dequeued i t b = dequeued i 0 b" for i t b
    by (simp add: dequeued_def set_status_bump_def Let_def)
  from dequeue_memory_one[OF assms(1-5), of "i_rounds e"] obtain b w1 where
    D: "Dequeue 1 q (i_rounds e) w = Some (Ok (dequeued (instanceID q) 0 b), w1)"
    and b: "next_queued (repo w) b" and wf: "store_wf (repo w1)" and nl: "locks (repo w1) = Map.empty"
    and l: "lookup_ad (repo w1) = (lookup_ad (repo w))(AdID b \<mapsto> dequeued (instanceID q) 0 b)"
    unfolding t[of _ "e_now _"] by blast
  let ?d = "dequeued (instanceID q) 0 b"
  have D': "Dequeue (i_fuel e) q (i_rounds e) w = Some (Ok ?d, w1)"
    using Dequeue_more_fuel[OF D, of "Suc n"] by (simp add: assms(8))
  have free: "lock_free (i_lock_now e) (AdID ?d) (instanceID q) (repo w1)" by (simp add: lock_free_def nl)
  have ld: "lookup_ad (repo w1) (AdID ?d) = Some ?d" using l by simp
  have ne: "AdID ?d \<noteq> ''''" using store_wf_lookup[OF wf ld] by simp
  note C = Complete_ok[OF free ne ld refl refl, of "i_done_now e" "analysis_of a e ?d"]
  obtain w2 where w2: "Complete q (i_lock_now e) (i_done_now e) ?d (analysis_of a e ?d) w1 = (Ok (), w2)"
    using C(1) by (cases "Complete q (i_lock_now e) (i_done_now e) ?d (analysis_of a e ?d) w1") auto
  have "process_iteration q a e wk w = (Running, add_processed wk, w2)"
    using assms(6,7) by (simp add: process_iteration_def D' processAd_def Analyze_analysis_of Let_def w2
      add_active_back[OF assms(9,10)])
  moreover have "store_wf (repo w2)"
    using filed.Complete_keeps[of w1 q "i_lock_now e" "i_done_now e" ?d "analysis_of a e ?d"] wf w2 by simp
  moreover have "locks (repo w2) = Map.empty" using C(3) w2 nl by auto
  moreover have "lookup_ad (repo w2) = (lookup_ad (repo w))(AdID b \<mapsto> completed (i_done_now e) (analysis_of a e ?d) ?d)"
    using C(2) w2 by (simp add: l)
  ultimately show ?thesis using that b by blast
qed

text \<open>A worker completes the next ad.  With the memory cache, when no lock is held, some ad is queued
  and no shutdown interrupts it, one iteration of the loop takes a first queued ad from queued to
  completed: with an analysis, a completion time, one more attempt and its version advanced four
  times.  The processed counter grows by one, the error and active counters stay, no other ad
  changes and no lock is left behind.\<close>

theorem worker_completes_next:
  assumes "cacheRepo q = MemoryCache" and "\<not> closed q" and "store_wf (repo w)" and "locks (repo w) = Map.empty"
    and "queued_ids (repo w) \<noteq> {}" and "\<not> i_stop e" and "i_cancelled e = None" and "i_fuel e = Suc n"
    and "- (2 ^ 31) \<le> activeJobs wk" "activeJobs wk < 2 ^ 31 - 1"
  shows "\<exists>b an w'. process_iteration q a e wk w = (Running, wk\<lparr>processed := i64 (processed wk + 1)\<rparr>, w')
    \<and> next_queued (repo w) b
    \<and> lookup_ad (repo w') = (lookup_ad (repo w))(AdID b \<mapsto> b\<lparr>Status := StatusCompleted, WorkerID := instanceID q,
        Attempts := i64 (Attempts b + 1), CompletedAt := Some (i_done_now e), Analysis := Some an,
        Version := i64 (i64 (i64 (i64 (Version b + 1) + 1) + 1) + 1)\<rparr>)
    \<and> locks (repo w') = Map.empty"
proof -
  from iteration_completes[OF assms, of a] obtain b w' where
    b: "next_queued (repo w) b" "process_iteration q a e wk w = (Running, add_processed wk, w')"
      "locks (repo w') = Map.empty"
      "lookup_ad (repo w') = (lookup_ad (repo w))(AdID b \<mapsto>
        completed (i_done_now e) (analysis_of a e (dequeued (instanceID q) 0 b)) (dequeued (instanceID q) 0 b))" by blast
  have "completed t an (dequeued i 0 b) = b\<lparr>Status := StatusCompleted, WorkerID := i,
        Attempts := i64 (Attempts b + 1), CompletedAt := Some t, Analysis := Some an,
        Version := i64 (i64 (i64 (i64 (Version b + 1) + 1) + 1) + 1)\<rparr>" for t an i
    by (simp add: completed_def dequeued_def set_status_bump_def bump_version_def IncrementAttempts_def
      AssignWorker_def SetAnalysisResults_def Let_def)
  then show ?thesis using b unfolding add_processed_def by metis
qed

definition sample_iteration :: iter_env where
  "sample_iteration = \<lparr>i_stop = False, i_fuel = 1, i_rounds = (\<lambda>_. \<lparr>e_now = 60, e_pop = [], e_find = []\<rparr>),
     i_wait_stop = False, i_cancelled = None, i_rand = Fin (1 / 2), i_lock_now = 61, i_done_now = 62\<rparr>"

theorem worker_completes_next_witness:
  "\<exists>an w'. process_iteration (NewDistributedPriorityQueue MemoryCache ''api-1'' DefaultQueueOptions)
      (NewAnalyzer DefaultAnalyzerOptions) sample_iteration
      (NewWorker ''u'' (DefaultWorkerOptions 4)) \<lparr>repo = sample_store, rds = ()\<rparr>
      = (Running, (NewWorker ''u'' (DefaultWorkerOptions 4))\<lparr>processed := 1\<rparr>, w')
    \<and> lookup_ad (repo w') ''b'' = Some ((sample_ad ''b'' 1 20 StatusQueued)\<lparr>Status := StatusCompleted,
        WorkerID := ''api-1'', Attempts := 1, CompletedAt := Some 62, Analysis := Some an, Version := 5\<rparr>)"
proof -
  let ?q = "NewDistributedPriorityQueue MemoryCache ''api-1'' DefaultQueueOptions :: unit DistributedPriorityQueue"
  let ?w = "\<lparr>repo = sample_store, rds = ()\<rparr>" and ?wk = "NewWorker ''u'' (DefaultWorkerOptions 4)"
  have q: "cacheRepo ?q = MemoryCache" "\<not> closed ?q" "instanceID ?q = ''api-1''"
    by (simp_all add: NewDistributedPriorityQueue_def)
  have "lookup_ad (repo ?w) ''b'' = Some (sample_ad ''b'' 1 20 StatusQueued)" by (simp add: sample_store_def)
  then have "''b'' \<in> queued_ids (repo ?w)" by (simp add: queued_ids_def)
  then have ne: "queued_ids (repo ?w) \<noteq> {}" by blast
  have h: "store_wf (repo ?w)" "locks (repo ?w) = Map.empty" by (simp_all add: sample_store_wf) (simp add: sample_store_def)
  have e: "\<not> i_stop sample_iteration" "i_cancelled sample_iteration = None" "i_fuel sample_iteration = Suc 0"
    "i_done_now sample_iteration = 62" by (simp_all add: sample_iteration_def)
  have k: "- (2 ^ 31) \<le> activeJobs ?wk" "activeJobs ?wk < 2 ^ 31 - 1" "processed ?wk = 0" by (simp_all add: NewWorker_def)
  from worker_completes_next[OF q(1,2) h ne e(1-3) k(1,2), of "NewAnalyzer DefaultAnalyzerOptions"] obtain b an w' where
    r: "process_iteration ?q (NewAnalyzer DefaultAnalyzerOptions) sample_iteration ?wk ?w =
        (Running, ?wk\<lparr>processed := i64 (processed ?wk + 1)\<rparr>, w')"
    and "next_queued (repo ?w) b"
    and l: "lookup_ad (repo w') = (lookup_ad (repo ?w))(AdID b \<mapsto> b\<lparr>Status := StatusCompleted,
        WorkerID := instanceID ?q, Attempts := i64 (Attempts b + 1),
        CompletedAt := Some (i_done_now sample_iteration), Analysis := Some an,
        Version := i64 (i64 (i64 (i64 (Version b + 1) + 1) + 1) + 1)\<rparr>)" by blast
  then have "b = sample_ad ''b'' 1 20 StatusQueued" by (intro next_queued_sample) simp
  then have "lookup_ad (repo w') ''b'' = Some ((sample_ad ''b'' 1 20 StatusQueued)\<lparr>Status := StatusCompleted,
      WorkerID := ''api-1'', Attempts := 1, CompletedAt := Some 62, Analysis := Some an, Version := 5\<rparr>)"
    using l by (simp add: q(3) e(4) i64_small)
  then show ?thesis using r by (simp add: k(3) i64_small) blast
qed

section \<open>What the loop does\<close>

text \<open>An iteration that nothing interrupts.\<close>

definition smooth :: "iter_env \<Rightarrow> bool" where
  "smooth e \<longleftrightarrow> \<not> i_stop e \<and> i_cancelled e = None \<and> 0 < i_fuel e"

lemma loop_completes_all:
  assumes "cacheRepo q = MemoryCache" and "\<not> closed q"
  shows "store_wf (repo w) \<Longrightarrow> locks (repo w) = Map.empty \<Longrightarrow> card (queued_ids (repo w)) = length es \<Longrightarrow>
    \<forall>e \<in> set es. smooth e \<Longrightarrow> - (2 ^ 31) \<le> activeJobs wk \<Longrightarrow> activeJobs wk < 2 ^ 31 - 1 \<Longrightarrow>
    \<exists>w'. processLoop q a es wk w = (Running, (add_processed ^^ length es) wk, w')
      \<and> locks (repo w') = Map.empty \<and> queued_ids (repo w') = {}
      \<and> (\<forall>k. if k \<in> queued_ids (repo w)
           then \<exists>b an t. lookup_ad (repo w) k = Some b
             \<and> lookup_ad (repo w') k = Some (completed t an (dequeued (instanceID q) 0 b))
           else lookup_ad (repo w') k = lookup_ad (repo w) k)"
proof (induction es arbitrary: w wk)
  case Nil
  then have "queued_ids (repo w) = {}" by simp
  then show ?case using Nil.prems(2) by simp
next
  case (Cons e es)
  have ne: "queued_ids (repo w) \<noteq> {}" using Cons.prems(3) by auto
  have e: "\<not> i_stop e" "i_cancelled e = None" "i_fuel e = Suc (i_fuel e - 1)"
    using Cons.prems(4) by (auto simp: smooth_def)
  from iteration_completes[OF assms Cons.prems(1,2) ne e Cons.prems(5,6), of a] obtain b w1 where
    b: "next_queued (repo w) b" and it: "process_iteration q a e wk w = (Running, add_processed wk, w1)"
    and wf: "store_wf (repo w1)" and nl: "locks (repo w1) = Map.empty"
    and l: "lookup_ad (repo w1) = (lookup_ad (repo w))(AdID b \<mapsto>
      completed (i_done_now e) (analysis_of a e (dequeued (instanceID q) 0 b)) (dequeued (instanceID q) 0 b))" by blast
  have lb: "lookup_ad (repo w) (AdID b) = Some b" "Status b = StatusQueued" using b by (auto simp: next_queued_def)
  have ids: "queued_ids (repo w1) = queued_ids (repo w) - {AdID b}" by (auto simp: queued_ids_def l)
  have mem: "AdID b \<in> queued_ids (repo w)" using lb by (auto simp: queued_ids_def)
  have c: "card (queued_ids (repo w1)) = length es" using Cons.prems(3) mem by (simp add: ids)
  from Cons.IH[OF wf nl c, of "add_processed wk"] Cons.prems(4-6) obtain w' where
    w': "processLoop q a es (add_processed wk) w1 = (Running, (add_processed ^^ length es) (add_processed wk), w')"
      "locks (repo w') = Map.empty" "queued_ids (repo w') = {}"
    and r: "\<forall>k. if k \<in> queued_ids (repo w1)
           then \<exists>b an t. lookup_ad (repo w1) k = Some b
             \<and> lookup_ad (repo w') k = Some (completed t an (dequeued (instanceID q) 0 b))
           else lookup_ad (repo w') k = lookup_ad (repo w1) k" by auto
  have "processLoop q a (e # es) wk w = (Running, (add_processed ^^ length (e # es)) wk, w')"
    by (simp add: it w'(1) funpow_swap1)
  moreover have "if k \<in> queued_ids (repo w)
      then \<exists>b an t. lookup_ad (repo w) k = Some b
        \<and> lookup_ad (repo w') k = Some (completed t an (dequeued (instanceID q) 0 b))
      else lookup_ad (repo w') k = lookup_ad (repo w) k" for k
  proof (cases "k = AdID b")
    case True
    then have "lookup_ad (repo w') k = lookup_ad (repo w1) k" using r ids by auto
    with True mem lb l show ?thesis by auto
  next
    case False
    with r[rule_format, of k] show ?thesis by (auto simp: ids l split: if_splits)
  qed
  ultimately show ?case using w'(2,3) by blast
qed

lemma processed_funpow: "activeJobs ((add_processed ^^ n) wk) = activeJobs wk \<and> w_errors ((add_processed ^^ n) wk) = w_errors wk"
  by (induction n) simp_all

lemma processed_count:
  "0 \<le> processed wk \<Longrightarrow> processed wk + int n < 2 ^ 63 \<Longrightarrow> processed ((add_processed ^^ n) wk) = processed wk + int n"
proof (induction n)
  case (Suc n)
  then show ?case by (simp add: i64_id in_i64_def)
qed simp

text \<open>C12. A worker completes every queued ad.  With the memory cache and no lock held, a worker that runs
  undisturbed for as many iterations as ads are queued completes each of them exactly once: the
  processed counter grows by their number, the error and active counters stay, every ad that was
  queued is completed with an analysis, no other ad has changed, and the queue is empty.\<close>

theorem worker_completes_all:
  assumes "cacheRepo q = MemoryCache" and "\<not> closed q" and "store_wf (repo w)" and "locks (repo w) = Map.empty"
    and "card (queued_ids (repo w)) = length es" and "\<forall>e \<in> set es. smooth e"
    and "- (2 ^ 31) \<le> activeJobs wk" "activeJobs wk < 2 ^ 31 - 1"
    and "0 \<le> processed wk" "processed wk + int (length es) < 2 ^ 63"
  shows "\<exists>wk' w'. processLoop q a es wk w = (Running, wk', w')
    \<and> processed wk' = processed wk + int (length es) \<and> w_errors wk' = w_errors wk \<and> activeJobs wk' = activeJobs wk
    \<and> queued_ids (repo w') = {}
    \<and> (\<forall>k. if k \<in> queued_ids (repo w)
         then \<exists>c. lookup_ad (repo w') k = Some c \<and> Status c = StatusCompleted \<and> Analysis c \<noteq> None
         else lookup_ad (repo w') k = lookup_ad (repo w) k)"
proof -
  from loop_completes_all[OF assms(1-8), of a] obtain w' where
    w': "processLoop q a es wk w = (Running, (add_processed ^^ length es) wk, w')" "queued_ids (repo w') = {}"
    and r: "\<forall>k. if k \<in> queued_ids (repo w)
           then \<exists>b an t. lookup_ad (repo w) k = Some b
             \<and> lookup_ad (repo w') k = Some (completed t an (dequeued (instanceID q) 0 b))
           else lookup_ad (repo w') k = lookup_ad (repo w) k" by blast
  have "if k \<in> queued_ids (repo w)
         then \<exists>c. lookup_ad (repo w') k = Some c \<and> Status c = StatusCompleted \<and> Analysis c \<noteq> None
         else lookup_ad (repo w') k = lookup_ad (repo w) k" for k
    using r[rule_format, of k] by (auto split: if_splits)
  with w' processed_funpow[of "length es" wk] processed_count[OF assms(9,10)] show ?thesis by blast
qed

theorem worker_completes_all_witness:
  "\<exists>wk' w'. processLoop (NewDistributedPriorityQueue MemoryCache ''api-1'' DefaultQueueOptions)
      (NewAnalyzer DefaultAnalyzerOptions) [sample_iteration, sample_iteration]
      (NewWorker ''u'' (DefaultWorkerOptions 4)) \<lparr>repo = sample_store, rds = ()\<rparr> = (Running, wk', w')
    \<and> processed wk' = 2 \<and> queued_ids (repo w') = {}"
proof -
  let ?q = "NewDistributedPriorityQueue MemoryCache ''api-1'' DefaultQueueOptions :: unit DistributedPriorityQueue"
  let ?w = "\<lparr>repo = sample_store, rds = ()\<rparr>" and ?wk = "NewWorker ''u'' (DefaultWorkerOptions 4)"
  let ?es = "[sample_iteration, sample_iteration]"
  have q: "cacheRepo ?q = MemoryCache" "\<not> closed ?q" by (simp_all add: NewDistributedPriorityQueue_def)
  have h: "store_wf (repo ?w)" "locks (repo ?w) = Map.empty" by (simp_all add: sample_store_wf) (simp add: sample_store_def)
  have "queued_ids sample_store = {''a'', ''b''}"
    by (auto simp: queued_ids_def sample_store_def split: if_splits)
  then have c: "card (queued_ids (repo ?w)) = length ?es" by simp
  have s: "\<forall>e \<in> set ?es. smooth e" by (simp add: smooth_def sample_iteration_def)
  have k: "- (2 ^ 31) \<le> activeJobs ?wk" "activeJobs ?wk < 2 ^ 31 - 1" "0 \<le> processed ?wk"
    "processed ?wk + int (length ?es) < 2 ^ 63" "processed ?wk = 0" by (simp_all add: NewWorker_def)
  from worker_completes_all[OF q h c s k(1-4), of "NewAnalyzer DefaultAnalyzerOptions"] obtain wk' w' where
    "processLoop ?q (NewAnalyzer DefaultAnalyzerOptions) ?es ?wk ?w = (Running, wk', w')"
    "processed wk' = processed ?wk + int (length ?es)" "queued_ids (repo w') = {}" by blast
  then show ?thesis by (simp add: k(5))
qed

section \<open>An interrupted ad\<close>

text \<open>The operations of the queue that do not name an ad.\<close>

fun leaves_alone :: "string \<Rightarrow> queue_op \<Rightarrow> bool" where
  "leaves_alone k (QSubmit now now' s i) = (i \<noteq> k)"
| "leaves_alone k (QComplete now now' ad an) = (AdID ad \<noteq> k)"
| "leaves_alone k op = True"

lemma Enqueue_other:
  "AdID ad \<noteq> k \<Longrightarrow> lookup_ad (repo (snd (snd (Enqueue q now ad w)))) k = lookup_ad (repo w) k"
  using update_ad_cases[of "repo w" "SetStatus now StatusQueued ad"]
  by (auto simp: Enqueue_def Let_def push_lookup split: result.split)

lemma Complete_other: "AdID ad \<noteq> k \<Longrightarrow> store_wf (repo w) \<Longrightarrow>
   lookup_ad (repo (snd (Complete q now now' ad an w))) k = lookup_ad (repo w) k"
proof -
  assume k: "AdID ad \<noteq> k" and wf: "store_wf (repo w)"
  consider "\<not> lock_free now (AdID ad) (instanceID q) (repo w)"
    | "lock_free now (AdID ad) (instanceID q) (repo w)"
      "\<And>b. lookup_ad (repo w) (AdID ad) = Some b \<Longrightarrow> Version b \<noteq> Version ad \<or> Status b \<noteq> StatusProcessing"
    | b where "lock_free now (AdID ad) (instanceID q) (repo w)" "lookup_ad (repo w) (AdID ad) = Some b"
      "Version b = Version ad" "Status b = StatusProcessing" by blast
  then show ?thesis
  proof cases
    case 3
    have "AdID b = AdID ad" "AdID ad \<noteq> ''''" using store_wf_lookup[OF wf 3(2)] by simp_all
    from Complete_ok(2)[OF 3(1) this(2) 3(2) this(1) 3(3,4)] k show ?thesis by simp
  qed (simp_all add: Complete_locked Complete_refused)
qed

lemma maintenance_processing:
  "never.all_ads (repo w) \<Longrightarrow> lookup_ad (repo w) k = Some a \<Longrightarrow> Status a = StatusProcessing \<Longrightarrow>
   lookup_ad (repo (StartMaintenanceLoop q evs w)) k = Some a"
proof (induction q evs w rule: StartMaintenanceLoop.induct)
  case (4 q now ord evs w)
  have "snd (RequeueExpired q now ord w) = w" by (rule requeue_idle_world[OF 4(2)])
  with 4 show ?case by simp
next
  case (5 q now ord evs w)
  have "lookup_ad (repo (snd (updateQueuePriorities q now ord w))) k = Some a"
    by (rule aging_other[OF never.all_ads_wf[OF 5(2)] 5(3)]) (simp add: 5(4))
  with 5 never.updateQueuePriorities_keeps[OF 5(2), of q now ord] show ?case by simp
next
  case (6 q now ord evs w)
  have "lookup_ad (repo (snd (BoostLowPriorityItems q now ord w))) k = Some a"
    by (rule boost_other[OF never.all_ads_wf[OF 6(2)] 6(3)]) (simp add: 6(4))
  with 6 never.BoostLowPriorityItems_keeps[OF 6(2), of q now ord] show ?case by simp
qed simp_all

lemma queue_run_processing:
  "never.all_ads (repo w) \<Longrightarrow> lookup_ad (repo w) k = Some a \<Longrightarrow> Status a = StatusProcessing \<Longrightarrow>
   \<forall>op \<in> set ops. leaves_alone k op \<Longrightarrow> lookup_ad (repo (fold (queue_step q) ops w)) k = Some a"
proof (induction ops arbitrary: w)
  case (Cons op ops)
  have "lookup_ad (repo (queue_step q op w)) k = Some a"
  proof (cases op)
    case (QSubmit now now' s i)
    then show ?thesis using Cons.prems(2,4)
      by (auto simp: Let_def Enqueue_other save_ad_def)
  next
    case (QDequeue fuel env)
    show ?thesis
    proof (cases "Dequeue fuel q env w")
      case (Some p)
      obtain r w' where p: "p = (r, w')" by (cases p)
      from Dequeue_cases[OF Some[unfolded p] never.all_ads_wf[OF Cons.prems(1)]] Cons.prems(2,3)
      have "lookup_ad (repo w') k = Some a" by auto
      then show ?thesis by (simp add: QDequeue Some p)
    qed (simp add: QDequeue Cons.prems(2))
  next
    case (QComplete now now' ad an)
    then show ?thesis using Cons.prems(2,4) never.all_ads_wf[OF Cons.prems(1)] by (simp add: Complete_other)
  next
    case (QMaintain evs)
    then show ?thesis using maintenance_processing[OF Cons.prems(1-3)] by simp
  qed
  moreover have "never.all_ads (repo (queue_step q op w))"
    using never.queue_run_keeps[where w = w and q = q and ops = "[op]"] Cons.prems(1) by (simp add: never_started_def)
  ultimately show ?case using Cons.IH Cons.prems(3,4) by simp
qed simp

text \<open>C29. An interrupted ad is lost.  When the processing of an ad is cut short by a shutdown, the loop only
  counts an error.  In a queue used from a new repository on, the ad then stays processing through
  every later submission of other ads, dequeue, completion of other ads and maintenance round: no
  operation gives it back.\<close>

theorem interrupted_ad_lost:
  assumes "w = fold (queue_step q) ops0 (fresh_world r)"
    and "Dequeue (i_fuel e) q (i_rounds e) w = Some (Ok ad, w1)"
    and "\<not> i_stop e" and "i_cancelled e = Some err"
    and "\<forall>op \<in> set ops. leaves_alone (AdID ad) op"
  shows "\<exists>wk' w'. process_iteration q a e wk w = (Running, wk', w')
    \<and> w_errors wk' = i64 (w_errors wk + 1) \<and> processed wk' = processed wk
    \<and> lookup_ad (repo (fold (queue_step q) ops w')) (AdID ad) = Some ad \<and> Status ad = StatusProcessing"
proof -
  have n: "never.all_ads (repo w)" by (simp add: assms(1) queue_run_never)
  from Dequeue_cases[OF assms(2) never.all_ads_wf[OF n]] have
    "lookup_ad (repo w1) (AdID ad) = Some ad" and s: "Status ad = StatusProcessing" by auto
  then have "lookup_ad (repo (fold (queue_step q) ops w1)) (AdID ad) = Some ad"
    using queue_run_processing[OF never.Dequeue_keeps[OF assms(2) n]] assms(5) by simp
  moreover have "process_iteration q a e wk w = (Running, add_error (add_active (- 1) (add_active 1 wk)), w1)"
    using assms(3,4) by (simp add: process_iteration_def assms(2) processAd_def Let_def)
  ultimately show ?thesis using s by simp
qed

definition interrupted_iteration :: iter_env where
  "interrupted_iteration = sample_iteration\<lparr>i_cancelled := Some (Errorf ''worker shutting down'')\<rparr>"

lemma dequeue_single:
  "\<exists>w1. Dequeue (i_fuel interrupted_iteration) (NewDistributedPriorityQueue MemoryCache ''api-1'' DefaultQueueOptions)
      (i_rounds interrupted_iteration) (fold (queue_step (NewDistributedPriorityQueue MemoryCache ''api-1'' DefaultQueueOptions))
        [QSubmit 10 11 (sample_submission 3) ''a''] (fresh_world ()))
    = Some (Ok (dequeued ''api-1'' 0 (enqueued 11 ((NewAd 10 (sample_submission 3))\<lparr>AdID := ''a''\<rparr>))), w1)"
proof -
  let ?q = "NewDistributedPriorityQueue MemoryCache ''api-1'' DefaultQueueOptions :: unit DistributedPriorityQueue"
  let ?ad = "(NewAd 10 (sample_submission 3))\<lparr>AdID := ''a''\<rparr>"
  let ?w = "fold (queue_step ?q) [QSubmit 10 11 (sample_submission 3) ''a''] (fresh_world ())"
  have q: "cacheRepo ?q = MemoryCache" "\<not> closed ?q" "instanceID ?q = ''api-1''"
    "MaxCapacity (options ?q) = 10000" by (simp_all add: NewDistributedPriorityQueue_def DefaultQueueOptions_def)
  let ?s = "\<lparr>repo = snd (save_ad ?ad NewMemoryRepository), rds = ()\<rparr>"
  have "enqueue_result ?q ?ad (repo ?s) = Ok ()"
    by (simp add: enqueue_result_def q save_ad_def NewMemoryRepository_def status_count_def)
  note E = Enqueue_cases(3,4)[OF _ this, of 11]
  have w: "?w = snd (snd (Enqueue ?q 11 ?ad ?s))" by (simp add: fresh_world_def Let_def)
  have l: "lookup_ad (repo ?w) = [''a'' \<mapsto> enqueued 11 ?ad]"
    unfolding w using E(1) by (simp add: save_ad_def NewMemoryRepository_def)
  have nl: "locks (repo ?w) = Map.empty"
    unfolding w using E(2) by (simp add: save_ad_def NewMemoryRepository_def)
  have wf: "store_wf (repo ?w)" using never.all_ads_wf[OF queue_run_never] .
  have "''a'' \<in> queued_ids (repo ?w)" unfolding queued_ids_def l by simp
  then have ne: "queued_ids (repo ?w) \<noteq> {}" by blast
  have t: "dequeued i t b = dequeued i 0 b" for i t b by (simp add: dequeued_def set_status_bump_def Let_def)
  from dequeue_memory_one[OF q(1,2) wf nl ne, of "i_rounds interrupted_iteration"] obtain b w1 where
    "Dequeue 1 ?q (i_rounds interrupted_iteration) ?w = Some (Ok (dequeued ''api-1'' 0 b), w1)"
    and b: "next_queued (repo ?w) b" unfolding t[of _ "e_now _"] q(3) by blast
  moreover have "b = enqueued 11 ?ad" using b unfolding next_queued_def l by (auto split: if_splits)
  moreover have "i_fuel interrupted_iteration = 1" by (simp add: interrupted_iteration_def sample_iteration_def)
  ultimately show ?thesis by auto
qed

theorem interrupted_ad_lost_witness:
  "\<exists>wk' w'. process_iteration (NewDistributedPriorityQueue MemoryCache ''api-1'' DefaultQueueOptions)
      (NewAnalyzer DefaultAnalyzerOptions) interrupted_iteration (NewWorker ''u'' (DefaultWorkerOptions 4))
      (fold (queue_step (NewDistributedPriorityQueue MemoryCache ''api-1'' DefaultQueueOptions))
        [QSubmit 10 11 (sample_submission 3) ''a''] (fresh_world ())) = (Running, wk', w') \<and> w_errors wk' = 1"
proof -
  from dequeue_single obtain w1 where D: "Dequeue (i_fuel interrupted_iteration)
      (NewDistributedPriorityQueue MemoryCache ''api-1'' DefaultQueueOptions) (i_rounds interrupted_iteration)
      (fold (queue_step (NewDistributedPriorityQueue MemoryCache ''api-1'' DefaultQueueOptions))
        [QSubmit 10 11 (sample_submission 3) ''a''] (fresh_world ()))
    = Some (Ok (dequeued ''api-1'' 0 (enqueued 11 ((NewAd 10 (sample_submission 3))\<lparr>AdID := ''a''\<rparr>))), w1)" by blast
  have i: "\<not> i_stop interrupted_iteration"
    "i_cancelled interrupted_iteration = Some (Errorf ''worker shutting down'')"
    by (simp_all add: interrupted_iteration_def sample_iteration_def)
  show ?thesis
    using interrupted_ad_lost[OF refl D i, of "[]" "NewAnalyzer DefaultAnalyzerOptions" "NewWorker ''u'' (DefaultWorkerOptions 4)"]
    by (auto simp: NewWorker_def i64_small)
qed

section \<open>The simulated processing time\<close>

text \<open>The wait before the analysis: the argument is the random number, in \<open>[0, 1)\<close>.\<close>

definition processing_time :: "duration \<Rightarrow> float64 \<Rightarrow> duration" where
  "processing_time avg u =
     (let variance = f64_mul (f64_of_int avg) (f64 (3 / 10))
      in f64_to_int (f64_sub (f64_add (f64_of_int avg) (f64_mul u variance)) (f64_div variance (Fin 2))))"

lemma variance_2s: "f64_mul (f64_of_int (2 * nsSecond)) (f64 (3 / 10)) = Fin 600000000"
proof -
  have c: "round64 (3 / 10) = of_int 5404319552844595 * 2 powi (- 2 - 52)"
    by (rule round64_eqI) (simp_all add: power_int_def power_divide)
  have f: "f64 (3 / 10) = Fin (5404319552844595 / 2 ^ 54)"
    using f64_between(1)[of 0 1 "3 / 10"] c by (simp add: power_int_def power_divide)
  have "round64 (2000000000 * (5404319552844595 / 2 ^ 54)) = of_int 5033164800000000 * 2 powi (29 - 52)"
    by (rule round64_eqI) (simp_all add: power_int_def power_divide)
  then have "f64 (2000000000 * (5404319552844595 / 2 ^ 54)) = Fin 600000000"
    using f64_between(1)[of 0 600000000 "2000000000 * (5404319552844595 / 2 ^ 54)"] by (simp add: power_int_def power_divide)
  then show ?thesis using f64_of_int_small[of "2 * nsSecond"] by (simp add: f nsSecond_def)
qed

text \<open>The wait of every worker the program makes lies within 15 percent of two seconds, where the
  comments of the code announce 30.\<close>

theorem processing_time_bounds:
  assumes "0 \<le> x" and "x \<le> 1"
  shows "1700000000 \<le> processing_time (ProcessTimeAvg (DefaultWorkerOptions n)) (Fin x)"
    and "processing_time (ProcessTimeAvg (DefaultWorkerOptions n)) (Fin x) \<le> 2300000000"
proof -
  have t: "f64_of_int (2 * nsSecond) = Fin 2000000000" using f64_of_int_small[of "2 * nsSecond"] by (simp add: nsSecond_def)
  have v: "f64_mul (Fin 2000000000) (f64 (3 / 10)) = Fin 600000000" using variance_2s by (simp only: t)
  have a: "f64 (x * 600000000) = Fin (round64 (x * 600000000))" "0 \<le> round64 (x * 600000000)"
    "round64 (x * 600000000) \<le> 600000000"
    using f64_between[of 0 600000000 "x * 600000000"] assms by simp_all
  let ?a = "round64 (x * 600000000)"
  have b: "f64 (2000000000 + ?a) = Fin (round64 (2000000000 + ?a))" "2000000000 \<le> round64 (2000000000 + ?a)"
    "round64 (2000000000 + ?a) \<le> 2600000000"
    using f64_between[of 2000000000 2600000000 "2000000000 + ?a"] a(2,3) by simp_all
  let ?b = "round64 (2000000000 + ?a)"
  have h: "f64 (600000000 / 2) = Fin 300000000"
    using f64_of_int_small[of 300000000] by (simp add: f64_of_int_def)
  have c: "f64 (?b + - 300000000) = Fin (round64 (?b + - 300000000))" "1700000000 \<le> round64 (?b + - 300000000)"
    "round64 (?b + - 300000000) \<le> 2300000000"
    using f64_between[of 1700000000 2300000000 "?b + - 300000000"] b(2,3) by simp_all
  have p: "processing_time (ProcessTimeAvg (DefaultWorkerOptions n)) (Fin x) = f64_to_int (Fin (round64 (?b + - 300000000)))"
    unfolding processing_time_def Let_def DefaultWorkerOptions_def WorkerOptions.simps t v
    by (simp only: f64_mul.simps(1) a(1) f64_add.simps(1) b(1) f64_div.simps(1) h f64_sub_def f64_neg.simps(1) c(1)
      zero_neq_numeral[symmetric] if_False)
  show "1700000000 \<le> processing_time (ProcessTimeAvg (DefaultWorkerOptions n)) (Fin x)"
    "processing_time (ProcessTimeAvg (DefaultWorkerOptions n)) (Fin x) \<le> 2300000000"
    unfolding p using f64_to_int_between[of 1700000000 2300000000 "round64 (?b + - 300000000)"] c(2,3) by simp_all
qed

end
