(* ===== verification/Interleaving.thy ===== *)
theory Interleaving
  imports Ad_Worker
begin

text \<open>
  The workers of a process as threads.  The component theories run one operation at a time; here the
  repository's methods are the atomic steps (each holds the mutex), and any number of threads that
  dequeue, complete, submit and age ads take them in any order.  The locks carry the identifier of
  the process, so they exclude no thread of it: what keeps two workers from one ad is the version and
  status check of \<^verbatim>\<open>AtomicStatusUpdate\<close>.  This theory proves that it does, and that the operations
  of \<open>Priority_Queue\<close> with the memory cache are runs of one thread.
\<close>

section \<open>Threads\<close>

text \<open>
  Where a thread stands between two calls of the repository, with the local copies the code holds
  there.  \<open>Reading\<close> to \<open>Returning\<close> are inside \<^verbatim>\<open>Dequeue\<close>, \<open>Working\<close> is the analysis, \<open>Completing\<close> to
  \<open>Writing\<close> are inside \<^verbatim>\<open>Complete\<close>, \<open>Submitting\<close> and \<open>Pushing\<close> inside \<^verbatim>\<open>SubmitAd\<close>, and \<open>Scanned\<close> and
  \<open>Aging\<close> inside the scans that change priorities.
\<close>

datatype dequeue_path = Fast | Slow

datatype pc =
    Idle
  | Popped string
  | NotPopped
  | Reading dequeue_path Ad
  | Locked dequeue_path Ad
  | Claimed dequeue_path string
  | Fetched dequeue_path string Ad
  | Returning string Ad
  | Working Ad
  | Completing Ad AdAnalysis
  | Finished string AdAnalysis
  | Writing string Ad
  | Releasing string
  | Submitting Ad
  | Pushing string int
  | Scanned Ad int
  | Aging Ad

inductive tstep :: "'r DistributedPriorityQueue \<Rightarrow> pc \<times> MemoryRepository \<Rightarrow> pc \<times> MemoryRepository \<Rightarrow> bool"
  for q where
pop: "mem_PopFromQueue ord ads_queue m = (Ok i, m') \<Longrightarrow> i \<noteq> '''' \<Longrightarrow> tstep q (Idle, m) (Popped i, m')"
| pop_none: "mem_PopFromQueue ord ads_queue m = (r, m') \<Longrightarrow> (\<forall>i. r = Ok i \<longrightarrow> i = '''') \<Longrightarrow> tstep q (Idle, m) (NotPopped, m')"
| read: "Get i m = Ok ad \<Longrightarrow> IsProcessable ad \<Longrightarrow> tstep q (Popped i, m) (Reading Fast ad, m)"
| read_retry: "Get i m = Err e \<or> Get i m = Ok ad \<and> \<not> IsProcessable ad \<Longrightarrow> tstep q (Popped i, m) (Idle, m)"
| find: "FindByPriority ord StatusQueued 1 m = Ok (ad # xs) \<Longrightarrow> tstep q (NotPopped, m) (Reading Slow ad, m)"
| find_none: "FindByPriority ord StatusQueued 1 m = Ok [] \<Longrightarrow> tstep q (NotPopped, m) (Idle, m)"
| lock: "AcquireLock now (AdID ad) (instanceID q) (LockTTL (options q)) m = (Ok True, m') \<Longrightarrow>
    tstep q (Reading p ad, m) (Locked p ad, m')"
| lock_taken: "AcquireLock now (AdID ad) (instanceID q) (LockTTL (options q)) m = (Ok False, m') \<Longrightarrow>
    tstep q (Reading p ad, m) (Idle, m')"
| claim: "AtomicStatusUpdate now (AdID ad) (Version ad) StatusQueued StatusProcessing m = (Ok (), m') \<Longrightarrow>
    tstep q (Locked p ad, m) (Claimed p (AdID ad), m')"
| claim_lost: "AtomicStatusUpdate now (AdID ad) (Version ad) StatusQueued StatusProcessing m = (Err e, m') \<Longrightarrow>
    tstep q (Locked p ad, m) (Idle, m')"
| fetch: "Get i m = Ok ad \<Longrightarrow>
    tstep q (Claimed p i, m) (Fetched p i (IncrementAttempts (AssignWorker (instanceID q) ad)), m)"
| fetch_lost: "Get i m = Err e \<Longrightarrow> tstep q (Claimed p i, m) (Idle, m)"
| assign: "update_ad ad m = (Ok (), ad', m') \<Longrightarrow>
    tstep q (Fetched p i ad, m) (case p of Fast \<Rightarrow> Returning i ad' | Slow \<Rightarrow> Working ad', m')"
| assign_lost: "update_ad ad m = (Err e, ad', m') \<Longrightarrow> tstep q (Fetched p i ad, m) (Idle, m')"
| unlock: "tstep q (Returning i ad, m) (Working ad, snd (ReleaseLock i (instanceID q) m))"
| work_lost: "tstep q (Working ad, m) (Idle, m)"
| relock: "AcquireLock now (AdID ad) (instanceID q) (LockTTL (options q)) m = (Ok True, m') \<Longrightarrow>
    tstep q (Working ad, m) (Completing ad an, m')"
| relock_taken: "AcquireLock now (AdID ad) (instanceID q) (LockTTL (options q)) m = (Ok False, m') \<Longrightarrow>
    tstep q (Working ad, m) (Idle, m')"
| finish: "AtomicStatusUpdate now (AdID ad) (Version ad) StatusProcessing StatusCompleted m = (Ok (), m') \<Longrightarrow>
    tstep q (Completing ad an, m) (Finished (AdID ad) an, m')"
| finish_lost: "AtomicStatusUpdate now (AdID ad) (Version ad) StatusProcessing StatusCompleted m = (Err e, m') \<Longrightarrow>
    tstep q (Completing ad an, m) (Releasing (AdID ad), m')"
| reread: "Get i m = Ok ad \<Longrightarrow> tstep q (Finished i an, m) (Writing i (SetAnalysisResults an ad), m)"
| reread_lost: "Get i m = Err e \<Longrightarrow> tstep q (Finished i an, m) (Releasing i, m)"
| record_analysis: "update_ad ad m = (r, ad', m') \<Longrightarrow> tstep q (Writing i ad, m) (Releasing i, m')"
| release: "tstep q (Releasing i, m) (Idle, snd (ReleaseLock i (instanceID q) m))"
| submit: "lookup_ad m (AdID ad) = None \<Longrightarrow> Version ad = 1 \<Longrightarrow> Status ad = StatusSubmitted \<Longrightarrow>
    save_ad ad m = (Ok i, m') \<Longrightarrow> tstep q (Idle, m) (Submitting ad, m')"
| refuse: "tstep q (Submitting ad, m) (Idle, m)"
| enqueue: "update_ad (SetStatus now StatusQueued ad) m = (Ok (), ad', m') \<Longrightarrow>
    tstep q (Submitting ad, m) (Pushing (AdID ad') (EffectivePriority ad'), m')"
| enqueue_lost: "update_ad (SetStatus now StatusQueued ad) m = (Err e, ad', m') \<Longrightarrow>
    tstep q (Submitting ad, m) (Idle, m')"
| push: "mem_PushToQueue ads_queue i n m = (r, m') \<Longrightarrow> tstep q (Pushing i n, m) (Idle, m')"
| scan: "lookup_ad m i = Some ad \<Longrightarrow> Status ad = StatusQueued \<Longrightarrow> tstep q (Idle, m) (Scanned ad n, m)"
| reprioritise: "Get (AdID ad) m = Ok ad' \<Longrightarrow> Version ad' = Version ad \<Longrightarrow>
    tstep q (Scanned ad n, m) (Aging (ad'\<lparr>EffectivePriority := n\<rparr>), m)"
| reprioritise_lost: "tstep q (Scanned ad n, m) (Idle, m)"
| age: "update_ad ad m = (Ok (), ad', m') \<Longrightarrow> tstep q (Aging ad, m) (Pushing (AdID ad') (EffectivePriority ad'), m')"
| age_lost: "update_ad ad m = (Err e, ad', m') \<Longrightarrow> tstep q (Aging ad, m) (Idle, m')"
| late_release: "tstep q (p, m) (p, snd (ReleaseLock i (instanceID q) m))"

text \<open>A run of \<open>n\<close> steps of the whole process: at each step one thread moves.\<close>

inductive run :: "'r DistributedPriorityQueue \<Rightarrow> nat \<Rightarrow> (nat \<Rightarrow> pc) \<Rightarrow> MemoryRepository \<Rightarrow> bool" for q where
  run_start: "run q 0 (\<lambda>_. Idle) NewMemoryRepository"
| run_step: "run q n pcs m \<Longrightarrow> tstep q (pcs t, m) (p, m') \<Longrightarrow> run q (Suc n) (pcs(t := p)) m'"

section \<open>The invariant\<close>

text \<open>The ad a thread owns and the status it has then; the copies that agree with the store; the copies
  of a scan.\<close>

fun owns :: "pc \<Rightarrow> (string \<times> AdStatus) option" where
  "owns (Claimed p i) = Some (i, StatusProcessing)"
| "owns (Fetched p i ad) = Some (AdID ad, StatusProcessing)"
| "owns (Returning i ad) = Some (AdID ad, StatusProcessing)"
| "owns (Working ad) = Some (AdID ad, StatusProcessing)"
| "owns (Completing ad an) = Some (AdID ad, StatusProcessing)"
| "owns (Finished i an) = Some (i, StatusCompleted)"
| "owns (Writing i ad) = Some (AdID ad, StatusCompleted)"
| "owns (Submitting ad) = Some (AdID ad, StatusSubmitted)"
| "owns _ = None"

fun owned_copy :: "pc \<Rightarrow> Ad option" where
  "owned_copy (Fetched p i ad) = Some ad"
| "owned_copy (Returning i ad) = Some ad"
| "owned_copy (Working ad) = Some ad"
| "owned_copy (Completing ad an) = Some ad"
| "owned_copy (Writing i ad) = Some ad"
| "owned_copy (Submitting ad) = Some ad"
| "owned_copy _ = None"

fun scanned_copy :: "pc \<Rightarrow> Ad option" where
  "scanned_copy (Scanned ad n) = Some ad"
| "scanned_copy (Aging ad) = Some ad"
| "scanned_copy _ = None"

definition pc_ok :: "MemoryRepository \<Rightarrow> pc \<Rightarrow> bool" where
  "pc_ok m p \<longleftrightarrow>
     (\<forall>i s. owns p = Some (i, s) \<longrightarrow> (\<exists>b. lookup_ad m i = Some b \<and> Status b = s))
   \<and> (\<forall>a. owned_copy p = Some a \<longrightarrow>
        (\<exists>b. lookup_ad m (AdID a) = Some b \<and> Version b = Version a \<and> Status b = Status a))
   \<and> (\<forall>a. scanned_copy p = Some a \<longrightarrow> Status a = StatusQueued \<and>
        (\<exists>b. lookup_ad m (AdID a) = Some b \<and> Version a \<le> Version b
           \<and> (Version a = Version b \<longrightarrow> Status b = StatusQueued)))"

definition exclusive :: "(nat \<Rightarrow> pc) \<Rightarrow> bool" where
  "exclusive pcs \<longleftrightarrow>
     (\<forall>t t' i s s'. owns (pcs t) = Some (i, s) \<and> owns (pcs t') = Some (i, s') \<longrightarrow> t = t')"

definition versions_upto :: "int \<Rightarrow> MemoryRepository \<Rightarrow> bool" where
  "versions_upto n m \<longleftrightarrow> (\<forall>i a. lookup_ad m i = Some a \<longrightarrow> AdID a = i \<and> i \<noteq> '''' \<and> 1 \<le> Version a \<and> Version a \<le> n)"

definition run_inv :: "nat \<Rightarrow> (nat \<Rightarrow> pc) \<Rightarrow> MemoryRepository \<Rightarrow> bool" where
  "run_inv n pcs m \<longleftrightarrow> (\<forall>t. pc_ok m (pcs t)) \<and> exclusive pcs \<and> versions_upto (int n + 1) m"

text \<open>A step that leaves every ad but for its effective priority as it is.\<close>

definition same_ads :: "MemoryRepository \<Rightarrow> MemoryRepository \<Rightarrow> bool" where
  "same_ads m m' \<longleftrightarrow> (\<forall>i. rel_option (\<lambda>a b. Version a = Version b \<and> Status a = Status b \<and> AdID a = AdID b)
     (lookup_ad m i) (lookup_ad m' i))"

text \<open>A step that writes one ad, at the next version.\<close>

definition writes_ad :: "string \<Rightarrow> MemoryRepository \<Rightarrow> MemoryRepository \<Rightarrow> bool" where
  "writes_ad i m m' \<longleftrightarrow> (\<exists>b. lookup_ad m' = (lookup_ad m)(i \<mapsto> b) \<and> AdID b = i \<and> i \<noteq> ''''
     \<and> Version b = (case lookup_ad m i of None \<Rightarrow> 1 | Some a \<Rightarrow> Version a + 1))"

lemma same_ads_refl [simp]: "same_ads m m"
  by (simp add: same_ads_def option.rel_refl)

lemma same_ads_ads: "ads m' = ads m \<Longrightarrow> same_ads m m'"
  by (simp add: same_ads_def option.rel_refl)

lemma same_ads_lookup:
  assumes "same_ads m m'" "lookup_ad m i = Some a"
  shows "\<exists>b. lookup_ad m' i = Some b \<and> Version b = Version a \<and> Status b = Status a \<and> AdID b = AdID a"
  using assms(1)[unfolded same_ads_def, rule_format, of i] assms(2) by (cases "lookup_ad m' i") auto

lemma pc_okI:
  assumes "\<And>i s. owns p = Some (i, s) \<Longrightarrow> \<exists>b. lookup_ad m i = Some b \<and> Status b = s"
    and "\<And>a. owned_copy p = Some a \<Longrightarrow>
      \<exists>b. lookup_ad m (AdID a) = Some b \<and> Version b = Version a \<and> Status b = Status a"
    and "\<And>a. scanned_copy p = Some a \<Longrightarrow> Status a = StatusQueued \<and>
      (\<exists>b. lookup_ad m (AdID a) = Some b \<and> Version a \<le> Version b \<and> (Version a = Version b \<longrightarrow> Status b = StatusQueued))"
  shows "pc_ok m p"
  using assms by (simp add: pc_ok_def)

lemma pc_okD:
  assumes "pc_ok m p"
  shows "owns p = Some (i, s) \<Longrightarrow> \<exists>b. lookup_ad m i = Some b \<and> Status b = s"
    and "owned_copy p = Some a \<Longrightarrow>
      \<exists>b. lookup_ad m (AdID a) = Some b \<and> Version b = Version a \<and> Status b = Status a"
    and "scanned_copy p = Some a \<Longrightarrow> Status a = StatusQueued \<and>
      (\<exists>b. lookup_ad m (AdID a) = Some b \<and> Version a \<le> Version b \<and> (Version a = Version b \<longrightarrow> Status b = StatusQueued))"
  using assms by (auto simp: pc_ok_def)

lemma pc_ok_same:
  assumes "same_ads m m'" "pc_ok m p"
  shows "pc_ok m' p"
proof (rule pc_okI)
  show "\<exists>b. lookup_ad m' i = Some b \<and> Status b = s" if "owns p = Some (i, s)" for i s
    using pc_okD(1)[OF assms(2) that] same_ads_lookup[OF assms(1)] by metis
  show "\<exists>b. lookup_ad m' (AdID a) = Some b \<and> Version b = Version a \<and> Status b = Status a"
    if "owned_copy p = Some a" for a
    using pc_okD(2)[OF assms(2) that] same_ads_lookup[OF assms(1)] by metis
  show "Status a = StatusQueued \<and> (\<exists>b. lookup_ad m' (AdID a) = Some b \<and> Version a \<le> Version b
      \<and> (Version a = Version b \<longrightarrow> Status b = StatusQueued))" if "scanned_copy p = Some a" for a
    using pc_okD(3)[OF assms(2) that] same_ads_lookup[OF assms(1)] by metis
qed

lemma owned_copy_owns: "owned_copy p = Some a \<Longrightarrow> \<exists>s. owns p = Some (AdID a, s)"
  by (cases p) auto

lemma writes_ad_lookup:
  assumes "writes_ad i m m'" "lookup_ad m j = Some a"
  shows "\<exists>b. lookup_ad m' j = Some b \<and> (if j = i then Version b = Version a + 1 else b = a)"
proof -
  obtain b where b: "lookup_ad m' = (lookup_ad m)(i \<mapsto> b)"
    "Version b = (case lookup_ad m i of None \<Rightarrow> 1 | Some a \<Rightarrow> Version a + 1)"
    using assms(1) unfolding writes_ad_def by blast
  then show ?thesis using assms(2) by (cases "j = i") auto
qed

lemma pc_ok_write:
  assumes "writes_ad i m m'" "pc_ok m p" "\<And>s. owns p \<noteq> Some (i, s)"
  shows "pc_ok m' p"
proof (rule pc_okI)
  note W = writes_ad_lookup[OF assms(1)]
  show "\<exists>b. lookup_ad m' j = Some b \<and> Status b = s" if "owns p = Some (j, s)" for j s
  proof -
    from assms(3) that have "j \<noteq> i" by auto
    then show ?thesis using pc_okD(1)[OF assms(2) that] W by (metis (full_types))
  qed
  show "\<exists>b. lookup_ad m' (AdID a) = Some b \<and> Version b = Version a \<and> Status b = Status a"
    if c: "owned_copy p = Some a" for a
  proof -
    from owned_copy_owns[OF c] assms(3) have "AdID a \<noteq> i" by auto
    then show ?thesis using pc_okD(2)[OF assms(2) c] W by (metis (full_types))
  qed
  show "Status a = StatusQueued \<and> (\<exists>b. lookup_ad m' (AdID a) = Some b \<and> Version a \<le> Version b
      \<and> (Version a = Version b \<longrightarrow> Status b = StatusQueued))" if "scanned_copy p = Some a" for a
  proof -
    from pc_okD(3)[OF assms(2) that] obtain b where b: "Status a = StatusQueued" "lookup_ad m (AdID a) = Some b"
      "Version a \<le> Version b" "Version a = Version b \<longrightarrow> Status b = StatusQueued" by blast
    from W[OF b(2)] obtain b' where "lookup_ad m' (AdID a) = Some b'"
      "if AdID a = i then Version b' = Version b + 1 else b' = b" by blast
    with b show ?thesis by (cases "AdID a = i") auto
  qed
qed

lemma versions_upto_same: "same_ads m m' \<Longrightarrow> versions_upto n m \<Longrightarrow> n \<le> n' \<Longrightarrow> versions_upto n' m'"
  unfolding versions_upto_def
proof (intro allI impI)
  fix i a
  assume s: "same_ads m m'" and v: "\<forall>i a. lookup_ad m i = Some a \<longrightarrow> AdID a = i \<and> i \<noteq> '''' \<and> 1 \<le> Version a \<and> Version a \<le> n"
    and n: "n \<le> n'" and l: "lookup_ad m' i = Some a"
  from s l obtain b where "lookup_ad m i = Some b" "Version b = Version a" "AdID b = AdID a"
    by (cases "lookup_ad m i") (auto simp: same_ads_def dest: spec[of _ i])
  with v n show "AdID a = i \<and> i \<noteq> '''' \<and> 1 \<le> Version a \<and> Version a \<le> n'" by fastforce
qed

lemma versions_upto_write:
  assumes "writes_ad i m m'" "versions_upto n m" "1 \<le> n"
  shows "versions_upto (n + 1) m'"
proof -
  obtain b where b: "lookup_ad m' = (lookup_ad m)(i \<mapsto> b)" "AdID b = i" "i \<noteq> ''''"
    "Version b = (case lookup_ad m i of None \<Rightarrow> 1 | Some a \<Rightarrow> Version a + 1)"
    using assms(1) unfolding writes_ad_def by blast
  have "AdID a = j \<and> j \<noteq> '''' \<and> 1 \<le> Version a \<and> Version a \<le> n" if "lookup_ad m j = Some a" for j a
    using assms(2) that by (auto simp: versions_upto_def)
  note V = this
  have "1 \<le> Version b \<and> Version b \<le> n + 1"
    using V[of i] assms(3) by (cases "lookup_ad m i") (auto simp: b(4))
  then show ?thesis using V b(2,3) unfolding versions_upto_def b(1) by (auto dest!: V)
qed

section \<open>Preservation\<close>

lemma exclusiveD: "exclusive pcs \<Longrightarrow> owns (pcs t) = Some (i, s) \<Longrightarrow> owns (pcs t') = Some (i, s') \<Longrightarrow> t = t'"
  unfolding exclusive_def by blast

lemma run_inv_exclusive: "run_inv n pcs m \<Longrightarrow> exclusive pcs"
  by (simp add: run_inv_def)

lemma exclusive_update:
  assumes "exclusive pcs" and "\<And>i s u s'. owns p = Some (i, s) \<Longrightarrow> u \<noteq> t \<Longrightarrow> owns (pcs u) \<noteq> Some (i, s')"
  shows "exclusive (pcs(t := p))"
  unfolding exclusive_def
proof (intro allI impI, elim conjE)
  fix u u' i s s'
  assume "owns ((pcs(t := p)) u) = Some (i, s)" "owns ((pcs(t := p)) u') = Some (i, s')"
  then show "u = u'"
    using assms(2) exclusiveD[OF assms(1)] by (cases "u = t"; cases "u' = t") auto
qed

text \<open>The two ways in which a step keeps the invariant.\<close>

lemma run_inv_same:
  assumes "run_inv n pcs m" "same_ads m m'" "pc_ok m' p"
    and "\<And>i s. owns p = Some (i, s) \<Longrightarrow> \<exists>s'. owns (pcs t) = Some (i, s')"
  shows "run_inv (Suc n) (pcs(t := p)) m'"
proof -
  have "exclusive (pcs(t := p))"
    by (rule exclusive_update[OF run_inv_exclusive[OF assms(1)]])
      (use assms(4) run_inv_exclusive[OF assms(1)] in \<open>blast dest: exclusiveD\<close>)
  moreover have "pc_ok m' ((pcs(t := p)) u)" for u
    using assms(1,3) pc_ok_same[OF assms(2)] by (simp add: run_inv_def)
  moreover have "versions_upto (int (Suc n) + 1) m'"
    using assms(1) by (intro versions_upto_same[OF assms(2), of "int n + 1"]) (simp_all add: run_inv_def)
  ultimately show ?thesis by (simp add: run_inv_def)
qed

lemma run_inv_write:
  assumes "run_inv n pcs m" "writes_ad i m m'" "pc_ok m' p"
    and "\<And>u s. u \<noteq> t \<Longrightarrow> owns (pcs u) \<noteq> Some (i, s)"
    and "\<And>j s. owns p = Some (j, s) \<Longrightarrow> j = i"
  shows "run_inv (Suc n) (pcs(t := p)) m'"
proof -
  have "exclusive (pcs(t := p))"
    by (rule exclusive_update[OF run_inv_exclusive[OF assms(1)]]) (use assms(4,5) in blast)
  moreover have "pc_ok m' ((pcs(t := p)) u)" for u
    using assms(1,3,4) pc_ok_write[OF assms(2)] by (simp add: run_inv_def)
  moreover have "versions_upto (int (Suc n) + 1) m'"
    using assms(1) versions_upto_write[OF assms(2), of "int n + 1"] by (simp add: run_inv_def algebra_simps)
  ultimately show ?thesis by (simp add: run_inv_def)
qed

text \<open>No other thread owns an ad that this thread owns, that is queued, or that is not stored.\<close>

lemma others_not_owner:
  assumes "run_inv n pcs m"
    and "(\<exists>s. owns (pcs t) = Some (i, s)) \<or> (\<exists>b. lookup_ad m i = Some b \<and> Status b = StatusQueued) \<or> lookup_ad m i = None"
    and "u \<noteq> t"
  shows "owns (pcs u) \<noteq> Some (i, s)"
proof
  assume o: "owns (pcs u) = Some (i, s)"
  have "pc_ok m (pcs u)" using assms(1) by (simp add: run_inv_def)
  from pc_okD(1)[OF this o] obtain b where b: "lookup_ad m i = Some b" "Status b = s" by blast
  have "s \<noteq> StatusQueued" using o by (cases "pcs u") auto
  with b assms(2) have "\<exists>s'. owns (pcs t) = Some (i, s')" by auto
  with assms(1,3) o show False unfolding run_inv_def exclusive_def by metis
qed

text \<open>Below the bound on the number of steps a version does not wrap around.\<close>

lemma update_ad_writes:
  assumes "versions_upto n m" "n < 2 ^ 62" and "update_ad a m = (Ok (), a', m')"
  shows "writes_ad (AdID a) m m' \<and> lookup_ad m' = (lookup_ad m)(AdID a \<mapsto> a') \<and> AdID a' = AdID a
    \<and> Version a' = Version a + 1 \<and> Status a' = Status a \<and> EffectivePriority a' = EffectivePriority a
    \<and> (\<exists>b. lookup_ad m (AdID a) = Some b \<and> Version b = Version a)"
proof -
  from assms(3) obtain b where b: "lookup_ad m (AdID a) = Some b" "Version b = Version a" "AdID a \<noteq> ''''"
    "a' = bump_version a" "m' = put_ad (AdID a) (bump_version a) m"
    using update_ad_cases[of m a] by auto
  have "1 \<le> Version b \<and> Version b \<le> n" using assms(1) b(1) unfolding versions_upto_def by blast
  then have "1 \<le> Version a" "Version a \<le> n" using b(2) by simp_all
  then have "i64 (Version a + 1) = Version a + 1" using assms(2) by (intro i64_id) (simp add: in_i64_def)
  moreover have "lookup_ad m' = (lookup_ad m)(AdID a \<mapsto> a')" using b by auto
  ultimately show ?thesis using b by (auto simp: writes_ad_def)
qed

lemma AtomicStatusUpdate_writes:
  assumes "versions_upto n m" "n < 2 ^ 62" and "AtomicStatusUpdate now i v f s m = (Ok (), m')"
  shows "writes_ad i m m' \<and> (\<exists>b b'. lookup_ad m i = Some b \<and> Status b = f \<and> Version b = v
    \<and> lookup_ad m' = (lookup_ad m)(i \<mapsto> b') \<and> Status b' = s \<and> Version b' = v + 1)"
proof -
  from assms(3) obtain b where b: "lookup_ad m i = Some b" "Version b = v" "Status b = f"
    "m' = change_ad i (set_status_bump now s) m"
    using AtomicStatusUpdate_cases[of now i v f s m] by auto
  with assms(1) have "1 \<le> v" "v \<le> n" "AdID b = i" "i \<noteq> ''''" by (auto simp: versions_upto_def)
  moreover from this have "i64 (v + 1) = v + 1" using assms(2) by (intro i64_id) (simp add: in_i64_def)
  moreover have "lookup_ad m' = (lookup_ad m)(i \<mapsto> set_status_bump now s b)"
    using b by (auto simp: map_of_map_entry)
  ultimately show ?thesis using b by (auto simp: writes_ad_def)
qed

lemma pc_ok_unowned:
  "owns p = None \<Longrightarrow> scanned_copy p = None \<Longrightarrow> pc_ok m p"
  using owned_copy_owns[of p] by (intro pc_okI) auto

lemma run_inv_pc: "run_inv n pcs m \<Longrightarrow> pc_ok m (pcs t)"
  by (simp add: run_inv_def)

text \<open>A thread that gives up what it owns, or never owned anything.\<close>

lemma run_inv_quiet:
  assumes "run_inv n pcs m" "ads m' = ads m" "owns p = None" "scanned_copy p = None"
  shows "run_inv (Suc n) (pcs(t := p)) m'"
  by (rule run_inv_same[OF assms(1) same_ads_ads[OF assms(2)] pc_ok_unowned[OF assms(3,4)]]) (simp add: assms(3))

text \<open>A thread that goes on with what it owns, while the ads stay.\<close>

lemma run_inv_keep:
  assumes "run_inv n pcs m" "ads m' = ads m" "pc_ok m p"
    and "\<And>i s. owns p = Some (i, s) \<Longrightarrow> \<exists>s'. owns (pcs t) = Some (i, s')"
  shows "run_inv (Suc n) (pcs(t := p)) m'"
  by (rule run_inv_same[OF assms(1) same_ads_ads[OF assms(2)] pc_ok_same[OF same_ads_ads[OF assms(2)] assms(3)] assms(4)])

text \<open>A thread that writes an ad with a success of \<^verbatim>\<open>Update\<close>.\<close>

lemma run_inv_update:
  assumes "run_inv n pcs m" "int n + 1 < 2 ^ 62" "update_ad a m = (Ok (), a', m')" "pc_ok m' p"
    and "(\<exists>s. owns (pcs t) = Some (AdID a, s)) \<or> (\<exists>b. lookup_ad m (AdID a) = Some b \<and> Status b = StatusQueued)"
    and "\<And>j s. owns p = Some (j, s) \<Longrightarrow> j = AdID a"
  shows "run_inv (Suc n) (pcs(t := p)) m'"
proof -
  have "versions_upto (int n + 1) m" using assms(1) by (simp add: run_inv_def)
  from update_ad_writes[OF this assms(2,3)] have w: "writes_ad (AdID a) m m'" by blast
  have "owns (pcs u) \<noteq> Some (AdID a, s)" if "u \<noteq> t" for u s
  proof -
    have "(\<exists>s. owns (pcs t) = Some (AdID a, s)) \<or> (\<exists>b. lookup_ad m (AdID a) = Some b \<and> Status b = StatusQueued)
        \<or> lookup_ad m (AdID a) = None" using assms(5) by auto
    then show ?thesis by (rule others_not_owner[OF assms(1) _ that])
  qed
  then show ?thesis by (rule run_inv_write[OF assms(1) w assms(4) _ assms(6)])
qed

lemma run_inv_status:
  assumes "run_inv n pcs m" "int n + 1 < 2 ^ 62" "AtomicStatusUpdate now i v f s m = (Ok (), m')"
    and "(\<exists>s. owns (pcs t) = Some (i, s)) \<or> f = StatusQueued"
    and "owns p = Some (i, s)" "owned_copy p = None" "scanned_copy p = None"
  shows "run_inv (Suc n) (pcs(t := p)) m'"
proof -
  have "versions_upto (int n + 1) m" using assms(1) by (simp add: run_inv_def)
  note W = AtomicStatusUpdate_writes[OF this assms(2,3)]
  have "pc_ok m' p" using W assms(5-7) by (intro pc_okI) auto
  moreover have "owns (pcs u) \<noteq> Some (i, s')" if "u \<noteq> t" for u s'
  proof -
    have "(\<exists>s. owns (pcs t) = Some (i, s)) \<or> (\<exists>b. lookup_ad m i = Some b \<and> Status b = StatusQueued) \<or> lookup_ad m i = None"
      using assms(4) W by auto
    then show ?thesis by (rule others_not_owner[OF assms(1) _ that])
  qed
  moreover have "j = i" if "owns p = Some (j, s')" for j s' using that assms(5) by simp
  ultimately show ?thesis by (rule run_inv_write[OF assms(1) W[THEN conjunct1]])
qed

lemma PopFromQueue_same_ads: "mem_PopFromQueue ord qn m = (r, m') \<Longrightarrow> m' = m"
  by (simp add: mem_PopFromQueue_def split: list.splits)

lemma failed_update: "update_ad a m = (Err e, a', m') \<Longrightarrow> m' = m"
  using update_ad_cases[of m a] by auto

lemma failed_status: "AtomicStatusUpdate now i v f s m = (Err e, m') \<Longrightarrow> m' = m"
  using AtomicStatusUpdate_cases[of now i v f s m] by auto

lemma AcquireLock_same_ads: "AcquireLock now i w ttl m = (r, m') \<Longrightarrow> ads m' = ads m"
  using AcquireLock_ads[of now i w ttl m] by simp

lemma Get_lookup: "Get i m = Ok a \<Longrightarrow> lookup_ad m i = Some a"
  by (auto simp: Get_def split: if_splits option.splits)

lemma PushToQueue_same_ads: "mem_PushToQueue qn i n m = (r, m') \<Longrightarrow> same_ads m m'"
  by (auto simp: mem_PushToQueue_def same_ads_def option.rel_refl option.rel_map option.rel_eq split: if_splits option.splits)

lemma tstep_preserves:
  assumes "tstep q (pcs t, m) (p, m')" "run_inv n pcs m" "int n + 1 < 2 ^ 62"
  shows "run_inv (Suc n) (pcs(t := p)) m'"
proof -
  note pc = run_inv_pc[OF assms(2), of t]
  note V = assms(2)[unfolded run_inv_def, THEN conjunct2, THEN conjunct2]
  note W = update_ad_writes[OF V assms(3)]
  show ?thesis using assms(1)
  proof cases
    case (claim now ad pp)
    then show ?thesis using assms(2,3) by (auto intro!: run_inv_status)
  next
    case (claim_lost now ad e pp)
    then show ?thesis using assms(2) failed_status[OF claim_lost(3)] by (auto intro!: run_inv_quiet)
  next
    case (fetch i ad pp)
    have o: "owns (pcs t) = Some (i, StatusProcessing)" using fetch by simp
    have l: "lookup_ad m i = Some ad" using fetch by (simp add: Get_lookup)
    then have "AdID ad = i" using V by (simp add: versions_upto_def)
    moreover have "Status ad = StatusProcessing" using pc_okD(1)[OF pc o] l by simp
    ultimately show ?thesis using fetch assms(2) o l by (intro run_inv_keep[OF assms(2)] pc_okI) auto
  next
    case (assign ad ad' pp i)
    have o: "owns (pcs t) = Some (AdID ad, StatusProcessing)" and c: "owned_copy (pcs t) = Some ad"
      using assign by simp_all
    have w: "lookup_ad m' = (lookup_ad m)(AdID ad \<mapsto> ad')" "AdID ad' = AdID ad" "Status ad' = Status ad"
      using W[OF assign(3)] by auto
    have "Status ad = StatusProcessing" using pc_okD(1)[OF pc o] pc_okD(2)[OF pc c] by auto
    then have "pc_ok m' p" using assign(2) w by (intro pc_okI) (auto split: dequeue_path.splits)
    moreover have "owns p = Some (AdID ad, StatusProcessing)" using assign(2) w(2) by (cases pp) simp_all
    ultimately show ?thesis using o by (intro run_inv_update[OF assms(2,3) assign(3)]) auto
  next
    case (assign_lost ad e ad' pp i)
    then show ?thesis using assms(2) failed_update[OF assign_lost(3)] by (auto intro!: run_inv_quiet)
  next
    case (unlock i ad)
    have "pc_ok m (Working ad)" using pc unlock(1) by (simp add: pc_ok_def)
    then show ?thesis using unlock by (intro run_inv_keep[OF assms(2)]) auto
  next
    case (relock now ad an)
    have "pc_ok m (Completing ad an)" using pc relock(1) by (simp add: pc_ok_def)
    then show ?thesis using relock AcquireLock_same_ads[OF relock(3)] by (intro run_inv_keep[OF assms(2)]) auto
  next
    case (finish now ad an)
    then show ?thesis using assms(2,3) by (auto intro!: run_inv_status)
  next
    case (finish_lost now ad e an)
    then show ?thesis using assms(2) failed_status[OF finish_lost(3)] by (auto intro!: run_inv_quiet)
  next
    case (reread i ad an)
    have o: "owns (pcs t) = Some (i, StatusCompleted)" using reread by simp
    have l: "lookup_ad m i = Some ad" using reread by (simp add: Get_lookup)
    then have "AdID ad = i" using V by (simp add: versions_upto_def)
    moreover have "Status ad = StatusCompleted" using pc_okD(1)[OF pc o] l by simp
    ultimately show ?thesis using reread assms(2) o l
      by (intro run_inv_keep[OF assms(2)] pc_okI) (auto simp: SetAnalysisResults_def)
  next
    case (record_analysis ad r ad' i)
    show ?thesis
    proof (cases "r = Ok ()")
      case True
      with record_analysis show ?thesis
        by (intro run_inv_update[OF assms(2,3), of ad ad' m'] pc_ok_unowned) auto
    next
      case False
      then have "m' = m" using record_analysis(3) update_ad_cases[of m ad] by auto
      then show ?thesis using record_analysis(2) by (intro run_inv_quiet[OF assms(2)]) simp_all
    qed
  next
    case (submit ad i)
    have s: "m' = put_ad (AdID ad) ad m" "AdID ad \<noteq> ''''" using submit(6) by (auto simp: save_ad_def split: if_splits)
    then have l: "lookup_ad m' = (lookup_ad m)(AdID ad \<mapsto> ad)" by auto
    then have "writes_ad (AdID ad) m m'" using s(2) submit(3,4) by (auto simp: writes_ad_def)
    moreover have "pc_ok m' p" using submit(2,5) l by (intro pc_okI) auto
    moreover have "owns (pcs u) \<noteq> Some (AdID ad, s)" if "u \<noteq> t" for u s
      using others_not_owner[OF assms(2) _ that] submit(3) by blast
    moreover have "j = AdID ad" if "owns p = Some (j, s)" for j s using that submit(2) by simp
    ultimately show ?thesis using run_inv_write[OF assms(2)] by blast
  next
    case (enqueue now ad ad')
    then show ?thesis by (intro run_inv_update[OF assms(2,3) enqueue(3)] pc_ok_unowned) auto
  next
    case (enqueue_lost now ad e ad')
    then show ?thesis using assms(2) failed_update[OF enqueue_lost(3)] by (auto intro!: run_inv_quiet)
  next
    case (push i k r)
    then show ?thesis using PushToQueue_same_ads[OF push(3)]
      by (intro run_inv_same[OF assms(2)] pc_ok_unowned) auto
  next
    case (scan i ad k)
    then have "AdID ad = i" using V by (simp add: versions_upto_def)
    then show ?thesis using scan by (intro run_inv_keep[OF assms(2)] pc_okI) auto
  next
    case (reprioritise ad ad' k)
    have l: "lookup_ad m (AdID ad) = Some ad'" using reprioritise by (simp add: Get_lookup)
    then have "AdID ad' = AdID ad" using V by (simp add: versions_upto_def)
    moreover have "Status ad' = StatusQueued"
      using pc_okD(3)[OF pc, of ad] reprioritise(1,5) l by simp
    ultimately show ?thesis using reprioritise l by (intro run_inv_keep[OF assms(2)] pc_okI) auto
  next
    case (age ad ad')
    from W[OF age(3)] pc_okD(3)[OF pc, of ad] age(1)
    have "\<exists>b. lookup_ad m (AdID ad) = Some b \<and> Status b = StatusQueued" by auto
    then show ?thesis using age by (intro run_inv_update[OF assms(2,3) age(3)] pc_ok_unowned) auto
  next
    case (age_lost ad e ad')
    then show ?thesis using assms(2) failed_update[OF age_lost(3)] by (auto intro!: run_inv_quiet)
  next
    case (late_release i)
    then show ?thesis using pc by (intro run_inv_keep[OF assms(2)]) auto
  qed (use assms in \<open>auto intro!: run_inv_quiet simp: AcquireLock_same_ads dest!: PopFromQueue_same_ads\<close>)
qed

lemma run_invariant: "run q n pcs m \<Longrightarrow> int n < 2 ^ 62 \<Longrightarrow> run_inv n pcs m"
proof (induction rule: run.induct)
  case run_start
  show ?case
    by (simp add: run_inv_def pc_ok_unowned exclusive_def versions_upto_def NewMemoryRepository_def)
next
  case (run_step n pcs m t p m')
  then have "run_inv n pcs m" by simp
  with run_step show ?case by (intro tstep_preserves[where m = m]) simp_all
qed

section \<open>What the threads of a process may rely on\<close>

text \<open>C5. Two workers never hold the same ad.  In every run with the memory cache of fewer than 2^62 steps of
  any number of threads, however their calls of the repository interleave (the steps are those of
  submitting, claiming and completing and of the aging and boost scans; \<^verbatim>\<open>RequeueExpired\<close>, which never
  finds work, and the write of \<^verbatim>\<open>GetAd\<close> into the cache, which needs a request for an identifier before
  its ad is saved, are no steps): if two threads are both inside the
  handling of an ad (from the claim in \<^verbatim>\<open>Dequeue\<close> to the last write of \<^verbatim>\<open>Complete\<close>, or between the two
  writes of \<^verbatim>\<open>SubmitAd\<close>), they are the same thread.  The locks play no part in this: they are shared
  by the threads of a process.\<close>

theorem claims_are_exclusive:
  assumes "run q n pcs m" "int n < 2 ^ 62"
    and "owns (pcs t) = Some (i, s)" "owns (pcs t') = Some (i, s')"
  shows "t = t'"
  using run_inv_exclusive[OF run_invariant[OF assms(1,2)]] assms(3,4) by (rule exclusiveD)

text \<open>What a thread that owns an ad finds at its next call of the repository.\<close>

lemma owned_calls:
  assumes "run_inv n pcs m"
  shows owned_update: "owned_copy (pcs t) = Some ad \<Longrightarrow> fst (update_ad ad m) = Ok ()"
    and owned_get: "owns (pcs t) = Some (i, s) \<Longrightarrow> is_ok (Get i m)"
    and owned_finish: "pcs t = Completing ad an \<Longrightarrow>
      fst (AtomicStatusUpdate now (AdID ad) (Version ad) StatusProcessing StatusCompleted m) = Ok ()"
proof -
  note pc = run_inv_pc[OF assms, of t]
  have V: "versions_upto (int n + 1) m" using assms by (simp add: run_inv_def)
  have ne: "i \<noteq> '''' \<and> AdID b = i" if "lookup_ad m i = Some b" for i b using V that by (simp add: versions_upto_def)
  show "fst (update_ad ad m) = Ok ()" if "owned_copy (pcs t) = Some ad"
  proof -
    from pc_okD(2)[OF pc that] obtain b where "lookup_ad m (AdID ad) = Some b" "Version b = Version ad" by blast
    with ne show ?thesis by (simp add: store_eval)
  qed
  show "is_ok (Get i m)" if "owns (pcs t) = Some (i, s)"
    using pc_okD(1)[OF pc that] ne by (auto simp: store_eval)
  show "fst (AtomicStatusUpdate now (AdID ad) (Version ad) StatusProcessing StatusCompleted m) = Ok ()"
    if "pcs t = Completing ad an"
    using pc_okD(1)[OF pc, of "AdID ad" StatusProcessing] pc_okD(2)[OF pc, of ad] that by (auto simp: store_eval)
qed

text \<open>C6. Nobody interferes with a claimed ad.  In every run with the memory cache of fewer than 2^62 steps
  (of submitting, claiming and completing and of the aging and boost scans; \<^verbatim>\<open>RequeueExpired\<close> and the
  write of \<^verbatim>\<open>GetAd\<close> into the cache are no steps), a thread about to
  write an ad it has claimed (the assignment of \<^verbatim>\<open>Dequeue\<close>, the status and the result of \<^verbatim>\<open>Complete\<close>) finds
  it as it left it: each of these writes succeeds, whatever the other threads have done meanwhile.\<close>

theorem claimed_writes_succeed:
  assumes "run q n pcs m" "int n < 2 ^ 62"
  shows "(case pcs t of
      Fetched p i ad \<Rightarrow> fst (update_ad ad m) = Ok ()
    | Completing ad an \<Rightarrow>
        fst (AtomicStatusUpdate now (AdID ad) (Version ad) StatusProcessing StatusCompleted m) = Ok ()
    | Claimed p i \<Rightarrow> is_ok (Get i m) | Finished i an \<Rightarrow> is_ok (Get i m)
    | Writing i ad \<Rightarrow> fst (update_ad ad m) = Ok ()
    | _ \<Rightarrow> True)"
proof -
  note R = run_invariant[OF assms]
  show ?thesis using owned_update[OF R, of t] owned_get[OF R, of t] owned_finish[OF R, of t] by (auto split: pc.split)
qed

text \<open>A run in which one thread submits an ad and another claims it.\<close>

definition threads_queue :: "unit DistributedPriorityQueue" where
  "threads_queue = NewDistributedPriorityQueue MemoryCache ''api-1'' DefaultQueueOptions"

definition submitted_ad :: Ad where
  "submitted_ad = (sample_ad ''a'' 3 10 StatusSubmitted)\<lparr>Version := 1\<rparr>"

definition queued_ad :: Ad where
  "queued_ad = bump_version (SetStatus 11 StatusQueued submitted_ad)"

definition claimed_ad :: Ad where
  "claimed_ad = set_status_bump 12 StatusProcessing queued_ad"

lemma thread_ads [simp]:
  "AdID submitted_ad = ''a''" "Version submitted_ad = 1" "Status submitted_ad = StatusSubmitted"
  "Priority submitted_ad = 3" "AdID queued_ad = ''a''" "Version queued_ad = 2" "Status queued_ad = StatusQueued"
  "EffectivePriority queued_ad = 3" "AdID claimed_ad = ''a''" "Version claimed_ad = 3" "Status claimed_ad = StatusProcessing"
  by (simp_all add: submitted_ad_def queued_ad_def claimed_ad_def sample_ad_def sample_submission_def i64_small)

lemma run_step_eq:
  "run q n pcs m \<Longrightarrow> pcs t = p0 \<Longrightarrow> tstep q (p0, m) (p, m') \<Longrightarrow> run q (Suc n) (pcs(t := p)) m'"
  by (auto intro: run_step)

lemma sample_run:
  "\<exists>m. run threads_queue 8 ((\<lambda>_. Idle)(1 := Idle, 0 := Fetched Fast ''a'' (IncrementAttempts (AssignWorker ''api-1'' claimed_ad)))) m"
proof -
  let ?q = threads_queue
  let ?m = "\<lambda>a. \<lparr>ads = [(''a'', a)], locks = (\<lambda>_. None)\<rparr>"
  have "run ?q (Suc 0) ((\<lambda>_. Idle)(1 := Submitting submitted_ad)) (?m submitted_ad)"
    by (rule run_step_eq[OF run_start refl submit[where i = "''a''"]]) (simp_all add: NewMemoryRepository_def save_ad_def)
  then have "run ?q (Suc (Suc 0)) ((\<lambda>_. Idle)(1 := Submitting submitted_ad, 1 := Pushing (AdID queued_ad) (EffectivePriority queued_ad)))
      (?m queued_ad)"
    by (rule run_step_eq[OF _ _ enqueue[where now = 11 and ad = submitted_ad]]) (simp_all add: update_ad_def Let_def queued_ad_def)
  then have r2: "run ?q (Suc (Suc 0)) ((\<lambda>_. Idle)(1 := Pushing ''a'' 3)) (?m queued_ad)" by simp
  have "queued_ad\<lparr>EffectivePriority := 3\<rparr> = queued_ad"
    by (simp add: queued_ad_def SetStatus_def Let_def bump_version_def)
  then have "run ?q (Suc (Suc (Suc 0))) ((\<lambda>_. Idle)(1 := Pushing ''a'' 3, 1 := Idle)) (?m queued_ad)"
    by (intro run_step_eq[OF r2 _ push[where r = "Ok ()" and i = "''a''" and n = 3]]) (simp_all add: mem_PushToQueue_def)
  then have "run ?q (Suc (Suc (Suc 0))) ((\<lambda>_. Idle)(1 := Idle)) (?m queued_ad)" by simp
  then have "run ?q (Suc (Suc (Suc (Suc 0)))) ((\<lambda>_. Idle)(1 := Idle, 0 := Popped ''a'')) (?m queued_ad)"
    by (rule run_step_eq[OF _ _ pop[where ord = "[]"]]) (simp_all add: mem_PopFromQueue_def ads_with_status_def)
  then have "run ?q (Suc (Suc (Suc (Suc (Suc 0))))) ((\<lambda>_. Idle)(1 := Idle, 0 := Popped ''a'', 0 := Reading Fast queued_ad)) (?m queued_ad)"
    by (rule run_step_eq[OF _ _ read[where i = "''a''" and ad = queued_ad]]) (simp_all add: Get_def IsProcessable_def)
  then have r5: "run ?q 5 ((\<lambda>_. Idle)(1 := Idle, 0 := Reading Fast queued_ad)) (?m queued_ad)" by (simp add: eval_nat_numeral)
  let ?m' = "\<lambda>a. take_lock 12 ''a'' ''api-1'' (30 * nsSecond) (?m a)"
  have "run ?q (Suc 5) ((\<lambda>_. Idle)(1 := Idle, 0 := Reading Fast queued_ad, 0 := Locked Fast queued_ad)) (?m' queued_ad)"
    by (rule run_step_eq[OF r5 _ lock[where now = 12 and ad = queued_ad]])
      (simp_all add: AcquireLock_eval lock_free_def threads_queue_def NewDistributedPriorityQueue_def DefaultQueueOptions_def)
  then have "run ?q (Suc (Suc 5)) ((\<lambda>_. Idle)(1 := Idle, 0 := Reading Fast queued_ad, 0 := Locked Fast queued_ad,
      0 := Claimed Fast (AdID queued_ad))) (?m' claimed_ad)"
    by (rule run_step_eq[OF _ _ claim[where now = 12 and ad = queued_ad]])
      (simp_all add: AtomicStatusUpdate_def claimed_ad_def take_lock_def)
  then have r7: "run ?q 7 ((\<lambda>_. Idle)(1 := Idle, 0 := Claimed Fast ''a'')) (?m' claimed_ad)" by simp
  have "run ?q (Suc 7) ((\<lambda>_. Idle)(1 := Idle, 0 := Claimed Fast ''a'',
      0 := Fetched Fast ''a'' (IncrementAttempts (AssignWorker (instanceID ?q) claimed_ad)))) (?m' claimed_ad)"
    by (rule run_step_eq[OF r7 _ fetch[where i = "''a''" and ad = claimed_ad]]) (simp_all add: Get_def)
  then show ?thesis by (auto simp: threads_queue_def NewDistributedPriorityQueue_def)
qed

theorem claims_are_exclusive_witness:
  "\<exists>pcs m. run threads_queue 8 pcs m \<and> owns (pcs 0) = Some (''a'', StatusProcessing)
    \<and> (\<forall>t s. owns (pcs t) = Some (''a'', s) \<longrightarrow> t = 0)"
proof -
  let ?pcs = "(\<lambda>_ :: nat. Idle)(1 := Idle, 0 := Fetched Fast ''a'' (IncrementAttempts (AssignWorker ''api-1'' claimed_ad)))"
  obtain m where r: "run threads_queue 8 ?pcs m" using sample_run by blast
  have o: "owns (?pcs 0) = Some (''a'', StatusProcessing)" by simp
  have "t = 0" if "owns (?pcs t) = Some (''a'', s)" for t s
    using claims_are_exclusive[OF r _ that o] by simp
  with r o show ?thesis by blast
qed

theorem claimed_writes_succeed_witness:
  "\<exists>pcs m. run threads_queue 8 pcs m
    \<and> pcs 0 = Fetched Fast ''a'' (IncrementAttempts (AssignWorker ''api-1'' claimed_ad))
    \<and> fst (update_ad (IncrementAttempts (AssignWorker ''api-1'' claimed_ad)) m) = Ok ()"
proof -
  let ?pcs = "(\<lambda>_ :: nat. Idle)(1 := Idle, 0 := Fetched Fast ''a'' (IncrementAttempts (AssignWorker ''api-1'' claimed_ad)))"
  obtain m where r: "run threads_queue 8 ?pcs m" using sample_run by blast
  have "?pcs 0 = Fetched Fast ''a'' (IncrementAttempts (AssignWorker ''api-1'' claimed_ad))" by simp
  moreover have "fst (update_ad (IncrementAttempts (AssignWorker ''api-1'' claimed_ad)) m) = Ok ()"
    using claimed_writes_succeed[OF r, where t = 0] by simp
  ultimately show ?thesis using r by blast
qed

end
