(* ===== verification/Worker_Pool.thy ===== *)
theory Worker_Pool
  imports Ad_Worker
begin

text \<open>
  The pool of workers with its auto-scaler (\<^verbatim>\<open>internal/processor/worker.go\<close>, the type \<^verbatim>\<open>WorkerPool\<close>).
  Every operation holds the pool's mutex.  The identifiers that \<^verbatim>\<open>uuid.New\<close> would make are arguments.
\<close>

section \<open>State\<close>

record WorkerPoolOptions =
  WorkerOptions :: WorkerOptions
  MinWorkers :: int
  MaxWorkers :: int
  EnableAutoScale :: bool
  TargetQueueSize :: int

definition DefaultWorkerPoolOptions :: "int \<Rightarrow> WorkerPoolOptions" where
  "DefaultWorkerPoolOptions numCPU = \<lparr>WorkerOptions = DefaultWorkerOptions numCPU, MinWorkers = 2, MaxWorkers = 10,
     EnableAutoScale = True, TargetQueueSize = 100\<rparr>"

text \<open>\<open>scalers\<close> counts the auto-scaler loops started; \<open>p_closed\<close> says that the pool's shutdown channel is closed.\<close>

record WorkerPool =
  workerOptions :: WorkerOptions
  workers :: "(string \<times> Worker) list"
  enableAutoScale :: bool
  minWorkers :: int
  maxWorkers :: int
  targetQueueSize :: int
  p_closed :: bool
  scalers :: nat

definition NewWorkerPool :: "WorkerPoolOptions \<Rightarrow> WorkerPool" where
  "NewWorkerPool opts = \<lparr>workerOptions = WorkerOptions opts, workers = [], enableAutoScale = EnableAutoScale opts,
     minWorkers = MinWorkers opts, maxWorkers = MaxWorkers opts, targetQueueSize = TargetQueueSize opts,
     p_closed = False, scalers = 0\<rparr>"

abbreviation worker_count :: "WorkerPool \<Rightarrow> int" where
  "worker_count wp \<equiv> int (length (workers wp))"

section \<open>Operations\<close>

text \<open>Start the given number of workers; the error branch stops the workers already in the pool.\<close>

fun start_workers :: "string list \<Rightarrow> WorkerPool \<Rightarrow> unit result \<times> WorkerPool" where
  "start_workers [] wp = (Ok (), wp)"
| "start_workers (i # ids) wp =
     (case worker_Start (NewWorker i (workerOptions wp)) of
        (Ok _, wk) \<Rightarrow> start_workers ids (wp\<lparr>workers := AList.update (w_id wk) wk (workers wp)\<rparr>)
      | (Err e, wk) \<Rightarrow>
          (Err (Wrapf ''failed to start worker: '' e ''''),
           wp\<lparr>workers := map (\<lambda>(k, v). (k, snd (worker_Stop v))) (workers wp)\<rparr>)
      | (Panic, wk) \<Rightarrow> (Panic, wp))"

definition pool_Start :: "(nat \<Rightarrow> string) \<Rightarrow> WorkerPool \<Rightarrow> unit result \<times> WorkerPool" where
  "pool_Start uuids wp =
     (case start_workers (map uuids [0..<nat (minWorkers wp)]) wp of
        (Ok _, wp) \<Rightarrow> (Ok (), if enableAutoScale wp then wp\<lparr>scalers := Suc (scalers wp)\<rparr> else wp)
      | r \<Rightarrow> r)"

definition pool_Stop :: "bool \<Rightarrow> WorkerPool \<Rightarrow> unit result \<times> WorkerPool" where
  "pool_Stop waitForCompletion wp =
     (if p_closed wp then (Panic, wp)
      else
        let wp = wp\<lparr>p_closed := True\<rparr>;
            stops = map (\<lambda>(k, v). fst (worker_Stop v)) (workers wp);
            wp = wp\<lparr>workers := map (\<lambda>(k, v). (k, snd (worker_Stop v))) (workers wp)\<rparr>
        in if Panic \<in> set stops then (Panic, wp)
           else (Ok (), if waitForCompletion then wp else wp\<lparr>workers := []\<rparr>))"

definition AddWorker :: "string \<Rightarrow> WorkerPool \<Rightarrow> Worker result \<times> WorkerPool" where
  "AddWorker uuid wp =
     (if maxWorkers wp \<le> worker_count wp then (Err (Errorf ''maximum worker count reached''), wp)
      else case worker_Start (NewWorker uuid (workerOptions wp)) of
        (Err e, wk) \<Rightarrow> (Err e, wp)
      | (Panic, wk) \<Rightarrow> (Panic, wp)
      | (Ok _, wk) \<Rightarrow> (Ok wk, wp\<lparr>workers := AList.update (w_id wk) wk (workers wp)\<rparr>))"

text \<open>With waiting, the stopped worker stays in the pool.\<close>

definition RemoveWorker :: "string \<Rightarrow> bool \<Rightarrow> WorkerPool \<Rightarrow> unit result \<times> WorkerPool" where
  "RemoveWorker workerID waitForCompletion wp =
     (case map_of (workers wp) workerID of
        None \<Rightarrow> (Err (Errorf (''worker not found: '' @ workerID)), wp)
      | Some worker \<Rightarrow>
          if worker_count wp \<le> minWorkers wp then (Err (Errorf ''minimum worker count reached''), wp)
          else (case worker_Stop worker of
              (Err e, worker) \<Rightarrow> (Err e, wp\<lparr>workers := AList.update workerID worker (workers wp)\<rparr>)
            | (Panic, worker) \<Rightarrow> (Panic, wp\<lparr>workers := AList.update workerID worker (workers wp)\<rparr>)
            | (Ok _, worker) \<Rightarrow>
                (Ok (), if waitForCompletion then wp\<lparr>workers := AList.update workerID worker (workers wp)\<rparr>
                        else wp\<lparr>workers := AList.delete workerID (workers wp)\<rparr>)))"

record PoolStats =
  ps_workerCount :: int
  ps_totalProcessed :: int
  ps_totalErrors :: int
  ps_totalActive :: int
  ps_workers :: "(string \<times> WorkerStats) list"

definition pool_GetStats :: "WorkerPool \<Rightarrow> PoolStats" where
  "pool_GetStats wp =
     (let stats = map (\<lambda>(k, v). (k, Stats v)) (workers wp)
      in \<lparr>ps_workerCount = worker_count wp,
          ps_totalProcessed = fold (\<lambda>(k, s) n. i64 (n + st_processed s)) stats 0,
          ps_totalErrors = fold (\<lambda>(k, s) n. i64 (n + st_errors s)) stats 0,
          ps_totalActive = fold (\<lambda>(k, s) n. i32 (n + st_activeJobs s)) stats 0,
          ps_workers = stats\<rparr>)"

text \<open>One tick of the auto-scaler, with the size of the queue it read.  The map is ranged over in any order.\<close>

definition scale_up :: "int \<Rightarrow> string \<Rightarrow> WorkerPool \<Rightarrow> WorkerPool" where
  "scale_up queueSize uuid wp =
     (if targetQueueSize wp < queueSize \<and> worker_count wp < maxWorkers wp
      then case worker_Start (NewWorker uuid (workerOptions wp)) of
             (Ok _, wk) \<Rightarrow> wp\<lparr>workers := AList.update (w_id wk) wk (workers wp)\<rparr>
           | _ \<Rightarrow> wp
      else wp)"

definition scale_down :: "int \<Rightarrow> int \<Rightarrow> nat list \<Rightarrow> WorkerPool \<Rightarrow> unit result \<times> WorkerPool" where
  "scale_down queueSize currentWorkers ord wp =
     (if queueSize < go_quot (targetQueueSize wp) 2 \<and> minWorkers wp < currentWorkers
      then case find (\<lambda>(k, v). activeJobs v = 0) (shuffle ord (workers wp)) of
             None \<Rightarrow> (Ok (), wp)
           | Some (workerToRemove, worker) \<Rightarrow>
               if workerToRemove = '''' then (Ok (), wp)
               else (case worker_Stop worker of
                   (Panic, wk) \<Rightarrow> (Panic, wp\<lparr>workers := AList.update workerToRemove wk (workers wp)\<rparr>)
                 | (_, wk) \<Rightarrow> (Ok (), wp\<lparr>workers := AList.delete workerToRemove (workers wp)\<rparr>))
      else (Ok (), wp))"

definition scaler_tick :: "int result \<Rightarrow> string \<Rightarrow> nat list \<Rightarrow> WorkerPool \<Rightarrow> unit result \<times> WorkerPool" where
  "scaler_tick res uuid ord wp =
     (case res of
        Ok queueSize \<Rightarrow>
          let currentWorkers = worker_count wp
          in scale_down queueSize currentWorkers ord (scale_up queueSize uuid wp)
      | Err e \<Rightarrow> (Ok (), wp)
      | Panic \<Rightarrow> (Panic, wp))"

section \<open>Pools behind pointers\<close>

text \<open>
  The components and the service hold pools by pointer.  The pools of a process are a list, a pointer
  is a position in it: a change through one pointer is seen through every equal one.
\<close>

type_synonym pool_ref = nat
type_synonym pool_heap = "WorkerPool list"

definition new_pool :: "WorkerPoolOptions \<Rightarrow> pool_heap \<Rightarrow> pool_ref \<times> pool_heap" where
  "new_pool opts h = (length h, h @ [NewWorkerPool opts])"

definition on_pool :: "(WorkerPool \<Rightarrow> 'a \<times> WorkerPool) \<Rightarrow> pool_ref \<Rightarrow> pool_heap \<Rightarrow> pool_heap" where
  "on_pool f p h = h[p := snd (f (h ! p))]"

section \<open>The invariant of a running pool\<close>

text \<open>
  Every worker is filed once, under its own identifier, and is running with an open channel, or
  stopped; so no stop panics.
\<close>

definition worker_ok :: "Worker \<Rightarrow> bool" where
  "worker_ok wk \<longleftrightarrow> (isRunning wk \<longrightarrow> \<not> w_closed wk)"

definition pool_wf :: "WorkerPool \<Rightarrow> bool" where
  "pool_wf wp \<longleftrightarrow> distinct (map fst (workers wp)) \<and> (\<forall>(k, v) \<in> set (workers wp). w_id v = k \<and> worker_ok v)"

definition pool_bounded :: "WorkerPool \<Rightarrow> bool" where
  "pool_bounded wp \<longleftrightarrow> minWorkers wp \<le> worker_count wp \<and> worker_count wp \<le> maxWorkers wp"

lemma NewWorker_start:
  "worker_Start (NewWorker i opts) = (Ok (), (NewWorker i opts)\<lparr>isRunning := True, launched := nat (MaxConcurrent opts)\<rparr>)"
  by (simp add: worker_Start_def NewWorker_def)

definition started :: "string \<Rightarrow> WorkerOptions \<Rightarrow> Worker" where
  "started i opts = (NewWorker i opts)\<lparr>isRunning := True, launched := nat (MaxConcurrent opts)\<rparr>"

lemma started_simps [simp]: "w_id (started i opts) = ''worker-'' @ i" "worker_ok (started i opts)"
  by (simp_all add: started_def NewWorker_def worker_ok_def)

lemma worker_Start_new [simp]: "worker_Start (NewWorker i opts) = (Ok (), started i opts)"
  by (simp add: NewWorker_start started_def)

lemma worker_Stop_ok: "worker_ok wk \<Longrightarrow> fst (worker_Stop wk) = Ok ()"
  by (simp add: worker_Stop_def worker_ok_def)

lemma worker_Stop_simps [simp]: "w_id (snd (worker_Stop wk)) = w_id wk" "worker_ok (snd (worker_Stop wk))"
  by (auto simp: worker_Stop_def worker_ok_def)

lemma worker_Stop_pair:
  assumes "worker_ok wk"
  obtains wk' where "worker_Stop wk = (Ok (), wk')" and "w_id wk' = w_id wk" and "worker_ok wk'"
  using worker_Stop_ok[OF assms] worker_Stop_simps[of wk] by (cases "worker_Stop wk") auto

lemma length_update:
  "length (AList.update k v xs) = (if map_of xs k = None then Suc (length xs) else length xs)"
  by (induction xs) auto

lemma length_delete:
  "distinct (map fst xs) \<Longrightarrow> length (AList.delete k xs) = (if map_of xs k = None then length xs else length xs - 1)"
proof (induction xs)
  case (Cons x xs)
  obtain k' v where x: "x = (k', v)" by (cases x)
  have "AList.delete k xs = xs" if "k' = k"
    using Cons.prems that x by (intro delete_id) auto
  with Cons x show ?case by (cases xs) (auto simp: AList.delete_eq)
qed simp

lemma set_update_alist: "set (AList.update k v xs) \<subseteq> insert (k, v) (set xs)"
  by (induction xs) auto

lemma set_delete_alist: "set (AList.delete k xs) \<subseteq> set xs"
  by (auto simp: AList.delete_eq)

lemma pool_wf_update:
  "pool_wf wp \<Longrightarrow> w_id wk = k \<Longrightarrow> worker_ok wk \<Longrightarrow> pool_wf (wp\<lparr>workers := AList.update k wk (workers wp)\<rparr>)"
  using set_update_alist[of k wk "workers wp"] by (auto simp: pool_wf_def)

lemma pool_wf_delete: "pool_wf wp \<Longrightarrow> pool_wf (wp\<lparr>workers := AList.delete k (workers wp)\<rparr>)"
  using set_delete_alist[of k "workers wp"] by (auto simp: pool_wf_def AList.delete_eq distinct_keys_filter)

lemma pool_wf_lookup: "pool_wf wp \<Longrightarrow> map_of (workers wp) k = Some wk \<Longrightarrow> w_id wk = k \<and> worker_ok wk"
  by (auto simp: pool_wf_def dest: map_of_SomeD)

section \<open>The size of the pool\<close>

datatype pool_op =
    PAdd string
  | PRemove string bool
  | PTick "int result" string "nat list"

fun pool_step :: "pool_op \<Rightarrow> WorkerPool \<Rightarrow> unit result \<times> WorkerPool" where
  "pool_step (PAdd i) wp = (case AddWorker i wp of (Ok _, wp) \<Rightarrow> (Ok (), wp) | (Err e, wp) \<Rightarrow> (Err e, wp) | (Panic, wp) \<Rightarrow> (Panic, wp))"
| "pool_step (PRemove i wt) wp = RemoveWorker i wt wp"
| "pool_step (PTick s i ord) wp = scaler_tick s i ord wp"

lemma AddWorker_bounded:
  assumes "pool_wf wp" "pool_bounded wp"
  shows "pool_wf (snd (AddWorker i wp)) \<and> pool_bounded (snd (AddWorker i wp))
    \<and> minWorkers (snd (AddWorker i wp)) = minWorkers wp \<and> maxWorkers (snd (AddWorker i wp)) = maxWorkers wp
    \<and> fst (AddWorker i wp) \<noteq> Panic"
  using assms pool_wf_update[OF assms(1), of "started i (workerOptions wp)"]
  by (auto simp: AddWorker_def pool_bounded_def length_update)

lemma RemoveWorker_bounded:
  assumes "pool_wf wp" "pool_bounded wp"
  shows "pool_wf (snd (RemoveWorker i wt wp)) \<and> pool_bounded (snd (RemoveWorker i wt wp))
    \<and> minWorkers (snd (RemoveWorker i wt wp)) = minWorkers wp \<and> maxWorkers (snd (RemoveWorker i wt wp)) = maxWorkers wp
    \<and> fst (RemoveWorker i wt wp) \<noteq> Panic"
proof (cases "map_of (workers wp) i")
  case None
  then show ?thesis using assms by (simp add: RemoveWorker_def)
next
  case (Some wk)
  note wk = pool_wf_lookup[OF assms(1) Some]
  have d: "distinct (map fst (workers wp))" using assms(1) by (simp add: pool_wf_def)
  from wk obtain wk' where s: "worker_Stop wk = (Ok (), wk')" "w_id wk' = i" "worker_ok wk'"
    using worker_Stop_pair by metis
  show ?thesis
    using assms Some pool_wf_update[OF assms(1) s(2,3)] pool_wf_delete[OF assms(1), of i]
    by (auto simp: RemoveWorker_def s(1) pool_bounded_def length_update length_delete[OF d])
qed

lemma scale_up_bounded:
  assumes "pool_wf wp" "pool_bounded wp"
  shows "pool_wf (scale_up n i wp) \<and> pool_bounded (scale_up n i wp)
    \<and> minWorkers (scale_up n i wp) = minWorkers wp \<and> maxWorkers (scale_up n i wp) = maxWorkers wp
    \<and> targetQueueSize (scale_up n i wp) = targetQueueSize wp \<and> worker_count wp \<le> worker_count (scale_up n i wp)"
  using assms pool_wf_update[OF assms(1), of "started i (workerOptions wp)"]
  by (auto simp: scale_up_def pool_bounded_def length_update)

lemma scale_down_bounded:
  assumes "pool_wf wp" "pool_bounded wp" "c \<le> worker_count wp"
  shows "pool_wf (snd (scale_down n c ord wp)) \<and> pool_bounded (snd (scale_down n c ord wp))
    \<and> minWorkers (snd (scale_down n c ord wp)) = minWorkers wp \<and> maxWorkers (snd (scale_down n c ord wp)) = maxWorkers wp
    \<and> fst (scale_down n c ord wp) = Ok ()"
proof (cases "find (\<lambda>(k, v). activeJobs v = 0) (shuffle ord (workers wp))")
  case None
  then show ?thesis using assms by (simp add: scale_down_def)
next
  case (Some kv)
  obtain k wk where kv: "kv = (k, wk)" by (cases kv)
  have "kv \<in> set (shuffle ord (workers wp))"
    using Some unfolding find_Some_iff by (metis nth_mem)
  then have m: "(k, wk) \<in> set (workers wp)" by (simp add: kv)
  have d: "distinct (map fst (workers wp))" using assms(1) by (simp add: pool_wf_def)
  have l: "map_of (workers wp) k = Some wk" using m d by simp
  from pool_wf_lookup[OF assms(1) l] obtain wk' where
    s: "worker_Stop wk = (Ok (), wk')" "w_id wk' = k" "worker_ok wk'" using worker_Stop_pair by metis
  have "minWorkers wp \<le> int (length (workers wp) - 1)" if "minWorkers wp < c"
    using that assms(3) m by (cases "workers wp") auto
  then show ?thesis
    using assms pool_wf_delete[OF assms(1), of k]
    by (auto simp: scale_down_def Some kv s(1) pool_bounded_def length_delete[OF d] l)
qed

lemma pool_step_bounded:
  assumes "pool_wf wp" "pool_bounded wp"
  shows "pool_wf (snd (pool_step op wp)) \<and> pool_bounded (snd (pool_step op wp))
    \<and> minWorkers (snd (pool_step op wp)) = minWorkers wp \<and> maxWorkers (snd (pool_step op wp)) = maxWorkers wp
    \<and> (fst (pool_step op wp) = Panic \<longrightarrow> (\<exists>i ord. op = PTick Panic i ord))"
proof (cases op)
  case (PAdd i)
  with AddWorker_bounded[OF assms, of i] show ?thesis
    by (cases "AddWorker i wp"; cases "fst (AddWorker i wp)") auto
next
  case (PRemove i wt)
  with RemoveWorker_bounded[OF assms, of i wt] show ?thesis by simp
next
  case (PTick s i ord)
  show ?thesis
  proof (cases s)
    case (Ok n)
    note u = scale_up_bounded[OF assms, of n i]
    with scale_down_bounded[of "scale_up n i wp" "worker_count wp" n ord] show ?thesis
      by (simp add: PTick Ok scaler_tick_def Let_def)
  qed (use assms in \<open>simp_all add: PTick scaler_tick_def\<close>)
qed

lemma start_workers_result:
  "fst (start_workers ids wp) = Ok ()
   \<and> snd (start_workers ids wp) = wp\<lparr>workers := fold (\<lambda>i. AList.update (''worker-'' @ i) (started i (workerOptions wp))) ids (workers wp)\<rparr>"
  by (induction ids arbitrary: wp) auto

lemma fold_start_workers:
  "distinct ids \<Longrightarrow> (\<And>i. i \<in> set ids \<Longrightarrow> ''worker-'' @ i \<notin> fst ` set xs) \<Longrightarrow> distinct (map fst xs) \<Longrightarrow>
   \<forall>(k, v) \<in> set xs. w_id v = k \<and> worker_ok v \<Longrightarrow>
   length (fold (\<lambda>i. AList.update (''worker-'' @ i) (started i opts)) ids xs) = length xs + length ids
   \<and> distinct (map fst (fold (\<lambda>i. AList.update (''worker-'' @ i) (started i opts)) ids xs))
   \<and> (\<forall>(k, v) \<in> set (fold (\<lambda>i. AList.update (''worker-'' @ i) (started i opts)) ids xs). w_id v = k \<and> worker_ok v)"
proof (induction ids arbitrary: xs)
  case (Cons i ids)
  let ?k = "''worker-'' @ i" and ?v = "started i opts"
  let ?xs = "AList.update ?k ?v xs"
  have n: "map_of xs ?k = None" unfolding map_of_eq_None_iff by (rule Cons.prems(2)) simp
  have keys: "fst ` set ?xs \<subseteq> insert ?k (fst ` set xs)" using set_update_alist[of ?k ?v xs] by force
  have "length ?xs = Suc (length xs)" by (simp only: length_update n simp_thms if_True)
  moreover have "\<forall>(k, v) \<in> set ?xs. w_id v = k \<and> worker_ok v"
    using Cons.prems(4) set_update_alist[of ?k ?v xs] by auto
  moreover have "''worker-'' @ j \<notin> fst ` set ?xs" if "j \<in> set ids" for j
  proof
    assume "''worker-'' @ j \<in> fst ` set ?xs"
    with keys have "''worker-'' @ j \<in> insert ?k (fst ` set xs)" by (rule subsetD)
    moreover have "''worker-'' @ j \<notin> fst ` set xs" by (rule Cons.prems(2)) (simp add: that)
    ultimately have "''worker-'' @ j = ?k" by blast
    then have "j = i" by simp
    with that Cons.prems(1) show False by simp
  qed
  ultimately show ?case using Cons.IH[of ?xs] Cons.prems(1,3) by simp
qed simp

lemma pool_Start_bounded:
  assumes "inj uuids" and "0 \<le> MinWorkers opts" and "MinWorkers opts \<le> MaxWorkers opts"
  shows "fst (pool_Start uuids (NewWorkerPool opts)) = Ok ()"
    and "pool_wf (snd (pool_Start uuids (NewWorkerPool opts)))"
    and "pool_bounded (snd (pool_Start uuids (NewWorkerPool opts)))"
    and "worker_count (snd (pool_Start uuids (NewWorkerPool opts))) = MinWorkers opts"
    and "minWorkers (snd (pool_Start uuids (NewWorkerPool opts))) = MinWorkers opts"
    and "maxWorkers (snd (pool_Start uuids (NewWorkerPool opts))) = MaxWorkers opts"
proof -
  let ?ids = "map uuids [0..<nat (MinWorkers opts)]"
  let ?ws = "fold (\<lambda>i. AList.update (''worker-'' @ i) (started i (WorkerOptions opts))) ?ids []"
  have d: "distinct ?ids" using assms(1) by (simp add: distinct_map) (rule inj_on_subset[OF _ subset_UNIV])
  have F: "length ?ws = length ?ids" "distinct (map fst ?ws)" "\<forall>(k, v) \<in> set ?ws. w_id v = k \<and> worker_ok v"
    using fold_start_workers[OF d, of "[]" "WorkerOptions opts"] by auto
  obtain r wp where S: "start_workers ?ids (NewWorkerPool opts) = (r, wp)"
    by (cases "start_workers ?ids (NewWorkerPool opts)")
  have wp: "r = Ok ()" "wp = (NewWorkerPool opts)\<lparr>workers := ?ws\<rparr>"
    using start_workers_result[of ?ids "NewWorkerPool opts"] by (simp_all add: S) (simp_all add: NewWorkerPool_def)
  have P: "pool_Start uuids (NewWorkerPool opts) =
      (Ok (), if enableAutoScale wp then wp\<lparr>scalers := Suc (scalers wp)\<rparr> else wp)"
    using S by (simp add: pool_Start_def wp(1)) (simp add: NewWorkerPool_def)
  show "fst (pool_Start uuids (NewWorkerPool opts)) = Ok ()" by (simp add: P)
  show "pool_wf (snd (pool_Start uuids (NewWorkerPool opts)))"
    using F(2,3) by (simp add: P pool_wf_def wp(2))
  show "worker_count (snd (pool_Start uuids (NewWorkerPool opts))) = MinWorkers opts"
    using F(1) assms(2) by (simp add: P wp(2))
  then show "pool_bounded (snd (pool_Start uuids (NewWorkerPool opts)))"
    using assms(3) by (simp add: P pool_bounded_def wp(2)) (simp add: NewWorkerPool_def)
  show "minWorkers (snd (pool_Start uuids (NewWorkerPool opts))) = MinWorkers opts"
    "maxWorkers (snd (pool_Start uuids (NewWorkerPool opts))) = MaxWorkers opts"
    by (simp_all add: P wp(2)) (simp_all add: NewWorkerPool_def)
qed

lemma pool_run_bounded:
  "pool_wf wp \<Longrightarrow> pool_bounded wp \<Longrightarrow> wp' = fold (\<lambda>op wp. snd (pool_step op wp)) ops wp \<Longrightarrow>
   pool_wf wp' \<and> pool_bounded wp' \<and> minWorkers wp' = minWorkers wp \<and> maxWorkers wp' = maxWorkers wp"
proof (induction ops arbitrary: wp)
  case (Cons op ops)
  from pool_step_bounded[OF Cons.prems(1,2), of op] Cons.IH[of "snd (pool_step op wp)"] Cons.prems(3)
  show ?case by simp
qed simp

text \<open>C32. The size of the pool.  A pool started with distinct worker identifiers and 0 <= min <= max has min
  workers; after any sequence of additions, removals and ticks of the auto-scaler it has between
  min and max workers, each filed once under its own identifier, and none of these calls panics.\<close>

theorem pool_size_bounds:
  assumes "inj uuids" and "0 \<le> MinWorkers opts" and "MinWorkers opts \<le> MaxWorkers opts"
    and "\<forall>op \<in> set ops. \<forall>i ord. op \<noteq> PTick Panic i ord"
  shows "let wp = snd (pool_Start uuids (NewWorkerPool opts));
             wp' = fold (\<lambda>op wp. snd (pool_step op wp)) ops wp
    in worker_count wp = MinWorkers opts
     \<and> MinWorkers opts \<le> worker_count wp' \<and> worker_count wp' \<le> MaxWorkers opts
     \<and> distinct (map fst (workers wp')) \<and> (\<forall>(k, v) \<in> set (workers wp'). w_id v = k)
     \<and> (\<forall>op. (\<forall>i ord. op \<noteq> PTick Panic i ord) \<longrightarrow> fst (pool_step op wp') \<noteq> Panic)"
proof -
  let ?wp = "snd (pool_Start uuids (NewWorkerPool opts))"
  note S = pool_Start_bounded[OF assms(1-3)]
  note R = pool_run_bounded[OF S(2,3) refl, of ops]
  show ?thesis
    using S(4-6) R pool_step_bounded[of "fold (\<lambda>op wp. snd (pool_step op wp)) ops ?wp"]
    unfolding Let_def pool_bounded_def by (auto simp: pool_wf_def)
qed

theorem pool_size_bounds_witness:
  "worker_count (fold (\<lambda>op wp. snd (pool_step op wp))
     [PAdd ''x'', PTick (Ok 500) ''y'' [], PTick (Ok 3) ''z'' [1], PRemove ''worker-x'' True]
     (snd (pool_Start (\<lambda>n. replicate n CHR ''a'') (NewWorkerPool (DefaultWorkerPoolOptions 4))))) \<le> 10"
proof -
  have i: "inj (\<lambda>n. replicate n CHR ''a'')" by (rule injI) (metis length_replicate)
  have o: "0 \<le> MinWorkers (DefaultWorkerPoolOptions 4)"
    "MinWorkers (DefaultWorkerPoolOptions 4) \<le> MaxWorkers (DefaultWorkerPoolOptions 4)"
    "MaxWorkers (DefaultWorkerPoolOptions 4) = 10" by (simp_all add: DefaultWorkerPoolOptions_def)
  show ?thesis
    using pool_size_bounds[OF i o(1,2), of "[PAdd ''x'', PTick (Ok 500) ''y'' [], PTick (Ok 3) ''z'' [1], PRemove ''worker-x'' True]"]
    by (simp add: Let_def o(3))
qed

text \<open>Removing with waiting does not remove.  When \<^verbatim>\<open>RemoveWorker\<close> is asked to wait for the worker, it
  reports success and stops the worker, but keeps it in the pool: the count stays, and a stopped
  worker goes on to hold a place below the maximum.  Without waiting the worker leaves the pool.\<close>

theorem remove_waiting_keeps_worker:
  assumes "pool_wf wp" and "minWorkers wp < worker_count wp" and "map_of (workers wp) i = Some wk"
  shows "fst (RemoveWorker i wt wp) = Ok ()
    \<and> map_of (workers (snd (RemoveWorker i wt wp))) =
        (map_of (workers wp))(i := if wt then Some (snd (worker_Stop wk)) else None)
    \<and> worker_count (snd (RemoveWorker i wt wp)) = (if wt then worker_count wp else worker_count wp - 1)
    \<and> \<not> isRunning (snd (worker_Stop wk))"
proof -
  have d: "distinct (map fst (workers wp))" using assms(1) by (simp add: pool_wf_def)
  from pool_wf_lookup[OF assms(1,3)] obtain wk' where s: "worker_Stop wk = (Ok (), wk')"
    using worker_Stop_pair by metis
  have "workers wp \<noteq> []" using assms(3) by auto
  then have "1 \<le> length (workers wp)" by (cases "workers wp") auto
  moreover have "\<not> isRunning (snd (worker_Stop wk))" by (simp add: worker_Stop_def)
  ultimately show ?thesis
    using assms(2,3) by (auto simp: RemoveWorker_def s length_update length_delete[OF d] fun_eq_iff of_nat_diff)
qed

theorem remove_waiting_keeps_worker_witness:
  "worker_count (snd (RemoveWorker ''worker-a'' True \<lparr>workerOptions = DefaultWorkerOptions 4,
      workers = [(''worker-a'', started ''a'' (DefaultWorkerOptions 4))], enableAutoScale = True, minWorkers = 0,
      maxWorkers = 1, targetQueueSize = 100, p_closed = False, scalers = 1\<rparr>)) = 1"
  using remove_waiting_keeps_worker[of "\<lparr>workerOptions = DefaultWorkerOptions 4,
      workers = [(''worker-a'', started ''a'' (DefaultWorkerOptions 4))], enableAutoScale = True, minWorkers = 0,
      maxWorkers = 1, targetQueueSize = 100, p_closed = False, scalers = 1\<rparr>" "''worker-a''"
      "started ''a'' (DefaultWorkerOptions 4)" True]
  by (simp add: pool_wf_def)
end
