(* ===== verification/App_Errors.thy ===== *)
theory App_Errors
  imports Prelude
begin

text \<open>
  Application errors (\<^verbatim>\<open>pkg/errors\<close>) and how they become HTTP responses
  (\<^verbatim>\<open>pkg/utils/response/response.go\<close>, \<^verbatim>\<open>internal/interfaces/dtos/base.go\<close>), with the decimal
  printing and parsing they use.
\<close>

section \<open>Decimal numbers\<close>

definition digit_char :: "nat \<Rightarrow> char" where
  "digit_char d = char_of (48 + d)"

definition char_digit :: "char \<Rightarrow> nat option" where
  "char_digit c = (let n = of_char c in if 48 \<le> n \<and> n \<le> (57::nat) then Some (n - 48) else None)"

fun fmt_nat :: "nat \<Rightarrow> string" where
  "fmt_nat n = (if n < 10 then [digit_char n] else fmt_nat (n div 10) @ [digit_char (n mod 10)])"

declare fmt_nat.simps [simp del]

text \<open>The verbs \<^verbatim>\<open>%d\<close> and \<^verbatim>\<open>%02d\<close>; the width counts the sign.\<close>

definition fmt_d :: "int \<Rightarrow> string" where
  "fmt_d n = (if n < 0 then CHR ''-'' # fmt_nat (nat (- n)) else fmt_nat (nat n))"

definition fmt_02d :: "int \<Rightarrow> string" where
  "fmt_02d n = (if 0 \<le> n \<and> n < 10 then CHR ''0'' # fmt_d n else fmt_d n)"

fun digits_value :: "nat \<Rightarrow> string \<Rightarrow> nat option" where
  "digits_value acc [] = Some acc"
| "digits_value acc (c # cs) =
     (case char_digit c of None \<Rightarrow> None | Some d \<Rightarrow> digits_value (10 * acc + d) cs)"

text \<open>
  \<^verbatim>\<open>strconv.Atoi\<close>: the value, and the error.  A syntax error comes with the value 0, a number out of
  range with the nearest one.
\<close>

definition atoi_unsigned :: "string \<Rightarrow> nat option" where
  "atoi_unsigned s = (if s = [] then None else digits_value 0 s)"

definition clamp64 :: "int \<Rightarrow> int \<times> bool" where
  "clamp64 n = (sat64 n, in_i64 n)"

definition Atoi :: "string \<Rightarrow> int \<times> bool" where
  "Atoi s =
     (case s of
        [] \<Rightarrow> (0, False)
      | c # cs \<Rightarrow>
          if c = CHR ''-'' then (case atoi_unsigned cs of None \<Rightarrow> (0, False) | Some n \<Rightarrow> clamp64 (- int n))
          else if c = CHR ''+'' then (case atoi_unsigned cs of None \<Rightarrow> (0, False) | Some n \<Rightarrow> clamp64 (int n))
          else (case atoi_unsigned s of None \<Rightarrow> (0, False) | Some n \<Rightarrow> clamp64 (int n)))"

lemma of_char_digit [simp]: "d < 10 \<Longrightarrow> of_char (digit_char d) = 48 + d"
  by (simp add: digit_char_def)

lemma char_digit_char [simp]: "d < 10 \<Longrightarrow> char_digit (digit_char d) = Some d"
  by (simp add: char_digit_def Let_def)

lemma digit_char_no_sign [simp]:
  "d < 10 \<Longrightarrow> digit_char d \<noteq> CHR ''-''" "d < 10 \<Longrightarrow> digit_char d \<noteq> CHR ''+''"
  by (auto dest: arg_cong[of _ _ "of_char :: char \<Rightarrow> nat"])

lemma fmt_nat_not_Nil [simp]: "fmt_nat n \<noteq> []"
  by (subst fmt_nat.simps) simp

lemma digits_value_append:
  "digits_value acc (xs @ ys) = (case digits_value acc xs of None \<Rightarrow> None | Some a \<Rightarrow> digits_value a ys)"
  by (induction acc xs rule: digits_value.induct) (auto split: option.split)

lemma digits_value_fmt_nat: "digits_value 0 (fmt_nat n) = Some n"
proof (induction n rule: fmt_nat.induct)
  case (1 n)
  show ?case
  proof (cases "n < 10")
    case True
    then show ?thesis by (subst fmt_nat.simps) simp
  next
    case False
    then show ?thesis using 1 by (subst fmt_nat.simps) (simp add: digits_value_append)
  qed
qed

lemma digits_value_shift:
  "digits_value acc (fmt_nat n) = Some (acc * 10 ^ length (fmt_nat n) + n)"
proof (induction n arbitrary: acc rule: fmt_nat.induct)
  case (1 n)
  show ?case
  proof (cases "n < 10")
    case True
    then have "fmt_nat n = [digit_char n]" by (subst fmt_nat.simps) simp
    with True show ?thesis by simp
  next
    case False
    then have f: "fmt_nat n = fmt_nat (n div 10) @ [digit_char (n mod 10)]" by (subst fmt_nat.simps) simp
    have "10 * (acc * 10 ^ length (fmt_nat (n div 10)) + n div 10) + n mod 10 =
        acc * 10 ^ Suc (length (fmt_nat (n div 10))) + n"
      by (simp add: algebra_simps)
    then show ?thesis using 1[OF False, of acc] by (simp add: f digits_value_append)
  qed
qed

lemma fmt_nat_hd: "\<exists>d < 10. hd (fmt_nat n) = digit_char d"
proof (induction n rule: fmt_nat.induct)
  case (1 n)
  then show ?case by (cases "n < 10") (subst fmt_nat.simps, auto)+
qed

lemma Atoi_fmt_nat_prefix:
  "Atoi (fmt_nat n @ ys) = (case digits_value n ys of None \<Rightarrow> (0, False) | Some m \<Rightarrow> clamp64 (int m))"
proof -
  obtain c cs where f: "fmt_nat n = c # cs" by (cases "fmt_nat n") auto
  with fmt_nat_hd[of n] obtain d where "d < 10" "c = digit_char d" by auto
  then have "c \<noteq> CHR ''-''" "c \<noteq> CHR ''+''" by simp_all
  then show ?thesis
    using digits_value_append[of 0 "fmt_nat n" ys] digits_value_fmt_nat[of n]
    by (simp add: Atoi_def f atoi_unsigned_def split: option.split)
qed

text \<open>Printing and parsing a 64-bit number.\<close>

lemma Atoi_fmt_d: "in_i64 n \<Longrightarrow> Atoi (fmt_d n) = (n, True)"
proof (cases "n < 0")
  case True
  assume "in_i64 n"
  with True show ?thesis
    by (simp add: fmt_d_def Atoi_def atoi_unsigned_def digits_value_fmt_nat clamp64_def sat64_id)
next
  case False
  assume "in_i64 n"
  with False show ?thesis
    using Atoi_fmt_nat_prefix[of "nat n" "[]"] by (simp add: fmt_d_def clamp64_def sat64_id)
qed

section \<open>Error codes\<close>

definition fmtErrorCode :: "int \<Rightarrow> int \<Rightarrow> int \<Rightarrow> ErrorCode" where
  "fmtErrorCode status m code = \<lparr>ec_status = status, ec_module = m, ec_detailCode = code\<rparr>"

text \<open>The accessors \<^verbatim>\<open>Status\<close>, \<^verbatim>\<open>Module\<close> and \<^verbatim>\<open>DetailCode\<close>.\<close>

definition code_Status :: "ErrorCode \<Rightarrow> int" where "code_Status errCode = ec_status errCode"
definition code_Module :: "ErrorCode \<Rightarrow> int" where "code_Module errCode = ec_module errCode"
definition code_DetailCode :: "ErrorCode \<Rightarrow> int" where "code_DetailCode errCode = ec_detailCode errCode"

definition Code :: "ErrorCode \<Rightarrow> int" where
  "Code errCode =
     (let errStr = fmt_d (ec_status errCode) @ fmt_02d (ec_module errCode) @ fmt_02d (ec_detailCode errCode)
      in fst (Atoi errStr))"

definition go_rem :: "int \<Rightarrow> int \<Rightarrow> int" where
  "go_rem a b = a - go_quot a b * b"

definition NewErrorCode :: "int \<Rightarrow> ErrorCode" where
  "NewErrorCode code = \<lparr>ec_status = go_quot code 10000, ec_module = go_rem (go_quot code 100) 100,
     ec_detailCode = go_rem code 100\<rparr>"

definition ErrInvalidRequest :: ErrorCode where "ErrInvalidRequest = fmtErrorCode 400 0 1"
definition ErrUnauthorized :: ErrorCode where "ErrUnauthorized = fmtErrorCode 401 0 1"
definition ErrInternalServer :: ErrorCode where "ErrInternalServer = fmtErrorCode 500 0 1"
definition ErrNoResponse :: ErrorCode where "ErrNoResponse = fmtErrorCode 500 0 2"
definition ErrNotFound :: ErrorCode where "ErrNotFound = fmtErrorCode 404 0 1"
definition ErrConflict :: ErrorCode where "ErrConflict = fmtErrorCode 409 0 1"
definition ErrQueueFullCode :: ErrorCode where "ErrQueueFullCode = fmtErrorCode 429 0 1"

lemmas error_codes = ErrInvalidRequest_def ErrUnauthorized_def ErrInternalServer_def ErrNoResponse_def
  ErrNotFound_def ErrConflict_def ErrQueueFullCode_def fmtErrorCode_def

lemma go_quot_nonneg: "0 \<le> a \<Longrightarrow> 0 < b \<Longrightarrow> go_quot a b = a div b"
  by (cases "a = 0") (simp_all add: go_quot_def)

lemma go_rem_nonneg: "0 \<le> a \<Longrightarrow> 0 < b \<Longrightarrow> go_rem a b = a mod b"
  by (simp add: go_rem_def go_quot_nonneg minus_div_mult_eq_mod)

lemma digits_value_02d:
  assumes "0 \<le> n" "n < 100"
  shows "digits_value acc (fmt_02d n @ ys) = digits_value (acc * 100 + nat n) ys"
proof (cases "n < 10")
  case True
  then have "fmt_02d n = [CHR ''0'', digit_char (nat n)]"
    using assms by (simp add: fmt_02d_def fmt_d_def) (subst fmt_nat.simps, simp)
  moreover have "digit_char 0 = CHR ''0''" by (simp add: digit_char_def char_of_eq_iff)
  then have "CHR ''0'' = digit_char 0" ..
  ultimately show ?thesis using True assms by (simp add: algebra_simps)
next
  case False
  have "fmt_nat (nat n) = fmt_nat (nat n div 10) @ [digit_char (nat n mod 10)]"
    using False assms by (subst fmt_nat.simps) simp
  moreover have "fmt_nat (nat n div 10) = [digit_char (nat n div 10)]"
    using False assms by (subst fmt_nat.simps) auto
  ultimately have "fmt_02d n = [digit_char (nat n div 10), digit_char (nat n mod 10)]"
    using False assms by (simp add: fmt_02d_def fmt_d_def)
  moreover have "nat n div 10 < 10" "nat n mod 10 < 10" using assms by auto
  ultimately show ?thesis by (simp add: algebra_simps)
qed

text \<open>The printed digits are those of status times 10000 plus module times 100 plus detail.\<close>

lemma Code_eq:
  assumes "0 \<le> ec_status e" "ec_status e < 10 ^ 14"
    "0 \<le> ec_module e" "ec_module e < 100" "0 \<le> ec_detailCode e" "ec_detailCode e < 100"
  shows "Code e = ec_status e * 10000 + ec_module e * 100 + ec_detailCode e"
proof -
  let ?n = "(nat (ec_status e) * 100 + nat (ec_module e)) * 100 + nat (ec_detailCode e)"
  have "Atoi (fmt_nat (nat (ec_status e)) @ fmt_02d (ec_module e) @ fmt_02d (ec_detailCode e) @ []) = clamp64 (int ?n)"
    unfolding Atoi_fmt_nat_prefix digits_value_02d[OF assms(3,4)] digits_value_02d[OF assms(5,6)] by simp
  moreover have n: "int ?n = ec_status e * 10000 + ec_module e * 100 + ec_detailCode e" using assms by simp
  moreover have "in_i64 (int ?n)" using assms unfolding n in_i64_def by simp
  ultimately show ?thesis using assms by (simp add: Code_def Let_def fmt_d_def clamp64_def sat64_id)
qed

text \<open>Error codes round-trip.  For a status below 10^14 and a module and a detail of at most two
  digits, the integer \<^verbatim>\<open>Code\<close> computes by printing and parsing is the one made of their digits, and
  \<^verbatim>\<open>NewErrorCode\<close> recovers the error code from it; conversely every non-negative integer below
  10^18 is the code of the error code read from it.\<close>

theorem error_code_roundtrip:
  assumes "0 \<le> ec_status e" "ec_status e < 10 ^ 14"
    and "0 \<le> ec_module e" "ec_module e < 100" "0 \<le> ec_detailCode e" "ec_detailCode e < 100"
    and "0 \<le> c" "c < 10 ^ 18"
  shows "NewErrorCode (Code e) = e \<and> Code (NewErrorCode c) = c"
proof
  note C = Code_eq[OF assms(1-6)]
  have c: "0 \<le> Code e" using assms C by simp
  have C2: "Code e = (ec_status e * 100 + ec_module e) * 100 + ec_detailCode e" by (simp add: C)
  have d100: "Code e div 100 = ec_status e * 100 + ec_module e" "Code e mod 100 = ec_detailCode e"
  proof -
    have "(x * 100 + d) div 100 = x" "(x * 100 + d) mod 100 = d" if "0 \<le> d" "d < 100" for x d :: int
      using that by simp_all
    then show "Code e div 100 = ec_status e * 100 + ec_module e" "Code e mod 100 = ec_detailCode e"
      unfolding C2 using assms(5,6) by blast+
  qed
  have "Code e div 10000 = Code e div 100 div 100" by (simp add: zdiv_zmult2_eq [symmetric])
  then have "Code e div 10000 = ec_status e" "Code e div 100 mod 100 = ec_module e" "Code e mod 100 = ec_detailCode e"
    using d100 assms(3,4) by simp_all
  then show "NewErrorCode (Code e) = e"
    using c by (simp add: NewErrorCode_def go_quot_nonneg go_rem_nonneg)
  have n: "NewErrorCode c = \<lparr>ec_status = c div 10000, ec_module = c div 100 mod 100, ec_detailCode = c mod 100\<rparr>"
    using assms by (simp add: NewErrorCode_def go_quot_nonneg go_rem_nonneg)
  have "Code (NewErrorCode c) = c div 10000 * 10000 + c div 100 mod 100 * 100 + c mod 100"
    using Code_eq[of "NewErrorCode c"] assms(7,8) by (simp add: n)
  also have "\<dots> = (c div 100 div 100 * 100 + c div 100 mod 100) * 100 + c mod 100"
    by (simp add: zdiv_zmult2_eq [symmetric])
  also have "\<dots> = c" by (simp only: div_mult_mod_eq)
  finally show "Code (NewErrorCode c) = c" .
qed

theorem error_code_roundtrip_witness:
  "NewErrorCode (Code ErrNotFound) = ErrNotFound \<and> Code (NewErrorCode 4290001) = 4290001"
  by (rule error_code_roundtrip) (simp_all add: error_codes)

section \<open>Application errors\<close>

text \<open>
  The standard library's reason phrases, for the statuses the program uses.  \<^verbatim>\<open>New\<close> and \<^verbatim>\<open>Newf\<close> are
  modelled for the calls the program makes, without format arguments.
\<close>

definition StatusText :: "int \<Rightarrow> string" where
  "StatusText code =
     (if code = 200 then ''OK'' else if code = 400 then ''Bad Request'' else if code = 401 then ''Unauthorized''
      else if code = 404 then ''Not Found'' else if code = 409 then ''Conflict''
      else if code = 429 then ''Too Many Requests'' else if code = 500 then ''Internal Server Error'' else '''')"

definition GetErrorMessage :: "ErrorCode \<Rightarrow> string option \<Rightarrow> string" where
  "GetErrorMessage errCode arg = (case arg of Some msg \<Rightarrow> msg | None \<Rightarrow> StatusText (ec_status errCode))"

definition New :: "ErrorCode \<Rightarrow> string option \<Rightarrow> goerr" where
  "New errCode arg = AppError (GetErrorMessage errCode arg) (Code errCode) (GetErrorMessage errCode arg) None errCode"

definition Newf :: "ErrorCode \<Rightarrow> string \<Rightarrow> goerr" where
  "Newf errCode msg = AppError msg (Code errCode) msg None errCode"

text \<open>The text of an error (\<^verbatim>\<open>Error()\<close>).\<close>

fun error_text :: "goerr \<Rightarrow> string" where
  "error_text ErrAdNotFound = ''ad not found''"
| "error_text ErrConcurrentModification = ''concurrent modification detected''"
| "error_text ErrInvalidAdData = ''invalid ad data''"
| "error_text ErrQueueEmpty = ''queue is empty''"
| "error_text ErrQueueFull = ''queue is at capacity''"
| "error_text ErrQueueClosed = ''queue is closed''"
| "error_text ErrItemLocked = ''item is locked by another worker''"
| "error_text RedisNil = ''redis: nil''"
| "error_text (ClientError s) = s"
| "error_text (Errorf s) = s"
| "error_text (Wrapf pre e suf) = pre @ error_text e @ suf"
| "error_text (AppError er cd msg None ec) = msg"
| "error_text (AppError er cd msg (Some e) ec) = error_text e"

lemma code_Status_eq [simp]: "code_Status e = ec_status e"
  by (simp add: code_Status_def)

section \<open>Responses\<close>

text \<open>
  What a handler leaves on the response writer: the status and the JSON body; encoding a value is
  the library's.  \<^verbatim>\<open>WriteHeader\<close> panics on a status that has not three digits.
\<close>

datatype 'a body = JsonData 'a | JsonError string

record 'a http_response =
  http_status :: int
  http_body :: "'a body"

definition respond :: "int \<Rightarrow> 'a body \<Rightarrow> 'a http_response result" where
  "respond s b = (if 100 \<le> s \<and> s \<le> 999 then Ok \<lparr>http_status = s, http_body = b\<rparr> else Panic)"

definition respond_app_error :: "goerr \<Rightarrow> 'a http_response result" where
  "respond_app_error e = respond (code_Status (ae_errorCode e)) (JsonError (ae_err e))"

definition JSON :: "'a option \<Rightarrow> 'a http_response result" where
  "JSON data =
     (case data of
        Some d \<Rightarrow> respond 200 (JsonData d)
      | None \<Rightarrow> respond_app_error (New ErrNoResponse None))"

definition HandleError :: "goerr option \<Rightarrow> 'a http_response result" where
  "HandleError err =
     (case err of
        Some e \<Rightarrow>
          (case e of
             AppError er cd msg orig ec \<Rightarrow> respond_app_error e
           | _ \<Rightarrow> respond_app_error (New ErrInternalServer None))
      | None \<Rightarrow> respond_app_error (New ErrNoResponse None))"

text \<open>
  \<^verbatim>\<open>HandleErrorWithoutContext\<close> returns the JSON text of an application error, which the library
  makes of its message, and for any other error, also nil, the plain text of the internal error.
\<close>

definition HandleErrorWithoutContext :: "(string \<Rightarrow> string) \<Rightarrow> goerr option \<Rightarrow> string" where
  "HandleErrorWithoutContext marshal err =
     (case err of
        Some (AppError er cd msg orig ec) \<Rightarrow> marshal er
      | _ \<Rightarrow> error_text (New ErrInternalServer None))"

text \<open>The base that a handler embeds (\<^verbatim>\<open>dtos/base.go\<close>): an interface of two methods, and its one implementation.\<close>

record 'a Base =
  base_JSON :: "'a option \<Rightarrow> 'a http_response result"
  base_HandleError :: "goerr option \<Rightarrow> 'a http_response result"

definition NewBase :: "'a Base" where
  "NewBase = \<lparr>base_JSON = JSON, base_HandleError = HandleError\<rparr>"

text \<open>Both ways of answering give the client the same message: an application error's own text.\<close>

lemma without_context_message:
  "HandleErrorWithoutContext marshal (Some e) =
     (case e of AppError er cd msg orig ec \<Rightarrow> marshal er | _ \<Rightarrow> ''Internal Server Error'')"
  by (cases e) (simp_all add: HandleErrorWithoutContext_def New_def GetErrorMessage_def StatusText_def error_codes)

text \<open>How an error becomes a response.  Only an application error reaches the client with its own
  status and message; every other error, even one that wraps an application error, is answered with
  500 and the generic message.\<close>

theorem handle_error_status:
  "HandleError (Some e) =
     (case e of
        AppError er cd msg orig ec \<Rightarrow>
          if 100 \<le> ec_status ec \<and> ec_status ec \<le> 999
          then Ok \<lparr>http_status = ec_status ec, http_body = JsonError er\<rparr> else Panic
      | _ \<Rightarrow> Ok \<lparr>http_status = 500, http_body = JsonError ''Internal Server Error''\<rparr>)"
  by (cases e) (simp_all add: HandleError_def respond_app_error_def respond_def New_def GetErrorMessage_def
    StatusText_def error_codes)

end
