(* ===== verification/Ad_Service.thy ===== *)
theory Ad_Service
  imports Worker_Pool App_Errors
begin

text \<open>
  The business logic behind the API (\<^verbatim>\<open>internal/service/ad_service.go\<close>) with its data transfer objects
  (\<^verbatim>\<open>internal/interfaces/dtos\<close>) and their mapping (\<^verbatim>\<open>internal/interfaces/mapper\<close>).
\<close>

section \<open>Data transfer objects\<close>

record AdSubmissionDTO =
  s_title :: string
  s_description :: string
  s_genre :: string
  s_targetAudience :: "string list"
  s_visualElements :: "string list"
  s_callToAction :: string
  s_duration :: int
  s_priority :: int

record AdAnalysisDTO =
  n_effectivenessScore :: float64
  n_strengths :: "string list"
  n_improvementSuggestions :: "string list"

record AdDTO =
  d_adId :: string
  d_title :: string
  d_description :: string
  d_genre :: string
  d_targetAudience :: "string list"
  d_visualElements :: "string list"
  d_callToAction :: string
  d_duration :: int
  d_priority :: int
  d_status :: AdStatus
  d_createdAt :: instant
  d_completedAt :: "instant option"
  d_analysis :: "AdAnalysisDTO option"
  d_error :: string

text \<open>Four further structs of \<^verbatim>\<open>dtos/ads.go\<close> that nothing in the program uses yet.\<close>

record AdListItemDTO =
  i_adId :: string
  i_title :: string
  i_genre :: string
  i_status :: AdStatus
  i_createdAt :: instant
  i_completedAt :: "instant option"
  i_effectivenessScore :: "float64 option"

record AdStatusUpdateDTO = u_status :: AdStatus

record AdErrorDTO = e_message :: string

record AdStatsDTO =
  t_totalAds :: int
  t_statusCounts :: "AdStatus \<rightharpoonup> int"
  t_avgProcessingTime :: float64
  t_avgEffectivenessScore :: float64

definition MapAdSubmissionToAdSubmission :: "AdSubmissionDTO \<Rightarrow> AdSubmission" where
  "MapAdSubmissionToAdSubmission s = \<lparr>Title = s_title s, Description = s_description s, Genre = s_genre s,
     TargetAudience = s_targetAudience s, VisualElements = s_visualElements s,
     CallToAction = s_callToAction s, Duration = s_duration s, Priority = s_priority s\<rparr>"

definition MapAdSubmissionToAdSubmissionDTO :: "AdSubmission \<Rightarrow> AdSubmissionDTO" where
  "MapAdSubmissionToAdSubmissionDTO s = \<lparr>s_title = Title s, s_description = Description s, s_genre = Genre s,
     s_targetAudience = TargetAudience s, s_visualElements = VisualElements s,
     s_callToAction = CallToAction s, s_duration = Duration s, s_priority = Priority s\<rparr>"

definition MapAdAnalysisToAdAnalysisDTO :: "AdAnalysis option \<Rightarrow> AdAnalysisDTO option" where
  "MapAdAnalysisToAdAnalysisDTO analysis =
     (case analysis of
        None \<Rightarrow> None
      | Some an \<Rightarrow> Some \<lparr>n_effectivenessScore = EffectivenessScore an, n_strengths = Strengths an,
          n_improvementSuggestions = ImprovementSuggestions an\<rparr>)"

definition MapAdToAdDTO :: "Ad \<Rightarrow> AdDTO" where
  "MapAdToAdDTO ad = \<lparr>d_adId = AdID ad, d_title = Title ad, d_description = Description ad, d_genre = Genre ad,
     d_targetAudience = TargetAudience ad, d_visualElements = VisualElements ad,
     d_callToAction = CallToAction ad, d_duration = Duration ad, d_priority = Priority ad,
     d_status = Status ad, d_createdAt = CreatedAt ad, d_completedAt = CompletedAt ad,
     d_analysis = MapAdAnalysisToAdAnalysisDTO (Analysis ad), d_error = Error ad\<rparr>"

lemma submission_roundtrip [simp]:
  "MapAdSubmissionToAdSubmission (MapAdSubmissionToAdSubmissionDTO s) = s"
  "MapAdSubmissionToAdSubmissionDTO (MapAdSubmissionToAdSubmission d) = d"
  by (simp_all add: MapAdSubmissionToAdSubmission_def MapAdSubmissionToAdSubmissionDTO_def)

section \<open>The cache of ads\<close>

fun cache_Get :: "'r cache \<Rightarrow> string \<Rightarrow> 'r world \<Rightarrow> Ad result \<times> 'r world" where
  "cache_Get MemoryCache i w = (Get i (repo w), w)"
| "cache_Get (RedisCache rr) i w = on_redis (redis_Get rr i) w"

fun cache_Set :: "'r cache \<Rightarrow> string \<Rightarrow> Ad option \<Rightarrow> duration \<Rightarrow> 'r world \<Rightarrow> unit result \<times> 'r world" where
  "cache_Set MemoryCache i ad ttl w = on_repo (cache_set i ad ttl) w"
| "cache_Set (RedisCache rr) i ad ttl w = on_redis (redis_Set rr i ad ttl) w"

section \<open>The service\<close>

record 'r AdService =
  svc_cache :: "'r cache"
  svc_queue :: "'r DistributedPriorityQueue"
  svc_pool :: "pool_ref option"

definition NewAdService ::
  "'r cache \<Rightarrow> 'r DistributedPriorityQueue \<Rightarrow> pool_ref option \<Rightarrow> 'r AdService" where
  "NewAdService c q p = \<lparr>svc_cache = c, svc_queue = q, svc_pool = p\<rparr>"

definition SubmitAd ::
  "'r AdService \<Rightarrow> string \<Rightarrow> instant \<Rightarrow> instant \<Rightarrow> Ad option \<Rightarrow> 'r world \<Rightarrow> AdDTO result \<times> 'r world" where
  "SubmitAd svc uuid now now' ad w =
     (case ad of
        None \<Rightarrow> (Err (New ErrInvalidRequest None), w)
      | Some ad \<Rightarrow>
          let ad = (if AdID ad = '''' then ad\<lparr>AdID := uuid\<rparr> else ad);
              ad = ad\<lparr>CreatedAt := now, Version := 1, Status := StatusSubmitted, Attempts := 0\<rparr>
          in case save_ad ad (repo w) of
               (Err e, m) \<Rightarrow> (Err (Wrapf ''failed to save ad: '' e ''''), w\<lparr>repo := m\<rparr>)
             | (Panic, m) \<Rightarrow> (Panic, w\<lparr>repo := m\<rparr>)
             | (Ok _, m) \<Rightarrow>
                 (case Enqueue (svc_queue svc) now' ad (w\<lparr>repo := m\<rparr>) of
                    (Panic, ad, w) \<Rightarrow> (Panic, w)
                  | (_, ad, w) \<Rightarrow> (Ok (MapAdToAdDTO ad), w)))"

definition GetAd :: "'r AdService \<Rightarrow> string \<Rightarrow> 'r world \<Rightarrow> AdDTO result \<times> 'r world" where
  "GetAd svc adID w =
     (if adID = '''' then (Err (New ErrInvalidRequest None), w)
      else case cache_Get (svc_cache svc) adID w of
        (Ok ad, w) \<Rightarrow> (Ok (MapAdToAdDTO ad), w)
      | (Panic, w) \<Rightarrow> (Panic, w)
      | (Err _, w) \<Rightarrow>
          (case Get adID (repo w) of
             Err e \<Rightarrow>
               if e = ErrAdNotFound then (Err (New ErrNotFound None), w)
               else (Err (Wrapf ''failed to get ad: '' e ''''), w)
           | Panic \<Rightarrow> (Panic, w)
           | Ok ad \<Rightarrow>
               let w = snd (cache_Set (svc_cache svc) adID (Some ad) 300 w)
               in (Ok (MapAdToAdDTO ad), w)))"

definition all_statuses :: "AdStatus list" where
  "all_statuses = [StatusSubmitted, StatusQueued, StatusProcessing, StatusCompleted, StatusFailed]"

text \<open>The loop over the statuses, which skips a failed listing and stops when there are enough ads.\<close>

fun list_statuses :: "(nat \<Rightarrow> nat list) \<Rightarrow> int \<Rightarrow> int \<Rightarrow> AdStatus list \<Rightarrow> Ad list \<Rightarrow> MemoryRepository \<Rightarrow> Ad list result"
  where
  "list_statuses ords limit offset [] xs m = Ok xs"
| "list_statuses ords limit offset (st # sts) xs m =
     (case FindByStatus (ords 0) st limit offset m of
        Panic \<Rightarrow> Panic
      | Err e \<Rightarrow> list_statuses (ords \<circ> Suc) limit offset sts xs m
      | Ok ys \<Rightarrow>
          let xs = xs @ ys
          in if limit \<le> int (length xs) then go_slice xs 0 limit
             else list_statuses (ords \<circ> Suc) limit offset sts xs m)"

definition ListAds :: "(nat \<Rightarrow> nat list) \<Rightarrow> string \<Rightarrow> int \<Rightarrow> int \<Rightarrow> 'r world \<Rightarrow> AdDTO list result" where
  "ListAds ords status limit offset w =
     (let limit = (if limit \<le> 0 \<or> 100 < limit then 10 else limit);
          offset = (if offset < 0 then 0 else offset)
      in case (if status \<noteq> '''' then FindByStatus (ords 0) (AdStatus_of status) limit offset (repo w)
               else list_statuses ords limit offset all_statuses [] (repo w)) of
           Ok xs \<Rightarrow> Ok (map MapAdToAdDTO xs)
         | Err e \<Rightarrow> Err (New ErrInternalServer None)
         | Panic \<Rightarrow> Panic)"

record ServiceStats =
  ss_queueSize :: int
  ss_workers :: "PoolStats option"
  ss_statusCounts :: "(string \<times> int) list"
  ss_timestamp :: instant

definition count_of :: "int result \<Rightarrow> int" where
  "count_of r = (case r of Ok n \<Rightarrow> n | _ \<Rightarrow> 0)"

text \<open>The statistics read the pool as it is behind the service's pointer at the time of the call.\<close>

definition GetStats :: "pool_heap \<Rightarrow> 'r AdService \<Rightarrow> instant \<Rightarrow> 'r world \<Rightarrow> ServiceStats result" where
  "GetStats pools svc now w = Ok \<lparr>ss_queueSize = count_of (Size w),
     ss_workers = map_option (\<lambda>p. pool_GetStats (pools ! p)) (svc_pool svc),
     ss_statusCounts = map (\<lambda>s. (string_of_status s, count_of (CountByStatus s (repo w)))) all_statuses,
     ss_timestamp = now\<rparr>"

section \<open>Submission\<close>

text \<open>The ad as the service saves it.\<close>

definition submitted :: "string \<Rightarrow> instant \<Rightarrow> Ad \<Rightarrow> Ad" where
  "submitted uuid now ad = (if AdID ad = '''' then ad\<lparr>AdID := uuid\<rparr> else ad)
     \<lparr>CreatedAt := now, Version := 1, Status := StatusSubmitted, Attempts := 0\<rparr>"

lemma SubmitAd_some:
  assumes "uuid \<noteq> ''''" and a_def: "a = submitted uuid now ad"
  shows "SubmitAd svc uuid now now' (Some ad) w =
    (case Enqueue (svc_queue svc) now' a (w\<lparr>repo := put_ad (AdID a) a (repo w)\<rparr>) of
       (Panic, ad, w) \<Rightarrow> (Panic, w) | (_, ad, w) \<Rightarrow> (Ok (MapAdToAdDTO ad), w))"
  using assms(1) by (simp add: SubmitAd_def Let_def a_def submitted_def save_ad_def)

lemma enqueue_result_stored:
  "lookup_ad m (AdID a) = Some a \<Longrightarrow> enqueue_result q a m =
     (if closed q then Err ErrQueueClosed
      else if 0 < MaxCapacity (options q) \<and> MaxCapacity (options q) \<le> status_count StatusQueued m
      then Err ErrQueueFull else Ok ())"
  by (simp add: enqueue_result_def)

lemma Enqueue_refused_ad:
  assumes "AdID ad \<noteq> ''''" and "Enqueue q now ad w = (res, ad', w')"
    and "lookup_ad (repo w) (AdID ad) = Some ad" and "res \<noteq> Ok ()"
  shows "ad' = ad"
  using assms
  by (auto simp: Enqueue_def capacity_error_eq store_eval Let_def split: if_splits)

text \<open>Submission.  Submitting an ad always succeeds, with either cache.  The ad is stored under its
  identifier, or under the fresh one when it has none, created now and with no attempts: queued at
  its version 2 when the queue is open and below its capacity, and else submitted at version 1, which
  nothing takes up later.  The answer shows the stored ad, and no other ad changes.\<close>

lemma SubmitAd_outcome:
  assumes "uuid \<noteq> ''''" and "a = submitted uuid now ad" and "m = put_ad (AdID a) a (repo w)"
  shows "case SubmitAd svc uuid now now' (Some ad) w of (res, w') \<Rightarrow>
    \<exists>b. res = Ok (MapAdToAdDTO b) \<and> lookup_ad (repo w') = (lookup_ad (repo w))(AdID b \<mapsto> b)
      \<and> b = (if closed (svc_queue svc)
               \<or> 0 < MaxCapacity (options (svc_queue svc))
                 \<and> MaxCapacity (options (svc_queue svc)) \<le> status_count StatusQueued m
             then a
             else a\<lparr>Status := StatusQueued, QueuedAt := Some now', EffectivePriority := Priority a, Version := 2\<rparr>)"
proof -
  let ?q = "svc_queue svc" and ?w = "w\<lparr>repo := m\<rparr>"
  have id: "AdID a \<noteq> ''''" and v: "Version a = 1" using assms(1) by (simp_all add: assms(2) submitted_def)
  have l: "lookup_ad (repo ?w) = (lookup_ad (repo w))(AdID a \<mapsto> a)" by (auto simp: assms(3))
  obtain res ad' w' where E: "Enqueue ?q now' a ?w = (res, ad', w')" by (cases "Enqueue ?q now' a ?w")
  note C = Enqueue_cases[OF id, where q = ?q and now = now' and w = ?w, unfolded E fst_conv snd_conv]
  have R: "enqueue_result ?q a (repo ?w) = (if closed ?q then Err ErrQueueClosed
      else if 0 < MaxCapacity (options ?q) \<and> MaxCapacity (options ?q) \<le> status_count StatusQueued m
      then Err ErrQueueFull else Ok ())"
    using l by (simp add: enqueue_result_stored)
  have S: "SubmitAd svc uuid now now' (Some ad) w = (case res of Panic \<Rightarrow> (Panic, w') | _ \<Rightarrow> (Ok (MapAdToAdDTO ad'), w'))"
    using SubmitAd_some[OF assms(1,2), of svc now' w] E by (simp add: assms(3) split: result.split)
  have e: "enqueued now' a = a\<lparr>Status := StatusQueued, QueuedAt := Some now', EffectivePriority := Priority a, Version := 2\<rparr>"
    by (simp add: enqueued_def SetStatus_def Let_def bump_version_def v i64_small)
  show ?thesis
  proof (cases "closed ?q \<or> 0 < MaxCapacity (options ?q) \<and> MaxCapacity (options ?q) \<le> status_count StatusQueued m")
    case True
    then have n: "res \<noteq> Ok ()" "res \<noteq> Panic" using C(1) R by auto
    then have w': "w' = ?w" and "ad' = a"
      using C(1,5) Enqueue_refused_ad[OF id E] l by auto
    with n S True l show ?thesis by (cases res) (auto intro!: exI[of _ a])
  next
    case False
    then have ok: "enqueue_result ?q a (repo ?w) = Ok ()" using R by auto
    then have "res = Ok ()" "ad' = enqueued now' a" "lookup_ad (repo w') = (lookup_ad (repo ?w))(AdID a \<mapsto> enqueued now' a)"
      using C(1-3) by auto
    then have S': "SubmitAd svc uuid now now' (Some ad) w = (Ok (MapAdToAdDTO (enqueued now' a)), w')"
      and l': "lookup_ad (repo w') = (lookup_ad (repo w))(AdID a \<mapsto> enqueued now' a)"
      using S l by simp_all
    show ?thesis unfolding S' prod.case if_not_P[OF False] e [symmetric]
      by (rule exI[of _ "enqueued now' a"]) (simp add: l')
  qed
qed

definition sample_service :: "unit AdService" where
  "sample_service = NewAdService MemoryCache
     (NewDistributedPriorityQueue MemoryCache ''api-1'' DefaultQueueOptions) None"

lemma sample_service_simps [simp]:
  "svc_cache sample_service = MemoryCache" "\<not> closed (svc_queue sample_service)"
  "MaxCapacity (options (svc_queue sample_service)) = 10000"
  by (simp_all add: sample_service_def NewAdService_def NewDistributedPriorityQueue_def DefaultQueueOptions_def)

section \<open>Reading one ad\<close>

text \<open>C34. Reading an ad with the memory cache.  An empty identifier is answered as a bad request and a stored
  ad as it is stored.  An unknown identifier is answered with 500: the repository wraps its
  not-found error, the service compares it with \<^verbatim>\<open>==\<close>, and so the not-found answer is never given.
  Nothing changes in any case.\<close>

theorem get_ad_memory:
  assumes "svc_cache svc = MemoryCache"
  shows "snd (GetAd svc i w) = w
    \<and> (if i = '''' then fst (GetAd svc i w) = Err (New ErrInvalidRequest None)
       else case lookup_ad (repo w) i of
         Some a \<Rightarrow> fst (GetAd svc i w) = Ok (MapAdToAdDTO a)
       | None \<Rightarrow> (\<exists>e. fst (GetAd svc i w) = Err e \<and> errors_is e ErrAdNotFound
           \<and> HandleError (Some e) = Ok \<lparr>http_status = 500, http_body = JsonError ''Internal Server Error''\<rparr>))"
  using assms
  by (auto simp: GetAd_def store_eval err_not_found_def HandleError_def respond_app_error_def respond_def New_def
      GetErrorMessage_def StatusText_def error_codes split: option.split)

theorem get_ad_memory_witness:
  "fst (GetAd sample_service ''a'' \<lparr>repo = sample_store, rds = ()\<rparr>) = Ok (MapAdToAdDTO (sample_ad ''a'' 3 10 StatusQueued))"
  using get_ad_memory[of sample_service "''a''" "\<lparr>repo = sample_store, rds = ()\<rparr>"] by (simp add: sample_store_def)

lemma MapAdToAdDTO_image [simp]: "MapAdToAdDTO (json_image a) = MapAdToAdDTO a"
  by (simp add: MapAdToAdDTO_def json_image_def)

text \<open>C35. Reading an ad with Redis is not invalidated.  While the cached entry lives, \<^verbatim>\<open>GetAd\<close> answers with
  the ad as it was at the first read, whatever the repository has become since.\<close>

theorem get_ad_redis_stale:
  assumes "svc_cache svc = RedisCache rr" and "redis_documented (client rr) kv zs"
    and "kv (rds w) (''ad:'' @ i) = None" and "lookup_ad (repo w) i = Some a" and "i \<noteq> ''''"
    and "\<forall>an. Analysis a = Some an \<longrightarrow> finite_float (EffectivenessScore an)"
    and "AdStatus_of (string_of_status (Status a)) = Status a"
  shows "\<exists>w'. GetAd svc i w = (Ok (MapAdToAdDTO a), w') \<and> repo w' = repo w
    \<and> (\<forall>m. fst (GetAd svc i (w'\<lparr>repo := m\<rparr>)) = Ok (MapAdToAdDTO a))"
proof -
  note D = redis_documentedD[OF assms(2)]
  obtain p where p: "json_Marshal (Some a) = Ok p"
    using assms(6) by (cases "Analysis a") (auto simp: json_Marshal_def)
  have u: "json_Unmarshal p = Ok (json_image a)" using p assms(7) by (rule json_roundtrip)
  let ?r = "snd (cl_set (client rr) (''ad:'' @ i) p 300 (rds w))"
  have miss: "redis_Get rr i (rds w) = (Err ErrAdNotFound, rds w)"
    using assms(3) by (simp add: redis_Get_def D(1))
  have set: "redis_Set rr i (Some a) 300 (rds w) = (Ok (), ?r)"
    by (simp add: redis_Set_def p Let_def wrap_unit_None D(2))
  have hit: "redis_Get rr i ?r = (Ok (json_image a), ?r)"
    by (simp add: redis_Get_def D(1,3) u)
  have "GetAd svc i w = (Ok (MapAdToAdDTO a), w\<lparr>rds := ?r\<rparr>)"
    using assms(1,4,5) by (simp add: GetAd_def on_redis_def miss set store_eval Let_def)
  moreover have "fst (GetAd svc i ((w\<lparr>rds := ?r\<rparr>)\<lparr>repo := m\<rparr>)) = Ok (MapAdToAdDTO a)" for m
    using assms(1,5) hit by (simp add: GetAd_def on_redis_def)
  ultimately show ?thesis by (intro exI[of _ "w\<lparr>rds := ?r\<rparr>"]) simp
qed

theorem get_ad_redis_stale_witness:
  "\<exists>w'. fst (GetAd (NewAdService (RedisCache \<lparr>client = ref_client, defaultTTL = nsMinute\<rparr>) redis_queue None) ''a''
      (w'\<lparr>repo := NewMemoryRepository\<rparr>)) = Ok (MapAdToAdDTO (sample_ad ''a'' 3 10 StatusQueued))"
proof -
  let ?svc = "NewAdService (RedisCache \<lparr>client = ref_client, defaultTTL = nsMinute\<rparr>) redis_queue None"
  have c: "svc_cache ?svc = RedisCache \<lparr>client = ref_client, defaultTTL = nsMinute\<rparr>" by (simp add: NewAdService_def)
  have doc: "redis_documented (client \<lparr>client = ref_client, defaultTTL = nsMinute\<rparr>)
      (\<lambda>r. map_of (ref_kv r)) (\<lambda>r q. map_of (ref_zs r q))"
    by (simp add: ref_client_documented)
  let ?w = "\<lparr>repo = sample_store, rds = \<lparr>ref_kv = [], ref_zs = (\<lambda>_. [])\<rparr>\<rparr>"
  have h: "map_of (ref_kv (rds ?w)) (''ad:'' @ ''a'') = None"
    "lookup_ad (repo ?w) ''a'' = Some (sample_ad ''a'' 3 10 StatusQueued)" "''a'' \<noteq> ''''"
    "\<forall>an. Analysis (sample_ad ''a'' 3 10 StatusQueued) = Some an \<longrightarrow> finite_float (EffectivenessScore an)"
    "AdStatus_of (string_of_status (Status (sample_ad ''a'' 3 10 StatusQueued))) = Status (sample_ad ''a'' 3 10 StatusQueued)"
    by (simp_all add: sample_store_def AdStatus_of_def)
  from get_ad_redis_stale[OF c doc h] show ?thesis by blast
qed

section \<open>Listing\<close>

definition page :: "AdStatus \<Rightarrow> int \<Rightarrow> int \<Rightarrow> nat list \<Rightarrow> MemoryRepository \<Rightarrow> Ad list" where
  "page st limit offset ord m = take (nat limit) (drop (nat offset) (sort_slice newest_first (ads_with_status ord st m)))"

lemma FindByStatus_page:
  assumes "0 \<le> limit" "limit \<le> 100" "0 \<le> offset" "int (length (ads m)) < 2 ^ 62"
  shows "FindByStatus ord st limit offset m = Ok (page st limit offset ord m)"
proof (cases "offset < 2 ^ 62")
  case True
  with assms show ?thesis by (simp add: FindByStatus_eq in_i64_def page_def)
next
  case False
  have "length (ads_with_status ord st m) \<le> length (ads m)"
    by (simp add: length_ads_with_status)
  with False assms have "int (length (ads_with_status ord st m)) \<le> offset" by linarith
  moreover from this have "length (ads_with_status ord st m) \<le> nat offset" by linarith
  ultimately show ?thesis by (simp add: FindByStatus_def page_def)
qed

lemma list_all_pages:
  assumes "0 < limit" "limit \<le> 100" "0 \<le> offset" "int (length (ads m)) < 2 ^ 62"
  shows "int (length xs) < limit \<Longrightarrow> list_statuses ords limit offset sts xs m =
    Ok (take (nat limit) (xs @ concat (map (\<lambda>(k, st). page st limit offset (ords k) m) (enumerate 0 sts))))"
proof (induction sts arbitrary: ords xs)
  case Nil
  then show ?case by simp
next
  case (Cons st sts)
  note F = FindByStatus_page[OF less_imp_le[OF assms(1)] assms(2-4)]
  let ?ys = "xs @ page st limit offset (ords 0) m"
  have o: "(ords \<circ> Suc) k = ords (Suc k)" for k by simp
  have e: "concat (map (\<lambda>(k, st). page st limit offset (ords k) m) (enumerate 0 (st # sts))) =
      page st limit offset (ords 0) m @
      concat (map (\<lambda>(k, st). page st limit offset (ords (Suc k)) m) (enumerate 0 sts))"
    by (simp add: enumerate_Suc_eq comp_def case_prod_unfold)
  show ?case
  proof (cases "limit \<le> int (length ?ys)")
    case True
    then have "go_slice ?ys 0 limit = Ok (take (nat limit) ?ys)" using assms(1) by (simp add: go_slice_def)
    with True show ?thesis unfolding e by (simp add: F Let_def)
  next
    case False
    then have "list_statuses (ords \<circ> Suc) limit offset sts ?ys m = Ok (take (nat limit) (?ys @
        concat (map (\<lambda>(k, st). page st limit offset (ords (Suc k)) m) (enumerate 0 sts))))"
      using Cons.IH[of ?ys "ords \<circ> Suc"] unfolding o by simp
    with False show ?thesis unfolding e list_statuses.simps F result.case Let_def by simp
  qed
qed

text \<open>C36. Listing.  For any query, and fewer than 2^62 stored ads, a listing never fails and never panics:
  with L the limit if it is between 1 and 100 and else 10, and the offset made non-negative, it
  answers with the page of L ads of the given status, newest first, or without a status with the
  first L of the five statuses' pages in the order of the life cycle, whether or not the loop stops
  early.  So it never answers with more than L ads.\<close>

theorem list_ads_total:
  assumes "int (length (ads (repo w))) < 2 ^ 62"
    and "L = (if limit \<le> 0 \<or> 100 < limit then 10 else limit)" and "off = max 0 offset"
  shows "\<exists>xs. ListAds ords status limit offset w = Ok (map MapAdToAdDTO xs) \<and> int (length xs) \<le> L
    \<and> xs = (if status \<noteq> '''' then page (AdStatus_of status) L off (ords 0) (repo w)
            else take (nat L) (concat (map (\<lambda>k. page (all_statuses ! k) L off (ords k) (repo w)) [0..<5])))"
proof -
  have L: "0 < L" "L \<le> 100" and off: "0 \<le> off" using assms(2,3) by auto
  have o': "(if offset < 0 then 0 else offset) = off" using assms(3) by simp
  have e: "map (\<lambda>(k, st). page st L off (ords k) (repo w)) (enumerate 0 all_statuses) =
      map (\<lambda>k. page (all_statuses ! k) L off (ords k) (repo w)) [0..<5]"
    by (simp add: all_statuses_def upt_rec)
  have "list_statuses ords L off all_statuses [] (repo w) =
      Ok (take (nat L) (concat (map (\<lambda>k. page (all_statuses ! k) L off (ords k) (repo w)) [0..<5])))"
    using list_all_pages[OF L off assms(1), of "[]" ords all_statuses] L(1) unfolding e by simp
  moreover have "int (length (page st L off ord m)) \<le> L" for st ord m
    using L by (simp add: page_def)
  moreover have "int (length (take (nat L) xs)) \<le> L" for xs :: "Ad list" using L by simp
  ultimately show ?thesis
    using FindByStatus_page[OF less_imp_le[OF L(1)] L(2) off assms(1)]
    unfolding ListAds_def Let_def assms(2)[symmetric] o' by (cases "status = ''''") simp_all
qed

theorem list_ads_total_witness:
  "\<exists>xs. ListAds (\<lambda>_. []) ''queued'' 1000 (- 3) \<lparr>repo = sample_store, rds = ()\<rparr> = Ok (map MapAdToAdDTO xs)
    \<and> int (length xs) \<le> 10"
proof -
  have n: "int (length (ads (repo \<lparr>repo = sample_store, rds = ()\<rparr>))) < 2 ^ 62" by (simp add: sample_store_def)
  from list_ads_total[OF n refl refl, where ords = "\<lambda>_. []" and status = "''queued''" and limit = 1000 and offset = "- 3"]
  show ?thesis by auto
qed

section \<open>Statistics\<close>

text \<open>The statistics.  They never fail; the size of the queue is the count of the queued ads, and when
  every stored ad has one of the five statuses, the counts by status add up to the number of ads.\<close>

theorem stats_add_up:
  assumes "\<forall>(k, a) \<in> set (ads (repo w)). Status a \<in> set all_statuses"
  shows "\<exists>s. GetStats pools svc now w = Ok s \<and> map fst (ss_statusCounts s) = map string_of_status all_statuses
    \<and> ss_queueSize s = status_count StatusQueued (repo w)
    \<and> sum_list (map snd (ss_statusCounts s)) = int (length (ads (repo w)))"
proof -
  have "(\<Sum>s\<leftarrow>all_statuses. int (length (filter (\<lambda>(k, a). Status a = s) xs))) = int (length xs)"
    if "\<forall>(k, a) \<in> set xs. Status a \<in> set all_statuses" for xs :: "(string \<times> Ad) list"
    using that
  proof (induction xs)
    case (Cons x xs)
    then have "(\<Sum>s\<leftarrow>all_statuses. int (length (filter (\<lambda>(k, a). Status a = s) xs))) = int (length xs)" by simp
    with Cons.prems show ?case by (cases x) (auto simp: all_statuses_def)
  qed (simp add: all_statuses_def)
  from this[OF assms] show ?thesis
    by (simp add: GetStats_def count_of_def Size_def CountByStatus_eq status_count_def comp_def)
qed

theorem stats_add_up_witness:
  "\<exists>s. GetStats [] sample_service 99 \<lparr>repo = sample_store, rds = ()\<rparr> = Ok s \<and> sum_list (map snd (ss_statusCounts s)) = 3"
  using stats_add_up[where w = "\<lparr>repo = sample_store, rds = ()\<rparr>" and svc = sample_service and now = 99 and pools = "[]"]
  by (auto simp: sample_store_def all_statuses_def)

end
