(* ===== verification/Thread_Runs.thy ===== *)
theory Thread_Runs
  imports Interleaving Ad_Service
begin

text \<open>
  The operations of \<^verbatim>\<open>internal/processor/queue.go\<close> and of the worker's loop, run alone with the memory cache,
  are runs of one thread of \<^verbatim>\<open>Interleaving\<close>: each step of a thread is one call of the repository that the
  code makes there, so what holds in every interleaving holds for the code's own operations.
\<close>

abbreviation tsteps :: "'r DistributedPriorityQueue \<Rightarrow> pc \<times> MemoryRepository \<Rightarrow> pc \<times> MemoryRepository \<Rightarrow> bool" where
  "tsteps q \<equiv> (tstep q)\<^sup>*\<^sup>*"

lemma tsteps_cons: "tstep q x y \<Longrightarrow> tsteps q y z \<Longrightarrow> tsteps q x z"
  by (rule converse_rtranclp_into_rtranclp)

lemma tsteps_release: "tsteps q x (p, m) \<Longrightarrow> tsteps q x (p, snd (ReleaseLock i (instanceID q) m))"
  by (rule rtranclp.rtrancl_into_rtrancl) (auto intro: late_release)

lemma tsteps_end: "tstep q x y \<Longrightarrow> tsteps q x y"
  by (rule r_into_rtranclp)

section \<open>Dequeue\<close>

text \<open>From the claim on: the ad is fetched, assigned and written back.\<close>

definition claim_end :: "dequeue_path \<Rightarrow> string \<Rightarrow> Ad result \<Rightarrow> pc" where
  "claim_end p i r = (case r of Ok ad \<Rightarrow> (case p of Fast \<Rightarrow> Returning i ad | Slow \<Rightarrow> Working ad) | _ \<Rightarrow> Idle)"

lemma assign_claimed_run:
  assumes "assign_claimed q i m = (r, m')"
  shows "tsteps q (Claimed p i, m) (claim_end p i r, m')"
proof (cases "Get i m")
  case (Ok ad)
  note f = fetch[OF Ok, of q p]
  let ?a = "IncrementAttempts (AssignWorker (instanceID q) ad)"
  from update_ad_cases[of m ?a] show ?thesis
  proof (elim disjE exE conjE)
    fix b
    assume u: "update_ad ?a m = (Ok (), bump_version ?a, put_ad (AdID ?a) (bump_version ?a) m)"
    then have "r = Ok (bump_version ?a)" "m' = put_ad (AdID ?a) (bump_version ?a) m"
      using assms Ok by (auto simp: assign_claimed_def)
    with assign[OF u, of q p] show ?thesis
      by (intro tsteps_cons[OF f] tsteps_end) (simp add: claim_end_def)
  next
    fix e
    assume u: "update_ad ?a m = (Err e, ?a, m)"
    then have "r = Err e" "m' = m" using assms Ok by (auto simp: assign_claimed_def)
    with assign_lost[OF u, of q p] show ?thesis
      by (intro tsteps_cons[OF f] tsteps_end) (simp add: claim_end_def)
  qed
next
  case (Err e)
  then have "r = Err e" "m' = m" using assms by (auto simp: assign_claimed_def)
  with fetch_lost[OF Err, of q p] show ?thesis by (intro tsteps_end) (simp add: claim_end_def)
next
  case Panic
  then show ?thesis by (simp add: Get_def split: if_splits option.splits)
qed

lemma AcquireLock_bool:
  obtains "AcquireLock now i w ttl m = (Ok True, take_lock now i w ttl m)" | "AcquireLock now i w ttl m = (Ok False, m)"
  using AcquireLock_eval[of now i w ttl m] by (auto split: if_splits)

text \<open>Where a call of \<^verbatim>\<open>Dequeue\<close> leaves its thread.\<close>

definition dequeue_end :: "Ad result \<Rightarrow> pc" where
  "dequeue_end r = (case r of Ok ad \<Rightarrow> Working ad | _ \<Rightarrow> Idle)"

lemma dequeue_end_simps [simp]:
  "dequeue_end (Ok ad) = Working ad" "dequeue_end (Err e) = Idle" "dequeue_end Panic = Idle"
  by (simp_all add: dequeue_end_def)

lemma GetGauge_memory [simp]: "cacheRepo q = MemoryCache \<Longrightarrow> snd (cache_GetGauge (cacheRepo q) k w) = w"
  by (simp add: on_repo_def mem_GetGauge_def)

lemma status_result: "AtomicStatusUpdate now i v f s m = (r, m') \<Longrightarrow> r = Ok () \<or> (\<exists>e. r = Err e)"
  using AtomicStatusUpdate_cases[of now i v f s m] by auto

lemma dequeue_fast_run:
  assumes "cacheRepo q = MemoryCache" and "dequeue_fast q e i w = (att, w')"
  shows "tsteps q (Popped i, repo w) (case att of Return r \<Rightarrow> dequeue_end r | _ \<Rightarrow> Idle, repo w')"
proof (cases "Get i (repo w)")
  case (Err err)
  then show ?thesis using assms read_retry[of i "repo w" err _ q]
    by (auto simp: dequeue_fast_def intro!: tsteps_end split: if_splits)
next
  case Panic
  then show ?thesis by (simp add: Get_def split: if_splits option.splits)
next
  case (Ok ad)
  show ?thesis
  proof (cases "IsProcessable ad")
    case False
    then show ?thesis using assms Ok read_retry[of i "repo w" _ ad q]
      by (auto simp: dequeue_fast_def intro!: tsteps_end)
  next
    case True
    note r = read[OF Ok True, of q]
    let ?L = "AcquireLock (e_now e) (AdID ad) (instanceID q) (LockTTL (options q)) (repo w)"
    show ?thesis
    proof (cases rule: AcquireLock_bool[of "e_now e" "AdID ad" "instanceID q" "LockTTL (options q)" "repo w"])
      case 2
      then show ?thesis using assms Ok True tsteps_cons[OF r tsteps_end[OF lock_taken[OF 2]]]
        by (auto simp: dequeue_fast_def Let_def)
    next
      case 1
      let ?m = "take_lock (e_now e) (AdID ad) (instanceID q) (LockTTL (options q)) (repo w)"
      note k = tsteps_cons[OF r tsteps_cons[OF lock[OF 1, of Fast]]]
      obtain u m2 where U: "AtomicStatusUpdate (e_now e) (AdID ad) (Version ad) StatusQueued StatusProcessing ?m = (u, m2)"
        by (cases "AtomicStatusUpdate (e_now e) (AdID ad) (Version ad) StatusQueued StatusProcessing ?m")
      from status_result[OF U] show ?thesis
      proof (elim disjE exE)
        fix err
        assume u: "u = Err err"
        note c = tsteps_end[OF claim_lost[OF U[unfolded u], of q Fast]]
        show ?thesis
          using assms Ok True 1 U u c tsteps_release[OF c]
          by (auto simp: dequeue_fast_def Let_def intro!: k split: if_splits)
      next
        assume u: "u = Ok ()"
        note c = claim[OF U[unfolded u], of q Fast]
        obtain r3 m3 where A: "assign_claimed q (AdID ad) m2 = (r3, m3)" by (cases "assign_claimed q (AdID ad) m2")
        note a = tsteps_cons[OF c assign_claimed_run[OF A, of Fast]]
        show ?thesis
        proof (cases r3)
          case (Ok ad3)
          have "tsteps q (Locked Fast ad, ?m) (Returning (AdID ad) ad3, m3)" using a Ok by (simp add: claim_end_def)
          then have "tsteps q (Locked Fast ad, ?m) (Working ad3, snd (ReleaseLock (AdID ad) (instanceID q) m3))"
            by (rule rtranclp.rtrancl_into_rtrancl) (rule unlock)
          then show ?thesis using assms \<open>Get i (repo w) = Ok ad\<close> True 1 U u A Ok
            by (auto simp: dequeue_fast_def Let_def on_repo_def mem_GetGauge_def intro!: k)
        next
          case (Err x2)
          then show ?thesis using assms \<open>Get i (repo w) = Ok ad\<close> True 1 U u A tsteps_release[OF a]
            by (auto simp: dequeue_fast_def Let_def claim_end_def intro!: k)
        next
          case Panic
          then show ?thesis using assms \<open>Get i (repo w) = Ok ad\<close> True 1 U u A tsteps_release[OF a]
            by (auto simp: dequeue_fast_def Let_def claim_end_def intro!: k)
        qed
      qed
    qed
  qed
qed

lemma dequeue_slow_run:
  assumes "cacheRepo q = MemoryCache" and "dequeue_slow q e w = (r, w')" and "r \<noteq> Panic"
  shows "tsteps q (NotPopped, repo w) (dequeue_end r, repo w')"
proof (cases "FindByPriority (e_find e) StatusQueued 1 (repo w)")
  case (Err err)
  then show ?thesis by (simp add: FindByPriority_def go_slice_def Let_def split: if_splits)
next
  case Panic
  then show ?thesis using assms by (simp add: dequeue_slow_def)
next
  case (Ok xs)
  show ?thesis
  proof (cases xs)
    case Nil
    then show ?thesis using assms Ok find_none[of "e_find e" "repo w" q]
      by (auto simp: dequeue_slow_def intro!: tsteps_end)
  next
    case (Cons ad ys)
    note f = find[OF Ok[unfolded Cons], of q]
    show ?thesis
    proof (cases rule: AcquireLock_bool[of "e_now e" "AdID ad" "instanceID q" "LockTTL (options q)" "repo w"])
      case 2
      then show ?thesis using assms Ok Cons tsteps_cons[OF f tsteps_end[OF lock_taken[OF 2]]]
        by (auto simp: dequeue_slow_def Let_def)
    next
      case 1
      let ?m = "take_lock (e_now e) (AdID ad) (instanceID q) (LockTTL (options q)) (repo w)"
      note k = tsteps_cons[OF f tsteps_cons[OF lock[OF 1, of Slow]]]
      obtain u m2 where U: "AtomicStatusUpdate (e_now e) (AdID ad) (Version ad) StatusQueued StatusProcessing ?m = (u, m2)"
        by (cases "AtomicStatusUpdate (e_now e) (AdID ad) (Version ad) StatusQueued StatusProcessing ?m")
      from status_result[OF U] show ?thesis
      proof (elim disjE exE)
        fix err
        assume u: "u = Err err"
        note c = tsteps_end[OF claim_lost[OF U[unfolded u], of q Slow]]
        show ?thesis
          using assms Ok Cons 1 U u tsteps_release[OF c]
          by (auto simp: dequeue_slow_def Let_def intro!: k split: if_splits)
      next
        assume u: "u = Ok ()"
        note c = claim[OF U[unfolded u], of q Slow]
        obtain r3 m3 where A: "assign_claimed q (AdID ad) m2 = (r3, m3)" by (cases "assign_claimed q (AdID ad) m2")
        note a = tsteps_cons[OF c assign_claimed_run[OF A, of Slow]]
        have g: "repo (snd (cache_GetGauge MemoryCache queue_count v)) = repo v" for v :: "'a world"
          by (simp add: on_repo_def mem_GetGauge_def)
        show ?thesis using assms Ok Cons 1 U u A a tsteps_release[OF a, of "AdID ad"] g
          by (cases r3) (auto simp: dequeue_slow_def Let_def claim_end_def on_repo_def mem_GetGauge_def intro!: k)
      qed
    qed
  qed
qed

lemma Dequeue_run:
  assumes "cacheRepo q = MemoryCache"
  shows "Dequeue fuel q env w = Some (r, w') \<Longrightarrow> r \<noteq> Panic \<Longrightarrow> tsteps q (Idle, repo w) (dequeue_end r, repo w')"
proof (induction fuel arbitrary: env w r w')
  case 0
  then show ?case by simp
next
  case (Suc fuel)
  obtain pr m where P: "mem_PopFromQueue (e_pop (env 0)) ads_queue (repo w) = (pr, m)"
    by (cases "mem_PopFromQueue (e_pop (env 0)) ads_queue (repo w)")
  have m: "m = repo w" using PopFromQueue_same_ads[OF P] .
  have C: "cache_PopFromQueue (cacheRepo q) (e_pop (env 0)) ads_queue w = (pr, w)"
    using assms P by (simp add: on_repo_def m)
  show ?case
  proof (cases "closed q")
    case True
    then show ?thesis using Suc.prems by (auto simp: Dequeue_step)
  next
    case open': False
    show ?thesis
    proof (cases "\<exists>i. pr = Ok i \<and> i \<noteq> ''''")
      case False
      then have "Dequeue (Suc fuel) q env w = Some (dequeue_slow q (env 0) w)"
        using open' C by (auto simp: Dequeue_step split: result.split)
      then have "dequeue_slow q (env 0) w = (r, w')" using Suc.prems by simp
      from tsteps_cons[OF pop_none[OF P, of q] dequeue_slow_run[OF assms this, folded m]] False Suc.prems(2) m
      show ?thesis by auto
    next
      case True
      then obtain i where i: "pr = Ok i" "i \<noteq> ''''" by blast
      note p = pop[OF P[unfolded i(1)] i(2), of q, unfolded m]
      obtain att w2 where F: "dequeue_fast q (env 0) i w = (att, w2)" by (cases "dequeue_fast q (env 0) i w")
      note f = tsteps_cons[OF p dequeue_fast_run[OF assms F]]
      show ?thesis
      proof (cases att)
        case (Return x)
        then show ?thesis using Suc.prems open' C i F f by (simp add: Dequeue_step)
      next
        case Retry
        then have "Dequeue fuel q (env \<circ> Suc) w2 = Some (r, w')" using Suc.prems open' C i F by (simp add: Dequeue_step)
        from Suc.IH[OF this Suc.prems(2)] f Retry show ?thesis by (auto intro: rtranclp_trans)
      next
        case (RetryThenRelease j)
        then obtain w3 where "Dequeue fuel q (env \<circ> Suc) w2 = Some (r, w3)"
          "w' = w3\<lparr>repo := snd (ReleaseLock j (instanceID q) (repo w3))\<rparr>"
          using Suc.prems open' C i F by (auto simp: Dequeue_step)
        with tsteps_release[OF Suc.IH[OF this(1) Suc.prems(2)]] f RetryThenRelease show ?thesis
          by (auto intro: rtranclp_trans)
      qed
    qed
  qed
qed

section \<open>Complete\<close>

lemma Complete_run:
  assumes "Complete q now now' ad an w = (r, w')"
  shows "tsteps q (Working ad, repo w) (Idle, repo w')"
proof (cases rule: AcquireLock_bool[of now "AdID ad" "instanceID q" "LockTTL (options q)" "repo w"])
  case 2
  then show ?thesis using assms tsteps_end[OF relock_taken[OF 2]] by (auto simp: Complete_def Let_def)
next
  case 1
  let ?m = "take_lock now (AdID ad) (instanceID q) (LockTTL (options q)) (repo w)"
  note k = tsteps_cons[OF relock[OF 1, of an]]
  obtain u m2 where U: "AtomicStatusUpdate now' (AdID ad) (Version ad) StatusProcessing StatusCompleted ?m = (u, m2)"
    by (cases "AtomicStatusUpdate now' (AdID ad) (Version ad) StatusProcessing StatusCompleted ?m")
  have rel: "tsteps q (Releasing (AdID ad), x) (Idle, snd (ReleaseLock (AdID ad) (instanceID q) x))" for x
    by (rule tsteps_end) (rule release)
  from status_result[OF U] show ?thesis
  proof (elim disjE exE)
    fix err
    assume u: "u = Err err"
    note c = tsteps_cons[OF finish_lost[OF U[unfolded u], of q an] rel]
    show ?thesis using assms 1 U u by (auto simp: Complete_def Let_def intro!: k c)
  next
    assume u: "u = Ok ()"
    note c = finish[OF U[unfolded u], of q an]
    show ?thesis
    proof (cases "Get (AdID ad) m2")
      case (Err e)
      note d = tsteps_cons[OF c tsteps_cons[OF reread_lost[OF Err] rel]]
      show ?thesis using assms 1 U u Err by (auto simp: Complete_def Let_def intro!: k d)
    next
      case Panic
      then show ?thesis by (simp add: Get_def split: if_splits option.splits)
    next
      case (Ok b)
      obtain r3 b3 m3 where W: "update_ad (SetAnalysisResults an b) m2 = (r3, b3, m3)"
        by (cases "update_ad (SetAnalysisResults an b) m2")
      have d: "tsteps q (Completing ad an, ?m) (Idle, snd (ReleaseLock (AdID ad) (instanceID q) m3))"
        by (rule tsteps_cons[OF c tsteps_cons[OF reread[OF Ok] tsteps_cons[OF record_analysis[OF W] rel]]])
      then show ?thesis using assms 1 U u Ok W by (auto simp: Complete_def Let_def intro!: k)
    qed
  qed
qed

section \<open>The loop of a worker, and a submission\<close>

lemma iteration_run:
  assumes "cacheRepo q = MemoryCache" and "process_iteration q a e wk w = (st, wk', w')" and "st \<in> {Running, Exited}"
  shows "tsteps q (Idle, repo w) (Idle, repo w')"
proof (cases "i_stop e")
  case True
  then show ?thesis using assms(2) by (simp add: process_iteration_def)
next
  case False
  show ?thesis
  proof (cases "Dequeue (i_fuel e) q (i_rounds e) w")
    case None
    then show ?thesis using assms(2,3) False by (auto simp: process_iteration_def)
  next
    case (Some rw)
    obtain r w2 where rw: "rw = (r, w2)" by (cases rw)
    note D = Dequeue_run[OF assms(1) Some[unfolded rw]]
    show ?thesis
    proof (cases r)
      case (Err err)
      then show ?thesis using D assms(2,3) False Some rw by (auto simp: process_iteration_def split: if_splits)
    next
      case Panic
      then show ?thesis using assms(2,3) False Some rw by (auto simp: process_iteration_def)
    next
      case (Ok ad)
      have d: "tsteps q (Idle, repo w) (Working ad, repo w2)" using D Ok by simp
      show ?thesis
      proof (cases "processAd a e ad")
        case (Err err)
        then have "w' = w2" using assms(2) False Some rw Ok by (auto simp: process_iteration_def Let_def)
        then show ?thesis using d work_lost[of q ad "repo w2"] by (auto intro: rtranclp.rtrancl_into_rtrancl)
      next
        case Panic
        then show ?thesis using assms(2,3) False Some rw Ok by (auto simp: process_iteration_def Let_def)
      next
        case (Ok an)
        obtain c w3 where C: "Complete q (i_lock_now e) (i_done_now e) ad an w2 = (c, w3)"
          by (cases "Complete q (i_lock_now e) (i_done_now e) ad an w2")
        then have "w' = w3" using assms(2,3) False Some rw Ok \<open>r = Ok ad\<close>
          by (auto simp: process_iteration_def Let_def split: result.splits)
        then show ?thesis using d Complete_run[OF C] by (auto intro: rtranclp_trans)
      qed
    qed
  qed
qed

lemma loop_run:
  assumes "cacheRepo q = MemoryCache"
  shows "processLoop q a es wk w = (st, wk', w') \<Longrightarrow> st \<in> {Running, Exited} \<Longrightarrow> tsteps q (Idle, repo w) (Idle, repo w')"
proof (induction es arbitrary: wk w)
  case Nil
  then show ?case by simp
next
  case (Cons e es)
  obtain st2 wk2 w2 where I: "process_iteration q a e wk w = (st2, wk2, w2)" by (cases "process_iteration q a e wk w")
  show ?case
  proof (cases "st2 = Running")
    case True
    then have "processLoop q a es wk2 w2 = (st, wk', w')" using Cons.prems(1) I by simp
    from Cons.IH[OF this Cons.prems(2)] iteration_run[OF assms I] True show ?thesis by (auto intro: rtranclp_trans)
  next
    case False
    then have "st2 = st" "w2 = w'" using Cons.prems(1) I by (cases st2; simp)+
    then show ?thesis using iteration_run[OF assms I] Cons.prems(2) by simp
  qed
qed

lemma SubmitAd_run:
  assumes "cacheRepo (svc_queue svc) = MemoryCache" and "uuid \<noteq> ''''"
    and "lookup_ad (repo w) (AdID (submitted uuid now ad)) = None"
    and "SubmitAd svc uuid now now' (Some ad) w = (r, w')"
  shows "tsteps (svc_queue svc) (Idle, repo w) (Idle, repo w')"
proof -
  let ?q = "svc_queue svc" and ?a = "submitted uuid now ad"
  let ?m = "put_ad (AdID ?a) ?a (repo w)"
  have id: "AdID ?a \<noteq> ''''" "Version ?a = 1" "Status ?a = StatusSubmitted"
    using assms(2) by (simp_all add: submitted_def)
  have s: "tstep ?q (Idle, repo w) (Submitting ?a, ?m)"
    by (rule submit[OF assms(3) id(2,3), of "AdID ?a"]) (simp add: save_ad_def id(1))
  obtain er ea ew where E: "Enqueue ?q now' ?a (w\<lparr>repo := ?m\<rparr>) = (er, ea, ew)"
    by (cases "Enqueue ?q now' ?a (w\<lparr>repo := ?m\<rparr>)")
  have w': "w' = ew"
    using assms(4) SubmitAd_some[OF assms(2) refl, of svc now now' ad w] E by (auto split: result.splits)
  obtain u b m2 where U: "update_ad (SetStatus now' StatusQueued ?a) ?m = (u, b, m2)"
    by (cases "update_ad (SetStatus now' StatusQueued ?a) ?m")
  show ?thesis
  proof (cases "closed ?q \<or> capacity_error ?q (w\<lparr>repo := ?m\<rparr>) \<noteq> Ok ()")
    case True
    then have "ew = w\<lparr>repo := ?m\<rparr>" using E by (auto simp: Enqueue_def split: result.splits if_splits)
    then show ?thesis using tsteps_cons[OF s tsteps_end[OF refuse]] w' by simp
  next
    case False
    show ?thesis
    proof (cases u)
      case (Ok x)
      obtain pr m3 where P: "mem_PushToQueue ads_queue (AdID b) (EffectivePriority b) m2 = (pr, m3)"
        by (cases "mem_PushToQueue ads_queue (AdID b) (EffectivePriority b) m2")
      have "repo ew = m3" using E False U Ok P assms(1)
        by (auto simp: Enqueue_def Let_def on_repo_def mem_IncrementCounter_def)
      then show ?thesis using w' tsteps_cons[OF s tsteps_cons[OF enqueue[OF U[unfolded Ok unit_eq[of x]]] tsteps_end[OF push[OF P]]]] by simp
    next
      case (Err e)
      have "repo ew = m2" using E False U Err by (auto simp: Enqueue_def)
      then show ?thesis using w' tsteps_cons[OF s tsteps_end[OF enqueue_lost[OF U[unfolded Err]]]] by simp
    next
      case Panic
      then show ?thesis using U update_ad_cases[of ?m "SetStatus now' StatusQueued ?a"] by auto
    qed
  qed
qed

lemma run_tsteps:
  assumes "tsteps q (p, m) (p', m')"
  shows "run q n pcs m \<Longrightarrow> pcs t = p \<Longrightarrow> \<exists>n'. run q n' (pcs(t := p')) m'"
  using assms
proof (induction "(p', m')" arbitrary: p' m' rule: rtranclp_induct)
  case base
  then show ?case by auto
next
  case (step y)
  obtain p2 m2 where y: "y = (p2, m2)" by (cases y)
  from step.hyps(3)[OF y step.prems] obtain n' where r: "run q n' (pcs(t := p2)) m2" by blast
  have "run q (Suc n') ((pcs(t := p2))(t := p')) m'"
    by (rule run_step[OF r, where t = t]) (use step.hyps(2) y in simp)
  then show ?case by auto
qed

text \<open>C8. The code's operations are runs of the threads.  With the memory cache, in a process reached by
  some run: when an idle thread runs the loop of a worker alone, for any iterations that neither
  block nor panic, or submits an ad with a fresh identifier alone, the resulting repository is
  reached by a run in which that thread is idle again and the others have not moved.\<close>

theorem operations_are_runs:
  assumes "cacheRepo q = MemoryCache" and "run q n pcs (repo w)" and "pcs t = Idle"
  shows "(\<forall>a es wk st wk' w'. processLoop q a es wk w = (st, wk', w') \<and> st \<in> {Running, Exited} \<longrightarrow>
      (\<exists>n'. run q n' pcs (repo w')))
    \<and> (\<forall>svc uuid now now' ad r w'. svc_queue svc = q \<and> uuid \<noteq> '''' \<and> AdID ad = ''''
        \<and> lookup_ad (repo w) uuid = None \<and> SubmitAd svc uuid now now' (Some ad) w = (r, w') \<longrightarrow>
      (\<exists>n'. run q n' pcs (repo w')))"
proof -
  have same: "pcs(t := Idle) = pcs" using assms(3) by auto
  have R: "\<exists>n'. run q n' pcs m'" if "tsteps q (Idle, repo w) (Idle, m')" for m'
    using run_tsteps[OF that assms(2,3)] same by simp
  have L: "\<exists>n'. run q n' pcs (repo w')"
    if "processLoop q a es wk w = (st, wk', w')" "st \<in> {Running, Exited}" for a es wk st wk' w'
    by (rule R[OF loop_run[OF assms(1) that]])
  have S: "\<exists>n'. run q n' pcs (repo w')"
    if "svc_queue svc = q" "uuid \<noteq> ''''" "AdID ad = ''''" "lookup_ad (repo w) uuid = None"
      "SubmitAd svc uuid now now' (Some ad) w = (r, w')" for svc uuid now now' ad r w'
  proof -
    have "AdID (submitted uuid now ad) = uuid" using that(3) by (simp add: submitted_def)
    with SubmitAd_run[where svc = svc, OF _ that(2) _ that(5)] assms(1) that(1,4) have "tsteps q (Idle, repo w) (Idle, repo w')" by simp
    then show ?thesis by (rule R)
  qed
  show ?thesis using L S by blast
qed

theorem operations_are_runs_witness:
  "\<exists>n. run threads_queue n (\<lambda>_. Idle) (repo (snd (SubmitAd (NewAdService MemoryCache threads_queue None) ''u-1'' 10 11
     (Some (NewAd 9 (sample_submission 3))) (fresh_world ()))))"
proof -
  let ?svc = "NewAdService MemoryCache threads_queue None" and ?ad = "NewAd 9 (sample_submission 3)"
  have q: "cacheRepo threads_queue = MemoryCache" by (simp add: threads_queue_def NewDistributedPriorityQueue_def)
  have r: "run threads_queue 0 (\<lambda>_. Idle) (repo (fresh_world ()))"
    using run_start by (simp add: fresh_world_def)
  obtain x w' where S: "SubmitAd ?svc ''u-1'' 10 11 (Some ?ad) (fresh_world ()) = (x, w')"
    by (cases "SubmitAd ?svc ''u-1'' 10 11 (Some ?ad) (fresh_world ())")
  have "svc_queue ?svc = threads_queue \<and> ''u-1'' \<noteq> '''' \<and> AdID ?ad = '''' \<and> lookup_ad (repo (fresh_world ())) ''u-1'' = None
      \<and> SubmitAd ?svc ''u-1'' 10 11 (Some ?ad) (fresh_world ()) = (x, w')"
    using S by (simp add: NewAdService_def fresh_world_def NewMemoryRepository_def)
  with operations_are_runs[OF q r refl] have "\<exists>n. run threads_queue n (\<lambda>_. Idle) (repo w')" by blast
  then show ?thesis by (simp add: S)
qed

end
