(* ===== verification/Http_Api.thy ===== *)
theory Http_Api
  imports Ad_Service
begin

text \<open>
  The HTTP interface: the handlers (\<^verbatim>\<open>internal/api/handlers/ad_handler.go\<close>), the middleware
  (\<^verbatim>\<open>internal/api/middleware\<close>) and the routes (\<^verbatim>\<open>internal/api/router.go\<close>).  Decoding the JSON body and the
  tag-driven validation are library code and enter as arguments; a request is what the code reads of
  one.  Headers are not modelled.
\<close>

section \<open>Requests and query parameters\<close>

record http_request =
  rq_method :: string
  rq_path :: string
  rq_vars :: "string \<Rightarrow> string option"
  rq_query :: "string \<Rightarrow> string list"
  rq_body :: string

text \<open>\<^verbatim>\<open>Sscanf\<close> with the verb \<^verbatim>\<open>%d\<close>, on ASCII input: spaces, a sign, digits; the rest is ignored.\<close>

definition go_space :: "char \<Rightarrow> bool" where
  "go_space c \<longleftrightarrow> (let n = of_char c :: nat in n = 32 \<or> n = 9 \<or> n = 11 \<or> n = 12 \<or> n = 13)"

definition scan_digits :: "string \<Rightarrow> nat option" where
  "scan_digits s = atoi_unsigned (takeWhile (\<lambda>c. char_digit c \<noteq> None) s)"

definition Sscanf_d :: "string \<Rightarrow> int option" where
  "Sscanf_d s =
     (let s = dropWhile go_space s;
          (neg, s) = (case s of
             [] \<Rightarrow> (False, [])
           | c # cs \<Rightarrow> if c = CHR ''-'' then (True, cs) else if c = CHR ''+'' then (False, cs) else (False, s))
      in case scan_digits s of
           None \<Rightarrow> None
         | Some n \<Rightarrow>
             let v = (if neg then - int n else int n)
             in if in_i64 v then Some v else None)"

definition getIntQueryParam :: "http_request \<Rightarrow> string \<Rightarrow> int \<Rightarrow> int" where
  "getIntQueryParam r name defaultValue =
     (case rq_query r name of
        [] \<Rightarrow> defaultValue
      | v # _ \<Rightarrow>
          (case Sscanf_d v of
             None \<Rightarrow> defaultValue
           | Some value \<Rightarrow> if value < 0 then defaultValue else value))"

section \<open>Handlers\<close>

text \<open>What the API answers with.\<close>

record ListResponse =
  l_status :: "string option"
  l_ads :: "AdDTO list"
  l_limit :: int
  l_offset :: int
  l_count :: int

datatype api_data = AdData AdDTO | ListData ListResponse | StatsData ServiceStats | HealthData instant

type_synonym 'w handler = "http_request \<Rightarrow> 'w \<Rightarrow> api_data http_response result \<times> 'w"

definition answer :: "('a \<Rightarrow> api_data) \<Rightarrow> 'a result \<Rightarrow> api_data http_response result" where
  "answer f r = (case r of Ok x \<Rightarrow> JSON (Some (f x)) | Err e \<Rightarrow> HandleError (Some e) | Panic \<Rightarrow> Panic)"

text \<open>What a request finds outside: the clock readings, the identifier a submission uses, and the pools of
  the process as they are at that time.\<close>

record submit_env =
  b_uuid :: string
  b_new :: instant
  b_created :: instant
  b_submitted :: instant
  b_queued :: instant
  b_pools :: pool_heap

definition submitAd ::
  "(string \<Rightarrow> goerr + AdSubmissionDTO) \<Rightarrow> (AdSubmissionDTO \<Rightarrow> goerr option) \<Rightarrow> 'r AdService \<Rightarrow> submit_env \<Rightarrow>
   'r world handler" where
  "submitAd decode validate svc e r w =
     (case decode (rq_body r) of
        Inl err \<Rightarrow> (HandleError (Some err), w)
      | Inr submission \<Rightarrow>
          (case validate submission of
             Some err \<Rightarrow> (HandleError (Some err), w)
           | None \<Rightarrow>
               let ad = NewAd (b_new e) (MapAdSubmissionToAdSubmission submission);
                   ad = ad\<lparr>AdID := b_uuid e, CreatedAt := b_created e\<rparr>
               in map_prod (answer AdData) id
                    (SubmitAd svc (b_uuid e) (b_submitted e) (b_queued e) (Some ad) w)))"

definition getAd :: "'r AdService \<Rightarrow> 'r world handler" where
  "getAd svc r w =
     (let adID = (case rq_vars r ''id'' of None \<Rightarrow> '''' | Some i \<Rightarrow> i)
      in if adID = '''' then (HandleError (Some (New ErrInvalidRequest None)), w)
         else map_prod (answer AdData) id (GetAd svc adID w))"

definition list_answer :: "string option \<Rightarrow> int \<Rightarrow> int \<Rightarrow> AdDTO list result \<Rightarrow> api_data http_response result" where
  "list_answer st limit offset r = answer (\<lambda>xs. ListData \<lparr>l_status = st, l_ads = xs, l_limit = limit,
     l_offset = offset, l_count = int (length xs)\<rparr>) r"

definition listAds :: "(nat \<Rightarrow> nat list) \<Rightarrow> 'r world handler" where
  "listAds ords r w =
     (let limit = getIntQueryParam r ''limit'' 10;
          offset = getIntQueryParam r ''offset'' 0;
          status = (case rq_query r ''status'' of [] \<Rightarrow> '''' | s # _ \<Rightarrow> s)
      in (list_answer None limit offset (ListAds ords status limit offset w), w))"

definition listAdsByStatus :: "(nat \<Rightarrow> nat list) \<Rightarrow> 'r world handler" where
  "listAdsByStatus ords r w =
     (let status = (case rq_vars r ''status'' of None \<Rightarrow> '''' | Some s \<Rightarrow> s);
          limit = getIntQueryParam r ''limit'' 10;
          offset = getIntQueryParam r ''offset'' 0
      in (list_answer (Some status) limit offset (ListAds ords status limit offset w), w))"

definition getStats :: "pool_heap \<Rightarrow> 'r AdService \<Rightarrow> instant \<Rightarrow> 'r world handler" where
  "getStats pools svc now r w = (answer StatsData (GetStats pools svc now w), w)"

definition healthCheckHandler :: "instant \<Rightarrow> 'w handler" where
  "healthCheckHandler now r w = (respond 200 (JsonData (HealthData now)), w)"

definition notFoundHandler :: "'w handler" where
  "notFoundHandler r w = (respond 404 (JsonError ''Not Found''), w)"

text \<open>The routes, in the order in which they are registered.\<close>

datatype route = RStats | RSubmit | RGet | RList | RListByStatus | RHealth

definition routes :: "(string \<times> string \<times> route) list" where
  "routes = [(''GET'', ''/ads/stats'', RStats), (''POST'', ''/ads'', RSubmit), (''GET'', ''/ads/{id}'', RGet),
     (''GET'', ''/ads'', RList), (''GET'', ''/ads/status/{status}'', RListByStatus), (''GET'', ''/health'', RHealth)]"

section \<open>Middleware\<close>

definition CORSMiddleware :: "'w handler \<Rightarrow> 'w handler" where
  "CORSMiddleware nxt r w =
     (if rq_method r = ''OPTIONS'' then (respond 204 (JsonError ''''), w) else nxt r w)"

definition RecoveryMiddleware :: "'w handler \<Rightarrow> 'w handler" where
  "RecoveryMiddleware nxt r w =
     (case nxt r w of
        (Panic, w) \<Rightarrow> (respond 500 (JsonError ''Internal Server Error''), w)
      | res \<Rightarrow> res)"

definition limitBodySize :: nat where "limitBodySize = 10 * 1024"

definition LoggingMiddleware :: "'w handler \<Rightarrow> 'w handler" where
  "LoggingMiddleware nxt r w =
     nxt (if rq_method r \<in> {''POST'', ''PUT'', ''PATCH'', ''DELETE''}
          then r\<lparr>rq_body := take limitBodySize (rq_body r)\<rparr> else r) w"

definition with_middleware :: "'w handler \<Rightarrow> 'w handler" where
  "with_middleware h = LoggingMiddleware (RecoveryMiddleware (CORSMiddleware h))"

section \<open>The router\<close>

text \<open>
  gorilla/mux matches a path against a template (the argument \<open>pm\<close>, which answers with the
  variables); the first registered route whose template and method match is taken, and a request
  whose path matches only routes of other methods is answered with 405 outside the middleware.
\<close>

type_synonym path_matcher = "string \<Rightarrow> string \<Rightarrow> (string \<Rightarrow> string option) option"

fun dispatch :: "path_matcher \<Rightarrow> http_request \<Rightarrow> (string \<times> string \<times> route) list \<Rightarrow> (route \<times> (string \<Rightarrow> string option)) option"
  where
  "dispatch pm r [] = None"
| "dispatch pm r ((meth, tmpl, rt) # rs) =
     (case pm tmpl (rq_path r) of
        None \<Rightarrow> dispatch pm r rs
      | Some vars \<Rightarrow> if rq_method r = meth then Some (rt, vars) else dispatch pm r rs)"

record 'r Router =
  path_match :: path_matcher
  clean_path :: "string \<Rightarrow> string"
  json_decode :: "string \<Rightarrow> goerr + AdSubmissionDTO"
  validator :: "AdSubmissionDTO \<Rightarrow> goerr option"
  adService :: "'r AdService"

fun route_handler :: "'r Router \<Rightarrow> submit_env \<Rightarrow> (nat \<Rightarrow> nat list) \<Rightarrow> route \<Rightarrow> 'r world handler" where
  "route_handler rt e ords RStats = getStats (b_pools e) (adService rt) (b_new e)"
| "route_handler rt e ords RSubmit = submitAd (json_decode rt) (validator rt) (adService rt) e"
| "route_handler rt e ords RGet = getAd (adService rt)"
| "route_handler rt e ords RList = listAds ords"
| "route_handler rt e ords RListByStatus = listAdsByStatus ords"
| "route_handler rt e ords RHealth = healthCheckHandler (b_new e)"

text \<open>Before it looks for a route, mux redirects a request whose path is not clean to the clean one.\<close>

definition ServeHTTP :: "'r Router \<Rightarrow> submit_env \<Rightarrow> (nat \<Rightarrow> nat list) \<Rightarrow> 'r world handler" where
  "ServeHTTP rt e ords r w =
     (if clean_path rt (rq_path r) \<noteq> rq_path r then (respond 301 (JsonError ''''), w)
      else case dispatch (path_match rt) r routes of
        Some (h, vars) \<Rightarrow> with_middleware (route_handler rt e ords h) (r\<lparr>rq_vars := vars\<rparr>) w
      | None \<Rightarrow>
          if \<exists>(meth, tmpl, h) \<in> set routes. path_match rt tmpl (rq_path r) \<noteq> None
          then (respond 405 (JsonError ''''), w) else notFoundHandler r w)"

section \<open>Properties of the query parameters\<close>

lemma scan_digits_fmt: "scan_digits (fmt_nat n @ ys) = Some n"
  if "ys = [] \<or> char_digit (hd ys) = None"
proof -
  have d: "char_digit c \<noteq> None" if "c \<in> set (fmt_nat n)" for c
    using that
  proof (induction n rule: fmt_nat.induct)
    case (1 n)
    then show ?case by (cases "n < 10") (subst (asm) fmt_nat.simps, auto)+
  qed
  then have "takeWhile (\<lambda>c. char_digit c \<noteq> None) (fmt_nat n @ ys) =
      fmt_nat n @ takeWhile (\<lambda>c. char_digit c \<noteq> None) ys"
    by (intro takeWhile_append2) auto
  also have "takeWhile (\<lambda>c. char_digit c \<noteq> None) ys = []" using that by (cases ys) auto
  finally show ?thesis by (simp add: scan_digits_def atoi_unsigned_def digits_value_fmt_nat)
qed

lemma digit_not_space: "d < 10 \<Longrightarrow> \<not> go_space (digit_char d)"
  by (simp add: go_space_def Let_def)

lemma Sscanf_d_digits:
  assumes "ys = [] \<or> char_digit (hd ys) = None"
  shows "Sscanf_d (fmt_nat n @ ys) = (if int n < 2 ^ 63 then Some (int n) else None)"
proof -
  obtain c cs where f: "fmt_nat n = c # cs" by (cases "fmt_nat n") auto
  with fmt_nat_hd[of n] obtain d where "d < 10" "c = digit_char d" by auto
  then have c: "c \<noteq> CHR ''-''" "c \<noteq> CHR ''+''" "\<not> go_space c" by (simp_all add: digit_not_space)
  have "scan_digits (c # cs @ ys) = Some n" using scan_digits_fmt[OF assms, of n] by (simp add: f)
  with c show ?thesis by (simp add: Sscanf_d_def f Let_def in_i64_def)
qed

text \<open>Query parameters.  A parameter read with a non-negative default is never negative and fits in 64
  bits, whatever the query holds.  The decimal digits of a number are read back as that number, also
  when other characters follow them, except that a number that does not fit is read as the default.\<close>

theorem int_query_param:
  assumes "0 \<le> dflt" "in_i64 dflt"
  shows "0 \<le> getIntQueryParam r name dflt \<and> in_i64 (getIntQueryParam r name dflt)
    \<and> (\<forall>n ys zs. rq_query r name = (fmt_nat n @ ys) # zs \<and> (ys = [] \<or> char_digit (hd ys) = None) \<longrightarrow>
         getIntQueryParam r name dflt = (if int n < 2 ^ 63 then int n else dflt))"
proof -
  have "in_i64 v" if "Sscanf_d s = Some v" for s v
    using that by (auto simp: Sscanf_d_def Let_def split: option.splits if_splits prod.splits)
  then show ?thesis using assms Sscanf_d_digits
    by (auto simp: getIntQueryParam_def split: list.split option.split)
qed

theorem int_query_param_witness:
  "getIntQueryParam \<lparr>rq_method = ''GET'', rq_path = ''/ads'', rq_vars = (\<lambda>_. None),
     rq_query = (\<lambda>k. if k = ''limit'' then [''25x''] else []), rq_body = ''''\<rparr> ''limit'' 10 = 25"
proof -
  have f: "fmt_nat 25 @ ''x'' = ''25x''" by code_simp
  let ?r = "\<lparr>rq_method = ''GET'', rq_path = ''/ads'', rq_vars = (\<lambda>_. None),
     rq_query = (\<lambda>k. if k = ''limit'' then [''25x''] else []), rq_body = ''''\<rparr>"
  have "rq_query ?r ''limit'' = (fmt_nat 25 @ ''x'') # [] \<and> (''x'' = [] \<or> char_digit (hd ''x'') = None)"
    unfolding f by (simp add: char_digit_def)
  moreover have "(0::int) \<le> 10" "in_i64 10" by (simp_all add: in_i64_def)
  ultimately have "getIntQueryParam ?r ''limit'' 10 = (if int 25 < 2 ^ 63 then int 25 else 10)"
    using int_query_param[of 10 ?r "''limit''"] by blast
  then show ?thesis by simp
qed

section \<open>Properties of the endpoints\<close>

text \<open>What the validation library documents of the tag \<^verbatim>\<open>required\<close>, and that its errors are its own.\<close>

definition validate_documented :: "(AdSubmissionDTO \<Rightarrow> goerr option) \<Rightarrow> bool" where
  "validate_documented validate \<longleftrightarrow>
     (\<forall>d. (validate d = None) = (s_title d \<noteq> '''' \<and> s_description d \<noteq> ''''))
   \<and> (\<forall>d e. validate d = Some e \<longrightarrow> (\<exists>msg. e = ClientError msg))"

definition decode_documented :: "(string \<Rightarrow> goerr + AdSubmissionDTO) \<Rightarrow> bool" where
  "decode_documented decode \<longleftrightarrow> (\<forall>s e. decode s = Inl e \<longrightarrow> (\<exists>msg. e = ClientError msg))"

definition internal_error :: "'a http_response" where
  "internal_error = \<lparr>http_status = 500, http_body = JsonError ''Internal Server Error''\<rparr>"

lemma HandleError_client: "HandleError (Some (ClientError msg)) = Ok internal_error"
  by (simp add: HandleError_def respond_app_error_def respond_def New_def GetErrorMessage_def StatusText_def
    error_codes internal_error_def)

lemma with_middleware_POST:
  "rq_method r = ''POST'' \<Longrightarrow> with_middleware h r w =
    (case h (r\<lparr>rq_body := take limitBodySize (rq_body r)\<rparr>) w of
       (Panic, w) \<Rightarrow> (Ok internal_error, w) | res \<Rightarrow> res)"
  by (simp add: with_middleware_def LoggingMiddleware_def RecoveryMiddleware_def CORSMiddleware_def respond_def
    internal_error_def split: result.split prod.split)

lemma update_nonmem: "k \<notin> fst ` set xs \<Longrightarrow> AList.update k v xs = xs @ [(k, v)]"
  by (induction xs) auto

lemma put_ad_fresh_count:
  "lookup_ad m i = None \<Longrightarrow> Status a \<noteq> st \<Longrightarrow> status_count st (put_ad i a m) = status_count st m"
proof -
  assume "lookup_ad m i = None"
  then have "i \<notin> fst ` set (ads m)" by (simp add: map_of_eq_None_iff)
  then have "AList.update i a (ads m) = ads m @ [(i, a)]" by (simp add: update_nonmem)
  then show "Status a \<noteq> st \<Longrightarrow> status_count st (put_ad i a m) = status_count st m" by (simp add: status_count_def)
qed

definition refuses :: "'r DistributedPriorityQueue \<Rightarrow> MemoryRepository \<Rightarrow> bool" where
  "refuses q m \<longleftrightarrow> closed q \<or> 0 < MaxCapacity (options q) \<and> MaxCapacity (options q) \<le> status_count StatusQueued m"

text \<open>C16. Posting an ad.  The body is cut at 10240 characters before it is decoded, so a longer one is
  decoded from its prefix.  When that cannot be decoded, or lacks a title or a description, the
  answer is 500 with the generic message (never a bad request) and nothing is stored.  Otherwise the
  answer is 200 with the ad as it is now stored under its fresh identifier: the submitted texts, a
  priority of 5 when the given one is not positive, no attempts; queued, unless the queue is closed
  or at its capacity: then it is stored as submitted.  No other ad changes.\<close>

theorem post_ads_behaviour:
  assumes "validate_documented validate" "decode_documented decode"
    and "rq_method r = ''POST''" and "b_uuid e \<noteq> ''''" and "lookup_ad (repo w) (b_uuid e) = None"
  shows "case with_middleware (submitAd decode validate svc e) r w of (res, w') \<Rightarrow>
    case decode (take 10240 (rq_body r)) of
      Inl _ \<Rightarrow> res = Ok internal_error \<and> w' = w
    | Inr d \<Rightarrow>
        if s_title d = '''' \<or> s_description d = '''' then res = Ok internal_error \<and> w' = w
        else \<exists>b. res = Ok \<lparr>http_status = 200, http_body = JsonData (AdData (MapAdToAdDTO b))\<rparr>
          \<and> lookup_ad (repo w') = (lookup_ad (repo w))(b_uuid e \<mapsto> b)
          \<and> AdID b = b_uuid e \<and> Title b = s_title d \<and> Description b = s_description d \<and> Attempts b = 0
          \<and> Priority b = (if s_priority d \<le> 0 then 5 else s_priority d)
          \<and> Status b = (if refuses (svc_queue svc) (repo w) then StatusSubmitted else StatusQueued)"
proof -
  have lim: "limitBodySize = 10240" by (simp add: limitBodySize_def)
  note M = with_middleware_POST[OF assms(3), of "submitAd decode validate svc e" w, unfolded lim]
  show ?thesis
  proof (cases "decode (take 10240 (rq_body r))")
    case (Inl err)
    with assms(2) obtain msg where "err = ClientError msg" by (auto simp: decode_documented_def)
    with Inl show ?thesis unfolding M by (simp add: submitAd_def HandleError_client)
  next
    case (Inr d)
    show ?thesis
    proof (cases "validate d")
      case (Some err)
      then obtain msg where "err = ClientError msg" "s_title d = '''' \<or> s_description d = ''''"
      proof -
        have "\<exists>msg. err = ClientError msg" using assms(1) Some unfolding validate_documented_def by blast
        moreover have "s_title d = '''' \<or> s_description d = ''''"
          using assms(1) Some unfolding validate_documented_def by (metis option.distinct(1))
        ultimately show ?thesis using that by blast
      qed
      with Inr Some show ?thesis unfolding M by (simp add: submitAd_def HandleError_client)
    next
      case None
      then have ne: "\<not> (s_title d = '''' \<or> s_description d = '''')"
        using assms(1) by (auto simp: validate_documented_def)
      let ?ad = "NewAd (b_new e) (MapAdSubmissionToAdSubmission d)\<lparr>AdID := b_uuid e, CreatedAt := b_created e\<rparr>"
      let ?a = "submitted (b_uuid e) (b_submitted e) ?ad"
      have a: "AdID ?a = b_uuid e" "Status ?a = StatusSubmitted" "Title ?a = s_title d"
        "Description ?a = s_description d" "Attempts ?a = 0" "Priority ?a = (if s_priority d \<le> 0 then 5 else s_priority d)"
        using assms(4) by (simp_all add: submitted_def MapAdSubmissionToAdSubmission_def)
      have c: "status_count StatusQueued (put_ad (AdID ?a) ?a (repo w)) = status_count StatusQueued (repo w)"
        using assms(5) a by (simp add: put_ad_fresh_count)
      obtain res w' where S: "SubmitAd svc (b_uuid e) (b_submitted e) (b_queued e) (Some ?ad) w = (res, w')"
        by (cases "SubmitAd svc (b_uuid e) (b_submitted e) (b_queued e) (Some ?ad) w")
      from SubmitAd_outcome[OF assms(4) refl refl, where svc = svc and now = "b_submitted e" and now' = "b_queued e"
          and ad = ?ad and w = w, unfolded S c prod.case]
      obtain b where b: "res = Ok (MapAdToAdDTO b)" "lookup_ad (repo w') = (lookup_ad (repo w))(AdID b \<mapsto> b)"
        and be: "b = (if refuses (svc_queue svc) (repo w) then ?a else ?a\<lparr>Status := StatusQueued, QueuedAt := Some (b_queued e),
            EffectivePriority := Priority ?a, Version := 2\<rparr>)"
        unfolding refuses_def by blast
      have f: "AdID b = b_uuid e" "Title b = s_title d" "Description b = s_description d" "Attempts b = 0"
        "Priority b = (if s_priority d \<le> 0 then 5 else s_priority d)"
        "Status b = (if refuses (svc_queue svc) (repo w) then StatusSubmitted else StatusQueued)"
        unfolding be using a by (simp_all del: MapAdSubmissionToAdSubmission_def)
      have r: "with_middleware (submitAd decode validate svc e) r w =
          (Ok \<lparr>http_status = 200, http_body = JsonData (AdData (MapAdToAdDTO b))\<rparr>, w')"
        unfolding M using Inr None S b(1) by (simp add: submitAd_def Let_def answer_def JSON_def respond_def)
      show ?thesis unfolding r prod.case Inr sum.case if_not_P[OF ne]
        using b(2) f by (intro exI[of _ b]) simp
    qed
  qed
qed


definition sample_router :: "unit Router" where
  "sample_router = \<lparr>
     path_match = (\<lambda>tmpl p. if tmpl \<in> {''/ads/stats'', ''/ads'', ''/health''}
         then if p = tmpl then Some (\<lambda>_. None) else None
       else if tmpl = ''/ads/{id}'' \<and> take 5 p = ''/ads/'' \<and> drop 5 p \<noteq> '''' \<and> CHR ''/'' \<notin> set (drop 5 p)
         then Some [''id'' \<mapsto> drop 5 p]
       else if tmpl = ''/ads/status/{status}'' \<and> take 12 p = ''/ads/status/'' \<and> drop 12 p \<noteq> '''' \<and> CHR ''/'' \<notin> set (drop 12 p)
         then Some [''status'' \<mapsto> drop 12 p]
       else None),
     clean_path = (\<lambda>p. if p = ''/ads/.'' then ''/ads'' else if p = ''/ads/..'' then ''/'' else p),
     json_decode = (\<lambda>s. if s = ''{}'' then Inr (MapAdSubmissionToAdSubmissionDTO (sample_submission 3))
       else Inl (ClientError ''unexpected EOF'')),
     validator = (\<lambda>d. if s_title d \<noteq> '''' \<and> s_description d \<noteq> '''' then None else Some (ClientError ''required'')),
     adService = sample_service\<rparr>"

definition sample_env :: submit_env where
  "sample_env = \<lparr>b_uuid = ''u-1'', b_new = 9, b_created = 10, b_submitted = 10, b_queued = 11, b_pools = []\<rparr>"

theorem post_ads_behaviour_witness:
  "\<exists>b. fst (with_middleware (submitAd (json_decode sample_router) (validator sample_router) sample_service sample_env)
      \<lparr>rq_method = ''POST'', rq_path = ''/ads'', rq_vars = (\<lambda>_. None), rq_query = (\<lambda>_. []), rq_body = ''{}''\<rparr>
      (fresh_world ())) = Ok \<lparr>http_status = 200, http_body = JsonData (AdData (MapAdToAdDTO b))\<rparr>
    \<and> Title b = ''Dragon Kingdom'' \<and> Status b = StatusQueued"
proof -
  let ?r = "\<lparr>rq_method = ''POST'', rq_path = ''/ads'', rq_vars = (\<lambda>_. None), rq_query = (\<lambda>_. []), rq_body = ''{}''\<rparr>"
  let ?dec = "json_decode sample_router" and ?val = "validator sample_router"
  have d: "?dec (take 10240 (rq_body ?r)) = Inr (MapAdSubmissionToAdSubmissionDTO (sample_submission 3))"
    by (simp add: sample_router_def)
  have n: "\<not> (s_title (MapAdSubmissionToAdSubmissionDTO (sample_submission 3)) = ''''
      \<or> s_description (MapAdSubmissionToAdSubmissionDTO (sample_submission 3)) = '''')"
    "s_title (MapAdSubmissionToAdSubmissionDTO (sample_submission 3)) = ''Dragon Kingdom''"
    by (simp_all add: MapAdSubmissionToAdSubmissionDTO_def sample_submission_def)
  have q: "\<not> refuses (svc_queue sample_service) (repo (fresh_world ()))"
    by (simp add: refuses_def status_count_def fresh_world_def NewMemoryRepository_def)
  have h: "validate_documented ?val" "decode_documented ?dec" "rq_method ?r = ''POST''" "b_uuid sample_env \<noteq> ''''"
    "lookup_ad (repo (fresh_world ())) (b_uuid sample_env) = None"
    by (auto simp: validate_documented_def decode_documented_def sample_router_def sample_env_def fresh_world_def
        NewMemoryRepository_def split: if_splits)
  obtain res w' where R: "with_middleware (submitAd ?dec ?val sample_service sample_env) ?r (fresh_world ()) = (res, w')"
    by (cases "with_middleware (submitAd ?dec ?val sample_service sample_env) ?r (fresh_world ())")
  from post_ads_behaviour[OF h, where svc = sample_service,
      unfolded R prod.case d sum.case if_not_P[OF n(1)] if_not_P[OF q]]
  show ?thesis unfolding R fst_conv n(2) by blast
qed

text \<open>What gorilla/mux documents of its templates: one without variables matches itself only, and a
  variable takes a non-empty segment without a slash.  And of its cleaning of a path: it removes the
  segments \<open>.\<close> and \<open>..\<close>, and leaves a path of proper segments alone.\<close>

definition mux_documented :: "path_matcher \<Rightarrow> (string \<Rightarrow> string) \<Rightarrow> bool" where
  "mux_documented pm cl \<longleftrightarrow>
     (\<forall>t \<in> {''/ads/stats'', ''/ads'', ''/health''}. (\<forall>p. (pm t p \<noteq> None) = (p = t)) \<and> cl t = t)
   \<and> (\<forall>p vars. pm ''/ads/{id}'' p = Some vars \<longrightarrow> (\<exists>i. p = ''/ads/'' @ i \<and> CHR ''/'' \<notin> set i))
   \<and> (\<forall>i. i \<noteq> '''' \<and> CHR ''/'' \<notin> set i \<longrightarrow> pm ''/ads/{id}'' (''/ads/'' @ i) = Some [''id'' \<mapsto> i])
   \<and> (\<forall>i. i \<notin> {'''', ''.'', ''..''} \<and> CHR ''/'' \<notin> set i \<longrightarrow> cl (''/ads/'' @ i) = ''/ads/'' @ i)
   \<and> cl ''/ads/.'' = ''/ads'' \<and> cl ''/ads/..'' = ''/''
   \<and> (\<forall>p vars. pm ''/ads/status/{status}'' p = Some vars \<longrightarrow> (\<exists>s. p = ''/ads/status/'' @ s))"

lemma mux_documentedD:
  assumes "mux_documented pm cl"
  shows mux_fixed: "t \<in> {''/ads/stats'', ''/ads'', ''/health''} \<Longrightarrow> (pm t p \<noteq> None) = (p = t)"
    and mux_fixed_clean: "t \<in> {''/ads/stats'', ''/ads'', ''/health''} \<Longrightarrow> cl t = t"
    and mux_id: "i \<noteq> '''' \<Longrightarrow> CHR ''/'' \<notin> set i \<Longrightarrow> pm ''/ads/{id}'' (''/ads/'' @ i) = Some [''id'' \<mapsto> i]"
    and mux_id_clean: "i \<notin> {'''', ''.'', ''..''} \<Longrightarrow> CHR ''/'' \<notin> set i \<Longrightarrow> cl (''/ads/'' @ i) = ''/ads/'' @ i"
    and mux_unclean: "cl ''/ads/.'' = ''/ads''" "cl ''/ads/..'' = ''/''"
proof -
  note D = assms[unfolded mux_documented_def]
  note F = D[THEN conjunct1, THEN bspec]
  show "t \<in> {''/ads/stats'', ''/ads'', ''/health''} \<Longrightarrow> (pm t p \<noteq> None) = (p = t)"
    by (drule F) (drule conjunct1, erule spec)
  show "t \<in> {''/ads/stats'', ''/ads'', ''/health''} \<Longrightarrow> cl t = t" by (drule F) (erule conjunct2)
  show "i \<noteq> '''' \<Longrightarrow> CHR ''/'' \<notin> set i \<Longrightarrow> pm ''/ads/{id}'' (''/ads/'' @ i) = Some [''id'' \<mapsto> i]"
    using D by (elim conjE) simp
  show "i \<notin> {'''', ''.'', ''..''} \<Longrightarrow> CHR ''/'' \<notin> set i \<Longrightarrow> cl (''/ads/'' @ i) = ''/ads/'' @ i"
    using D by (elim conjE) simp
  show "cl ''/ads/.'' = ''/ads''" using D by (elim conjE) assumption
  show "cl ''/ads/..'' = ''/''" using D by (elim conjE) assumption
qed

lemma HandleError_not_Err: "HandleError e \<noteq> Err x"
  by (auto simp: HandleError_def respond_app_error_def respond_def split: option.splits goerr.splits if_splits)

lemma answer_not_Err: "answer f r \<noteq> Err e"
  using HandleError_not_Err by (cases r) (auto simp: answer_def JSON_def respond_def)

lemma GetAd_repo: "repo (snd (GetAd svc i w)) = repo w"
proof (cases "svc_cache svc")
  case MemoryCache
  then show ?thesis by (cases "Get i (repo w)") (simp_all add: GetAd_def)
next
  case (RedisCache rr)
  have r: "repo (snd (on_redis f v)) = repo v" for f :: "'a \<Rightarrow> 'b result \<times> 'a" and v
    by (simp add: on_redis_def case_prod_unfold)
  obtain x v where g: "on_redis (redis_Get rr i) w = (x, v)" by (cases "on_redis (redis_Get rr i) w")
  with r[of "redis_Get rr i" w] have v: "repo v = repo w" by simp
  have s: "repo (snd (on_redis (redis_Set rr i ad ttl) v)) = repo w" for ad ttl
    by (simp add: on_redis_def case_prod_unfold v)
  show ?thesis using RedisCache v s
    by (auto simp: GetAd_def g Let_def split: result.split)
qed

lemma with_middleware_cases:
  assumes "\<And>r. case h r w of (res, w') \<Rightarrow> (\<forall>e. res \<noteq> Err e) \<and> P w'" and "P w"
  shows "\<exists>resp w'. with_middleware h r w = (Ok resp, w') \<and> P w'"
proof -
  define r' where "r' = (if rq_method r \<in> {''POST'', ''PUT'', ''PATCH'', ''DELETE''}
    then r\<lparr>rq_body := take limitBodySize (rq_body r)\<rparr> else r)"
  obtain res w' where h: "h r' w = (res, w')" by (cases "h r' w")
  with assms(1)[of r'] have "\<forall>e. res \<noteq> Err e" "P w'" by simp_all
  with h assms(2) show ?thesis
    unfolding with_middleware_def LoggingMiddleware_def RecoveryMiddleware_def CORSMiddleware_def r'_def [symmetric]
    by (cases res) (auto simp: respond_def)
qed

lemma route_handler_keeps_repo:
  assumes "h \<noteq> RSubmit"
  shows "case route_handler rt e ords h r w of (res, w') \<Rightarrow> (\<forall>x. res \<noteq> Err x) \<and> repo w' = repo w"
  using assms
  by (cases h) (auto simp: getStats_def getAd_def listAds_def listAdsByStatus_def healthCheckHandler_def list_answer_def
    respond_def answer_not_Err HandleError_not_Err GetAd_repo Let_def case_prod_unfold split: option.split)

lemma submitAd_not_Err: "fst (submitAd decode validate svc e r w) \<noteq> Err x"
  by (auto simp: submitAd_def Let_def HandleError_not_Err answer_not_Err split: sum.split option.split)

lemma route_handler_not_Err: "case route_handler rt e ords h r w of (res, w') \<Rightarrow> (\<forall>x. res \<noteq> Err x) \<and> True"
proof (cases "h = RSubmit")
  case True
  then show ?thesis using submitAd_not_Err[of "json_decode rt" "validator rt" "adService rt" e r w]
    by (simp add: case_prod_unfold)
next
  case False
  then show ?thesis using route_handler_keeps_repo[where rt = rt and e = e and ords = ords and r = r and w = w]
    by (simp add: case_prod_unfold)
qed

lemma ServeHTTP_answers: "\<exists>resp w'. ServeHTTP rt e ords r w = (Ok resp, w')"
proof (cases "dispatch (path_match rt) r routes")
  case None
  then show ?thesis by (auto simp: ServeHTTP_def respond_def notFoundHandler_def)
next
  case (Some p)
  then obtain h vars where p: "dispatch (path_match rt) r routes = Some (h, vars)" by (cases p) auto
  from with_middleware_cases[where P = "\<lambda>_. True" and h = "route_handler rt e ords h" and w = w and r = "r\<lparr>rq_vars := vars\<rparr>",
      OF route_handler_not_Err]
  show ?thesis by (auto simp: ServeHTTP_def p respond_def)
qed

lemma ServeHTTP_keeps_repo:
  assumes "mux_documented (path_match rt) (clean_path rt)" and "rq_method r \<noteq> ''POST'' \<or> rq_path r \<noteq> ''/ads''"
  shows "repo (snd (ServeHTTP rt e ords r w)) = repo w"
proof (cases "dispatch (path_match rt) r routes")
  case None
  then show ?thesis by (auto simp: ServeHTTP_def respond_def notFoundHandler_def)
next
  case (Some p)
  then obtain h vars where p: "dispatch (path_match rt) r routes = Some (h, vars)" by (cases p) auto
  have "(path_match rt ''/ads'' (rq_path r) \<noteq> None) = (rq_path r = ''/ads'')"
    by (rule mux_fixed[OF assms(1)]) simp
  with p assms(2) have "h \<noteq> RSubmit" by (auto simp: routes_def split: option.splits if_splits)
  from with_middleware_cases[where P = "\<lambda>w'. repo w' = repo w" and h = "route_handler rt e ords h" and w = w
      and r = "r\<lparr>rq_vars := vars\<rparr>", OF route_handler_keeps_repo[OF this]]
  show ?thesis by (auto simp: ServeHTTP_def p)
qed

lemma with_middleware_GET: "rq_method r = ''GET'' \<Longrightarrow> h r w = (Ok x, w') \<Longrightarrow> with_middleware h r w = (Ok x, w')"
  by (simp add: with_middleware_def LoggingMiddleware_def RecoveryMiddleware_def CORSMiddleware_def)

lemma serve_stats:
  assumes "mux_documented (path_match rt) (clean_path rt)" and "rq_method r = ''GET''" "rq_path r = ''/ads/stats''"
  shows "\<exists>s. GetStats (b_pools e) (adService rt) (b_new e) w = Ok s
    \<and> ServeHTTP rt e ords r w = (Ok \<lparr>http_status = 200, http_body = JsonData (StatsData s)\<rparr>, w)"
proof -
  obtain s where s: "GetStats (b_pools e) (adService rt) (b_new e) w = Ok s" by (simp add: GetStats_def)
  have F: "(path_match rt ''/ads/stats'' (rq_path r) \<noteq> None) = (rq_path r = ''/ads/stats'')"
    "clean_path rt ''/ads/stats'' = ''/ads/stats''" using mux_fixed[OF assms(1)] mux_fixed_clean[OF assms(1)] by simp_all
  from F(1) obtain vars where "path_match rt ''/ads/stats'' (rq_path r) = Some vars" using assms(3) by auto
  then have d: "dispatch (path_match rt) r routes = Some (RStats, vars)" using assms(2) by (simp add: routes_def)
  have "with_middleware (route_handler rt e ords RStats) (r\<lparr>rq_vars := vars\<rparr>) w =
      (Ok \<lparr>http_status = 200, http_body = JsonData (StatsData s)\<rparr>, w)"
    using assms(2) by (intro with_middleware_GET) (simp_all add: getStats_def s answer_def JSON_def respond_def)
  with s d F(2) show ?thesis by (simp add: ServeHTTP_def assms(3))
qed

text \<open>Every error of \<^verbatim>\<open>GetAd\<close> for a non-empty identifier wraps the repository's: none is an application error.\<close>

lemma GetAd_error:
  assumes "i \<noteq> ''''" and "fst (GetAd svc i w) = Err x"
  shows "HandleError (Some x) = Ok internal_error"
proof -
  have wrapped: "HandleError (Some (Wrapf a y b)) = Ok internal_error" for a y b
    by (simp add: HandleError_def respond_app_error_def respond_def New_def GetErrorMessage_def StatusText_def
      error_codes internal_error_def)
  have "x = Wrapf ''failed to get ad: '' (err_not_found i) ''''"
    using assms by (auto simp: GetAd_def Get_def err_not_found_def Let_def
        split: if_splits result.splits prod.splits option.splits)
  then show ?thesis by (simp only: wrapped)
qed

lemma with_middleware_panic: "rq_method r = ''GET'' \<Longrightarrow> h r w = (Panic, w') \<Longrightarrow> with_middleware h r w = (Ok internal_error, w')"
  by (simp add: with_middleware_def LoggingMiddleware_def RecoveryMiddleware_def CORSMiddleware_def respond_def
    internal_error_def)

text \<open>The response for one ad, given what the service answers.\<close>

definition ad_response :: "AdDTO result \<Rightarrow> api_data http_response" where
  "ad_response x = (case x of Ok a \<Rightarrow> \<lparr>http_status = 200, http_body = JsonData (AdData a)\<rparr>
     | _ \<Rightarrow> internal_error)"

lemma serve_one_ad:
  assumes "mux_documented (path_match rt) (clean_path rt)" and "rq_method r = ''GET''" "rq_path r = ''/ads/'' @ i"
    and "i \<notin> {'''', ''stats'', ''.'', ''..''}" "CHR ''/'' \<notin> set i" and "GetAd (adService rt) i w = (x, w2)"
  shows "ServeHTTP rt e ords r w = (Ok (ad_response x), w2)"
proof -
  have "path_match rt ''/ads/stats'' (rq_path r) = None"
    using mux_fixed[OF assms(1), of "''/ads/stats''" "rq_path r"] assms(3,4) by simp
  moreover have "path_match rt ''/ads'' (rq_path r) = None"
    using mux_fixed[OF assms(1), of "''/ads''" "rq_path r"] assms(3,4) by simp
  moreover have "path_match rt ''/ads/{id}'' (rq_path r) = Some [''id'' \<mapsto> i]"
    unfolding assms(3) using assms(4,5) by (intro mux_id[OF assms(1)]) simp_all
  moreover have c: "clean_path rt (rq_path r) = rq_path r"
    unfolding assms(3) using assms(4,5) by (intro mux_id_clean[OF assms(1)]) simp_all
  ultimately have d: "dispatch (path_match rt) r routes = Some (RGet, [''id'' \<mapsto> i])"
    using assms(2) by (simp add: routes_def)
  let ?r = "r\<lparr>rq_vars := [''id'' \<mapsto> i]\<rparr>"
  have g: "route_handler rt e ords RGet ?r w = (answer AdData x, w2)" using assms(4,6) by (simp add: getAd_def)
  have m: "rq_method ?r = ''GET''" using assms(2) by simp
  have "with_middleware (route_handler rt e ords RGet) ?r w = (Ok (ad_response x), w2)"
  proof (cases x)
    case (Ok a)
    with g show ?thesis by (intro with_middleware_GET[OF m]) (simp add: answer_def JSON_def respond_def ad_response_def)
  next
    case (Err y)
    then have "HandleError (Some y) = Ok internal_error" using GetAd_error[of i "adService rt" w y] assms(4,6) by simp
    with Err g show ?thesis by (intro with_middleware_GET[OF m]) (simp add: answer_def ad_response_def)
  next
    case Panic
    with g show ?thesis using with_middleware_panic[OF m, where h = "route_handler rt e ords RGet" and w = w and w' = w2]
      by (simp add: answer_def ad_response_def)
  qed
  with d c show ?thesis by (simp add: ServeHTTP_def)
qed

lemma serve_unclean:
  assumes "mux_documented (path_match rt) (clean_path rt)" and "rq_path r = ''/ads/'' @ i" and "i = ''.'' \<or> i = ''..''"
  shows "ServeHTTP rt e ords r w = (Ok \<lparr>http_status = 301, http_body = JsonError ''''\<rparr>, w)"
  using mux_unclean[OF assms(1)] assms(2,3) by (auto simp: ServeHTTP_def respond_def)

text \<open>C33. The API as a whole.  Every request is answered: no panic and no error leaves the router.  Only a
  \<^verbatim>\<open>POST\<close> to \<^verbatim>\<open>/ads\<close> changes the repository; \<^verbatim>\<open>GET /ads/stats\<close> is the statistics, although the template
  of an ad's route matches it too.  \<^verbatim>\<open>GET /ads/.\<close> and \<^verbatim>\<open>GET /ads/..\<close> are redirected by the router.  For any
  other segment i, \<^verbatim>\<open>GET /ads/i\<close> leaves the state that \<^verbatim>\<open>GetAd\<close> leaves; it is answered with 200 and the ad
  that \<^verbatim>\<open>GetAd\<close> returns, and each error of \<^verbatim>\<open>GetAd\<close>, an unknown identifier included, with 500 and the
  generic message, never with 404.\<close>

theorem serve_http:
  assumes "mux_documented (path_match rt) (clean_path rt)"
  shows "\<exists>resp w'. ServeHTTP rt e ords r w = (Ok resp, w')
    \<and> (rq_method r \<noteq> ''POST'' \<or> rq_path r \<noteq> ''/ads'' \<longrightarrow> repo w' = repo w)
    \<and> (rq_method r = ''GET'' \<and> rq_path r = ''/ads/stats'' \<longrightarrow>
         (\<exists>s. GetStats (b_pools e) (adService rt) (b_new e) w = Ok s
            \<and> resp = \<lparr>http_status = 200, http_body = JsonData (StatsData s)\<rparr>))
    \<and> (\<forall>i. rq_method r = ''GET'' \<and> rq_path r = ''/ads/'' @ i \<and> i \<notin> {'''', ''stats''} \<and> CHR ''/'' \<notin> set i \<longrightarrow>
         (if i = ''.'' \<or> i = ''..'' then http_status resp = 301 \<and> w' = w
          else w' = snd (GetAd (adService rt) i w)
            \<and> resp = (case fst (GetAd (adService rt) i w) of
                Ok a \<Rightarrow> \<lparr>http_status = 200, http_body = JsonData (AdData a)\<rparr>
              | _ \<Rightarrow> \<lparr>http_status = 500, http_body = JsonError ''Internal Server Error''\<rparr>)))"
proof -
  obtain resp w' where R: "ServeHTTP rt e ords r w = (Ok resp, w')" using ServeHTTP_answers[of rt e ords r w] by blast
  have G: "if i = ''.'' \<or> i = ''..'' then http_status resp = 301 \<and> w' = w
      else w' = snd (GetAd (adService rt) i w) \<and> resp = ad_response (fst (GetAd (adService rt) i w))"
    if "rq_method r = ''GET'' \<and> rq_path r = ''/ads/'' @ i \<and> i \<notin> {'''', ''stats''} \<and> CHR ''/'' \<notin> set i" for i
    using that R serve_unclean[OF assms, of r i e ords w]
      serve_one_ad[OF assms, where r = r and e = e and ords = ords and w = w and i = i
        and x = "fst (GetAd (adService rt) i w)" and ?w2.0 = "snd (GetAd (adService rt) i w)"]
    by auto
  show ?thesis
    using ServeHTTP_keeps_repo[OF assms, of r e ords w] serve_stats[OF assms, of r e w ords] R
      G[unfolded ad_response_def internal_error_def]
    by (intro exI[of _ resp] exI[of _ w']) auto
qed

lemma sample_router_documented: "mux_documented (path_match sample_router) (clean_path sample_router)"
proof -
  have t: "take 5 (''/ads/'' @ i) = ''/ads/''" "drop 5 (''/ads/'' @ i) = i" for i by simp_all
  have a: "\<exists>i. p = ''/ads/'' @ i \<and> CHR ''/'' \<notin> set i" if "take 5 p = ''/ads/''" "CHR ''/'' \<notin> set (drop 5 p)" for p
    using that append_take_drop_id[of 5 p] by metis
  have b: "\<exists>i. p = ''/ads/status/'' @ i" if "take 12 p = ''/ads/status/''" for p
    using that append_take_drop_id[of 12 p] by metis
  show ?thesis
    unfolding mux_documented_def using a b t
    by (intro conjI) (simp_all add: sample_router_def split: if_splits)
qed

theorem serve_http_witness:
  "\<exists>s. fst (ServeHTTP sample_router sample_env (\<lambda>_. [])
      \<lparr>rq_method = ''GET'', rq_path = ''/ads/stats'', rq_vars = (\<lambda>_. None), rq_query = (\<lambda>_. []), rq_body = ''''\<rparr>
      (fresh_world ())) = Ok \<lparr>http_status = 200, http_body = JsonData (StatsData s)\<rparr>"
proof -
  let ?r = "\<lparr>rq_method = ''GET'', rq_path = ''/ads/stats'', rq_vars = (\<lambda>_. None), rq_query = (\<lambda>_. []), rq_body = ''''\<rparr>"
  have r: "rq_method ?r = ''GET'' \<and> rq_path ?r = ''/ads/stats''" by simp
  from serve_http[OF sample_router_documented, where r = ?r and e = sample_env and ords = "\<lambda>_. []" and w = "fresh_world ()"] r
  show ?thesis by (metis fst_conv)
qed

end
