(* ===== verification/Life_Cycle.thy ===== *)
theory Life_Cycle
  imports Queue_Progress
begin

text \<open>
  The life cycle of an ad.  What the fields of a stored ad are follows from its status: this is a
  predicate of the state between two operations only (\<^verbatim>\<open>Dequeue\<close> and \<^verbatim>\<open>Complete\<close> write an ad in two
  steps), so the proof uses what each operation does as a whole; for the priority scans it is an
  interpretation of their locale.
\<close>

section \<open>The fields that a status determines\<close>

definition life_cycle :: "string \<Rightarrow> Ad \<Rightarrow> bool" where
  "life_cycle inst a \<longleftrightarrow>
     (case Status a of
        StatusSubmitted \<Rightarrow> QueuedAt a = None \<and> Attempts a = 0 \<and> WorkerID a = '''' \<and> Analysis a = None \<and> CompletedAt a = None
      | StatusQueued \<Rightarrow> QueuedAt a \<noteq> None \<and> Attempts a = 0 \<and> WorkerID a = '''' \<and> Analysis a = None \<and> CompletedAt a = None
      | StatusProcessing \<Rightarrow> QueuedAt a \<noteq> None \<and> Attempts a = 1 \<and> WorkerID a = inst \<and> Analysis a = None \<and> CompletedAt a = None
      | StatusCompleted \<Rightarrow> QueuedAt a \<noteq> None \<and> Attempts a = 1 \<and> WorkerID a = inst \<and> Analysis a \<noteq> None \<and> CompletedAt a \<noteq> None
      | _ \<Rightarrow> False)
     \<and> ProcessingStartedAt a = None \<and> Error a = ''''"

lemmas ad_operations = NewAd_def enqueued_def dequeued_def completed_def SetStatus_def bump_version_def set_status_bump_def
  IncrementAttempts_def AssignWorker_def SetAnalysisResults_def Let_def AdSubmission.defs Ad.defs

text \<open>Each change of an ad leads from one status to the next with the fields of that status.\<close>

lemma life_cycle_new: "life_cycle inst ((NewAd now s)\<lparr>AdID := i\<rparr>)"
  by (simp add: life_cycle_def ad_operations)

lemma life_cycle_enqueued: "life_cycle inst a \<Longrightarrow> Status a = StatusSubmitted \<Longrightarrow> life_cycle inst (enqueued now a)"
  by (simp add: life_cycle_def ad_operations)

lemma life_cycle_dequeued: "life_cycle inst a \<Longrightarrow> Status a = StatusQueued \<Longrightarrow> life_cycle inst (dequeued inst now a)"
  by (simp add: life_cycle_def ad_operations i64_small)

lemma life_cycle_completed: "life_cycle inst a \<Longrightarrow> Status a = StatusProcessing \<Longrightarrow> life_cycle inst (completed now an a)"
  by (simp add: life_cycle_def ad_operations)

interpretation life: priority_invariant "life_cycle inst" for inst
proof
  show "life_cycle inst (bump_version a)" if "life_cycle inst a" for a
    using that by (cases "Status a") (simp_all add: life_cycle_def bump_version_def)
next
  show "life_cycle inst (a\<lparr>EffectivePriority := p\<rparr>)" if "life_cycle inst a" for a p
    using that by (cases "Status a") (simp_all add: life_cycle_def)
qed

lemma life_never: "life.all_ads inst m \<Longrightarrow> never.all_ads m"
  by (simp add: life.all_ads_def never.all_ads_def life_cycle_def never_started_def)

section \<open>The operations keep it\<close>

lemma life_write:
  assumes "life.all_ads inst m" and "store_wf m'" and "lookup_ad m' = lookup_ad m
    \<or> (\<exists>k b. lookup_ad m' = (lookup_ad m)(k \<mapsto> b) \<and> life_cycle inst b)"
  shows "life.all_ads inst m'"
  using assms by (auto simp: life.all_ads_def split: if_splits)

lemma life_submit:
  assumes "life.all_ads inst (repo w)"
  shows "life.all_ads inst (repo (queue_step q (QSubmit now now' s i) w))"
proof (cases "i = ''''")
  case True
  then have "repo (queue_step q (QSubmit now now' s i) w) = repo w"
    by (auto simp: Let_def save_ad_def Enqueue_def update_ad_def split: result.split)
  with assms show ?thesis by simp
next
  case False
  let ?ad = "(NewAd now s)\<lparr>AdID := i\<rparr>" and ?w = "w\<lparr>repo := put_ad i ((NewAd now s)\<lparr>AdID := i\<rparr>) (repo w)\<rparr>"
  have id: "AdID ?ad = i" "Status ?ad = StatusSubmitted" by simp_all
  have step: "queue_step q (QSubmit now now' s i) w = snd (snd (Enqueue q now' ?ad ?w))"
    using False by (simp add: Let_def save_ad_def)
  have saved: "life.all_ads inst (repo ?w)"
    using life.all_ads_put[OF assms life_cycle_new id(1) False] by simp
  then have wf: "store_wf (repo (snd (snd (Enqueue q now' ?ad ?w))))"
    using filed.Enqueue_keeps[where w = ?w and ad = ?ad and q = q and now = now'] life.all_ads_wf by simp
  have ne: "AdID ?ad \<noteq> ''''" using False by simp
  note E = Enqueue_cases[OF ne, where q = q and now = now' and w = ?w]
  show ?thesis
  proof (cases "enqueue_result q ?ad (repo ?w) = Ok ()")
    case True
    have "life_cycle inst (enqueued now' ?ad)" by (rule life_cycle_enqueued[OF life_cycle_new id(2)])
    with E(3)[OF True] show ?thesis unfolding step by (intro life_write[OF saved wf]) blast
  next
    case False
    from E(5)[OF this] saved show ?thesis unfolding step by simp
  qed
qed

lemma life_dequeue:
  assumes "life.all_ads (instanceID q) (repo w)" and "Dequeue fuel q env w = Some (res, w')"
  shows "life.all_ads (instanceID q) (repo w')"
proof -
  note wf = life.all_ads_wf[OF assms(1)]
  have wf': "store_wf (repo w')" using filed.Dequeue_keeps[OF assms(2)] wf by simp
  have "life_cycle (instanceID q) (dequeued (instanceID q) t a)"
    if "lookup_ad (repo w) (AdID a) = Some a" "Status a = StatusQueued" for a t
    using life_cycle_dequeued[OF life.all_ads_lookup[OF assms(1) that(1)] that(2)] .
  with Dequeue_cases[OF assms(2) wf] show ?thesis by (intro life_write[OF assms(1) wf']) blast
qed

lemma life_complete:
  assumes "life.all_ads inst (repo w)"
  shows "life.all_ads inst (repo (snd (Complete q now now' ad an w)))"
proof -
  note wf = life.all_ads_wf[OF assms]
  have wf': "store_wf (repo (snd (Complete q now now' ad an w)))" using filed.Complete_keeps[where w = w] wf by simp
  show ?thesis
  proof (cases "lock_free now (AdID ad) (instanceID q) (repo w)")
    case False
    with assms show ?thesis by (simp add: Complete_locked)
  next
    case True
    show ?thesis
    proof (cases "\<exists>b. lookup_ad (repo w) (AdID ad) = Some b \<and> Version b = Version ad \<and> Status b = StatusProcessing")
      case yes: True
      then obtain b where b: "lookup_ad (repo w) (AdID ad) = Some b" "Version b = Version ad" "Status b = StatusProcessing"
        by blast
      note k = store_wf_lookup[OF wf b(1)]
      have "life_cycle inst (completed now' an b)" by (rule life_cycle_completed[OF life.all_ads_lookup[OF assms b(1)] b(3)])
      moreover have "lookup_ad (repo (snd (Complete q now now' ad an w))) = (lookup_ad (repo w))(AdID ad \<mapsto> completed now' an b)"
        using Complete_ok(2)[OF True _ b(1) _ b(2,3)] k by simp
      ultimately show ?thesis by (intro life_write[OF assms wf']) blast
    next
      case False
      then show ?thesis
        using Complete_refused(2)[OF True, of now' an] by (intro life_write[OF assms wf']) blast
    qed
  qed
qed

lemma life_maintenance: "life.all_ads inst (repo w) \<Longrightarrow> life.all_ads inst (repo (StartMaintenanceLoop q evs w))"
  by (induction q evs w rule: StartMaintenanceLoop.induct)
    (auto simp: requeue_idle_world life_never life.updateQueuePriorities_keeps life.BoostLowPriorityItems_keeps)

lemma queue_run_life:
  "life.all_ads (instanceID q) (repo w) \<Longrightarrow> life.all_ads (instanceID q) (repo (fold (queue_step q) ops w))"
proof (induction ops arbitrary: w)
  case (Cons op ops)
  have "life.all_ads (instanceID q) (repo (queue_step q op w))"
  proof (cases op)
    case (QSubmit now now' s i)
    then show ?thesis using life_submit[OF Cons.prems] by blast
  next
    case (QDequeue fuel env)
    then show ?thesis using Cons.prems life_dequeue by (auto split: option.split)
  qed (simp_all add: life_complete life_maintenance Cons.prems)
  from Cons.IH[OF this] show ?case by simp
qed simp

text \<open>C20. The life cycle of an ad.  After any submissions, dequeues, completions (of any ad and with any
  version) and rounds of the maintenance loop, in any order and with either cache, every stored ad
  has one of four statuses and the fields of that status.  A submitted ad has no queue time, no
  attempt, no worker and no analysis; a queued ad has a queue time and nothing more; an ad that is
  processing has exactly one attempt and the worker of this instance, but no analysis yet; a completed ad
  has the one attempt, the worker, an analysis and a completion time.  No ad is ever failed, carries
  an error text or a time at which its processing started.\<close>

theorem queue_life_cycle:
  assumes "lookup_ad (repo (fold (queue_step q) ops (fresh_world r))) k = Some a"
  shows "(case Status a of
        StatusSubmitted \<Rightarrow> QueuedAt a = None \<and> Attempts a = 0 \<and> WorkerID a = '''' \<and> Analysis a = None \<and> CompletedAt a = None
      | StatusQueued \<Rightarrow> QueuedAt a \<noteq> None \<and> Attempts a = 0 \<and> WorkerID a = '''' \<and> Analysis a = None \<and> CompletedAt a = None
      | StatusProcessing \<Rightarrow> QueuedAt a \<noteq> None \<and> Attempts a = 1 \<and> WorkerID a = instanceID q \<and> Analysis a = None \<and> CompletedAt a = None
      | StatusCompleted \<Rightarrow> QueuedAt a \<noteq> None \<and> Attempts a = 1 \<and> WorkerID a = instanceID q \<and> Analysis a \<noteq> None \<and> CompletedAt a \<noteq> None
      | _ \<Rightarrow> False)
    \<and> ProcessingStartedAt a = None \<and> Error a = ''''"
proof -
  have "life.all_ads (instanceID q) (repo (fresh_world r))"
    by (simp add: fresh_world_def life.all_ads_def) (simp add: NewMemoryRepository_def)
  from life.all_ads_lookup[OF queue_run_life[OF this] assms] show ?thesis unfolding life_cycle_def .
qed

theorem queue_life_cycle_witness:
  "\<exists>a. lookup_ad (repo (fold (queue_step (NewDistributedPriorityQueue MemoryCache ''api-1'' DefaultQueueOptions))
     [QSubmit 10 11 (sample_submission 3) ''a''] (fresh_world ()))) ''a'' = Some a
     \<and> Status a = StatusQueued \<and> QueuedAt a \<noteq> None \<and> Attempts a = 0 \<and> WorkerID a = ''''"
proof -
  let ?q = "NewDistributedPriorityQueue MemoryCache ''api-1'' DefaultQueueOptions :: unit DistributedPriorityQueue"
  let ?ops = "[QSubmit 10 11 (sample_submission 3) ''a'']"
  let ?new = "(NewAd 10 (sample_submission 3))\<lparr>AdID := ''a''\<rparr>"
  let ?w = "(fresh_world ())\<lparr>repo := snd (save_ad ?new (repo (fresh_world ())))\<rparr>"
  have ok: "enqueue_result ?q ?new (repo ?w) = Ok ()" and i: "AdID ?new \<noteq> ''''"
    by (simp_all add: enqueue_result_def NewDistributedPriorityQueue_def DefaultQueueOptions_def status_count_def
      fresh_world_def NewMemoryRepository_def save_ad_def NewAd_def sample_submission_def AdSubmission.defs Ad.defs)
  have l: "lookup_ad (repo (fold (queue_step ?q) ?ops (fresh_world ()))) ''a'' = Some (enqueued 11 ?new)"
    using Enqueue_cases(3)[OF i ok, of 11] by (simp add: Let_def)
  have "Status (enqueued 11 ?new) = StatusQueued" by (simp add: ad_operations)
  with queue_life_cycle[OF l] l show ?thesis by auto
qed

end
