(* ===== verification/Queue_Spec.thy ===== *)
theory Queue_Spec
  imports Queue_Complete Queue_Progress
begin

text \<open>
  The abstract queue that \<^verbatim>\<open>internal/processor/queue.go\<close> implements with the memory cache: a table of
  versions, statuses and keys with a capacity.  The abstraction of a repository keeps these of every
  ad and forgets its text, its workers, its times and the locks; every call of the code is a step of
  the abstract queue that gives the same answer.
\<close>

section \<open>The abstract queue\<close>

text \<open>A key is the effective priority and the creation time.\<close>

type_synonym key = "int \<times> instant"

datatype entry = Entry (en_version: int) (en_status: AdStatus) (en_key: key)

type_synonym pqueue = "string \<rightharpoonup> entry"

definition key_le :: "key \<Rightarrow> key \<Rightarrow> bool" where
  "key_le p q \<longleftrightarrow> fst p < fst q \<or> fst p = fst q \<and> snd p \<le> snd q"

definition queued :: "pqueue \<Rightarrow> string set" where
  "queued P = {k. \<exists>e. P k = Some e \<and> en_status e = StatusQueued}"

definition room :: "int \<Rightarrow> pqueue \<Rightarrow> bool" where
  "room cap P \<longleftrightarrow> cap \<le> 0 \<or> int (card (queued P)) < cap"

text \<open>\<open>P\<close> has an entry of this version and, for the second, of this status.\<close>

definition current :: "pqueue \<Rightarrow> string \<Rightarrow> int \<Rightarrow> bool" where
  "current P k v \<longleftrightarrow> (\<exists>e. P k = Some e \<and> en_version e = v)"

definition in_work :: "pqueue \<Rightarrow> string \<Rightarrow> int \<Rightarrow> bool" where
  "in_work P k v \<longleftrightarrow> (\<exists>e. P k = Some e \<and> en_version e = v \<and> en_status e = StatusProcessing)"

definition first :: "pqueue \<Rightarrow> string \<Rightarrow> bool" where
  "first P k \<longleftrightarrow> k \<in> queued P
     \<and> (\<forall>k' \<in> queued P. key_le (en_key (the (P k))) (en_key (the (P k'))))"

text \<open>An answer names the identifier, and the version that the caller knew.\<close>

datatype answer =
    Saved string entry
  | Entered string int key
  | Full
  | Refused string int
  | Taken string
  | NothingQueued
  | Finished string int
  | NotFinished string int
  | Unspecified

fun set_status :: "AdStatus \<Rightarrow> entry \<Rightarrow> entry" where
  "set_status s (Entry v s' p) = Entry (i64 (i64 (v + 1) + 1)) s p"

inductive pq_step :: "int \<Rightarrow> pqueue \<Rightarrow> answer \<Rightarrow> pqueue \<Rightarrow> bool" for cap where
  pq_saved: "pq_step cap P (Saved k e) (P(k \<mapsto> e))"
| pq_entered: "room cap P \<Longrightarrow> current P k v \<Longrightarrow>
    pq_step cap P (Entered k v p) (P(k \<mapsto> Entry (i64 (v + 1)) StatusQueued p))"
| pq_full: "\<not> room cap P \<Longrightarrow> pq_step cap P Full P"
| pq_refused: "room cap P \<Longrightarrow> \<not> current P k v \<Longrightarrow> pq_step cap P (Refused k v) P"
| pq_taken: "first P k \<Longrightarrow> pq_step cap P (Taken k) (P(k := map_option (set_status StatusProcessing) (P k)))"
| pq_nothing: "queued P = {} \<Longrightarrow> pq_step cap P NothingQueued P"
| pq_finished: "in_work P k v \<Longrightarrow>
    pq_step cap P (Finished k v) (P(k := map_option (set_status StatusCompleted) (P k)))"
| pq_not_finished: "\<not> in_work P k v \<Longrightarrow> pq_step cap P (NotFinished k v) P"

inductive_simps pq_step_simps:
  "pq_step cap P (Saved k e) P'" "pq_step cap P (Entered k v p) P'" "pq_step cap P Full P'"
  "pq_step cap P (Refused k v) P'" "pq_step cap P (Taken k) P'" "pq_step cap P NothingQueued P'"
  "pq_step cap P (Finished k v) P'" "pq_step cap P (NotFinished k v) P'" "pq_step cap P Unspecified P'"

text \<open>A series of steps.\<close>

inductive pq_trace :: "int \<Rightarrow> pqueue \<Rightarrow> answer list \<Rightarrow> pqueue \<Rightarrow> bool" for cap where
  pq_start: "pq_trace cap P [] P"
| pq_next: "pq_step cap P a Q \<Longrightarrow> pq_trace cap Q as R \<Longrightarrow> pq_trace cap P (a # as) R"

inductive_cases pq_trace_ConsE: "pq_trace cap P (a # as) R"
inductive_cases pq_trace_NilE: "pq_trace cap P [] R"

section \<open>The calls of the code\<close>

datatype call =
    CSave Ad
  | CEnqueue instant Ad
  | CDequeue "nat \<Rightarrow> round_env"
  | CComplete instant instant Ad AdAnalysis

text \<open>The ads that are saved and enqueued have an identifier.\<close>

fun call_ok :: "call \<Rightarrow> bool" where
  "call_ok (CSave ad) = (AdID ad \<noteq> '''')"
| "call_ok (CEnqueue now ad) = (AdID ad \<noteq> '''')"
| "call_ok (CDequeue env) = True"
| "call_ok (CComplete now now' ad an) = True"

definition entry_of :: "Ad \<Rightarrow> entry" where
  "entry_of a = Entry (Version a) (Status a) (EffectivePriority a, CreatedAt a)"

fun call_step :: "'r DistributedPriorityQueue \<Rightarrow> call \<Rightarrow> 'r world \<Rightarrow> answer \<times> 'r world" where
  "call_step q (CSave ad) w =
     (case save_ad ad (repo w) of
        (Ok i, m) \<Rightarrow> (Saved i (entry_of ad), w\<lparr>repo := m\<rparr>)
      | (_, m) \<Rightarrow> (Unspecified, w\<lparr>repo := m\<rparr>))"
| "call_step q (CEnqueue now ad) w =
     (case Enqueue q now ad w of
        (Ok _, _, w') \<Rightarrow> (Entered (AdID ad) (Version ad) (Priority ad, CreatedAt ad), w')
      | (r, _, w') \<Rightarrow> (if r = Err ErrQueueFull then Full else Refused (AdID ad) (Version ad), w'))"
| "call_step q (CDequeue env) w =
     (case Dequeue 1 q env w of
        Some (Ok ad, w') \<Rightarrow> (Taken (AdID ad), w')
      | Some (r, w') \<Rightarrow> (if r = Err ErrQueueEmpty then NothingQueued else Unspecified, w')
      | None \<Rightarrow> (Unspecified, w))"
| "call_step q (CComplete now now' ad an) w =
     (case Complete q now now' ad an w of
        (Ok _, w') \<Rightarrow> (Finished (AdID ad) (Version ad), w')
      | (_, w') \<Rightarrow> (NotFinished (AdID ad) (Version ad), w'))"

fun call_seq :: "'r DistributedPriorityQueue \<Rightarrow> call list \<Rightarrow> 'r world \<Rightarrow> answer list \<times> 'r world" where
  "call_seq q [] w = ([], w)"
| "call_seq q (c # cs) w = (case call_step q c w of (a, w) \<Rightarrow> (case call_seq q cs w of (as, w) \<Rightarrow> (a # as, w)))"

section \<open>The abstraction\<close>

definition abs_queue :: "MemoryRepository \<Rightarrow> pqueue" where
  "abs_queue m = map_option entry_of \<circ> lookup_ad m"

lemma abs_queue_apply [simp]: "abs_queue m k = map_option entry_of (lookup_ad m k)"
  by (simp add: abs_queue_def)

lemma abs_queue_cong: "lookup_ad m' = lookup_ad m \<Longrightarrow> abs_queue m' = abs_queue m"
  by (simp add: abs_queue_def)

lemma abs_queue_upd: "lookup_ad m' = (lookup_ad m)(k \<mapsto> b) \<Longrightarrow> abs_queue m' = (abs_queue m)(k \<mapsto> entry_of b)"
  by (auto simp: abs_queue_def)

lemma entry_of_simps [simp]:
  "en_version (entry_of a) = Version a" "en_status (entry_of a) = Status a"
  "en_key (entry_of a) = (EffectivePriority a, CreatedAt a)"
  by (simp_all add: entry_of_def)

lemma queued_abs [simp]: "queued (abs_queue m) = queued_ids m"
  by (auto simp: queued_def queued_ids_def)

lemma first_abs: "next_queued m a \<Longrightarrow> first (abs_queue m) (AdID a)"
  unfolding next_queued_def first_def by (fastforce simp: queued_ids_def key_le_def)

lemma room_abs:
  "store_wf m \<Longrightarrow> room cap (abs_queue m) \<longleftrightarrow> \<not> (0 < cap \<and> cap \<le> status_count StatusQueued m)"
  by (auto simp: room_def status_count_card)

text \<open>The invariant of the simulation: a well-formed store in which no lock is held.\<close>

definition quiet :: "'r world \<Rightarrow> bool" where
  "quiet w \<longleftrightarrow> store_wf (repo w) \<and> locks (repo w) = Map.empty"

section \<open>Each call is a step\<close>

lemma save_simulates:
  assumes "quiet w" and "call_ok (CSave ad)" and "call_step q (CSave ad) w = (a, w')"
  shows "quiet w' \<and> pq_step cap (abs_queue (repo w)) a (abs_queue (repo w'))"
proof -
  have S: "a = Saved (AdID ad) (entry_of ad)" "w' = w\<lparr>repo := put_ad (AdID ad) ad (repo w)\<rparr>"
    using assms(2,3) by (auto simp: save_ad_def)
  have "abs_queue (repo w') = (abs_queue (repo w))(AdID ad \<mapsto> entry_of ad)"
    by (rule abs_queue_upd) (auto simp: S(2))
  then show ?thesis using assms(1,2) S by (simp add: quiet_def store_wf_put pq_step_simps)
qed

lemma enqueue_simulates:
  assumes "quiet w" and "\<not> closed q" and "call_ok (CEnqueue now ad)" and "call_step q (CEnqueue now ad) w = (a, w')"
  shows "quiet w' \<and> pq_step (MaxCapacity (options q)) (abs_queue (repo w)) a (abs_queue (repo w'))"
proof -
  have i: "AdID ad \<noteq> ''''" and wf: "store_wf (repo w)" using assms(1,3) by (simp_all add: quiet_def)
  obtain r ad' v where E: "Enqueue q now ad w = (r, ad', v)" by (cases "Enqueue q now ad w")
  note C = Enqueue_cases[OF i, where q = q and now = now and w = w, unfolded E fst_conv snd_conv]
  have wf': "store_wf (repo v)" using filed.Enqueue_keeps[where w = w and ad = ad and q = q and now = now] wf E by simp
  note R = room_abs[OF wf, of "MaxCapacity (options q)"]
  have cur: "current (abs_queue (repo w)) (AdID ad) (Version ad) \<longleftrightarrow>
      (\<exists>b. lookup_ad (repo w) (AdID ad) = Some b \<and> Version b = Version ad)"
    by (auto simp: current_def)
  show ?thesis
  proof (cases "r = Ok ()")
    case True
    then have l: "lookup_ad (repo v) = (lookup_ad (repo w))(AdID ad \<mapsto> enqueued now ad)"
      "locks (repo v) = locks (repo w)" using C by auto
    have "a = Entered (AdID ad) (Version ad) (Priority ad, CreatedAt ad)" "w' = v"
      using assms(4) E True by simp_all
    moreover have "room (MaxCapacity (options q)) (abs_queue (repo w))"
      "current (abs_queue (repo w)) (AdID ad) (Version ad)"
      using C(1) True unfolding R cur by (auto simp: enqueue_result_def split: if_splits option.splits)
    moreover have "entry_of (enqueued now ad) = Entry (i64 (Version ad + 1)) StatusQueued (Priority ad, CreatedAt ad)"
      by (simp add: entry_of_def)
    ultimately show ?thesis using abs_queue_upd[OF l(1)] wf' l(2) assms(1) by (simp add: quiet_def pq_step_simps)
  next
    case False
    then have v: "v = w" using C(1,5) by simp
    have a: "a = (if r = Err ErrQueueFull then Full else Refused (AdID ad) (Version ad))" "w' = w"
      using assms(4) E False v by (auto split: result.splits)
    have "r = Err ErrQueueFull \<longleftrightarrow> \<not> room (MaxCapacity (options q)) (abs_queue (repo w))"
      and "r \<noteq> Err ErrQueueFull \<longrightarrow> \<not> current (abs_queue (repo w)) (AdID ad) (Version ad)"
      using C(1) assms(2) False unfolding R cur
      by (auto simp: enqueue_result_def err_not_found_def err_modified_def split: if_splits option.splits)
    then show ?thesis using a assms(1) by (simp add: pq_step_simps)
  qed
qed

lemma dequeue_simulates:
  assumes "quiet w" and "\<not> closed q" "cacheRepo q = MemoryCache" and "call_step q (CDequeue env) w = (a, w')"
  shows "quiet w' \<and> pq_step cap (abs_queue (repo w)) a (abs_queue (repo w'))"
proof -
  have h: "store_wf (repo w)" "locks (repo w) = Map.empty" using assms(1) by (simp_all add: quiet_def)
  show ?thesis
  proof (cases "queued_ids (repo w) = {}")
    case True
    then have "a = NothingQueued" "w' = w"
      using assms(4) dequeue_memory_none[OF assms(3,2) h(1) True, of env] by simp_all
    then show ?thesis using assms(1) True by (simp add: pq_step_simps)
  next
    case False
    from dequeue_memory_one[OF assms(3,2) h False, of env] obtain b v where
      D: "Dequeue 1 q env w = Some (Ok (dequeued (instanceID q) (e_now (env 0)) b), v)"
      and b: "next_queued (repo w) b" and v: "store_wf (repo v)" "locks (repo v) = Map.empty"
      and l: "lookup_ad (repo v) = (lookup_ad (repo w))(AdID b \<mapsto> dequeued (instanceID q) (e_now (env 0)) b)" .
    have a: "a = Taken (AdID b)" "w' = v" using assms(4) D by simp_all
    have lb: "lookup_ad (repo w) (AdID b) = Some b" using b by (simp add: next_queued_def)
    have "entry_of (dequeued (instanceID q) (e_now (env 0)) b) = set_status StatusProcessing (entry_of b)"
      by (simp add: entry_of_def)
    with abs_queue_upd[OF l] lb
    have "abs_queue (repo v) = (abs_queue (repo w))
        (AdID b := map_option (set_status StatusProcessing) (abs_queue (repo w) (AdID b)))" by simp
    then show ?thesis using a v pq_taken[OF first_abs[OF b]] by (simp only: quiet_def)
  qed
qed

lemma complete_simulates:
  assumes "quiet w" and "call_step q (CComplete now now' ad an) w = (a, w')"
  shows "quiet w' \<and> pq_step cap (abs_queue (repo w)) a (abs_queue (repo w'))"
proof -
  have h: "store_wf (repo w)" "locks (repo w) = Map.empty" using assms(1) by (simp_all add: quiet_def)
  then have free: "lock_free now (AdID ad) (instanceID q) (repo w)" by (simp add: lock_free_def)
  have w': "w' = snd (Complete q now now' ad an w)"
    and a: "a = (if fst (Complete q now now' ad an w) = Ok () then Finished (AdID ad) (Version ad)
        else NotFinished (AdID ad) (Version ad))"
    using assms(2) by (auto split: prod.splits result.splits)
  have wf: "store_wf (repo w')"
    unfolding w' using filed.Complete_keeps[where w = w and q = q and now = now and now' = now' and ad = ad and an = an] h(1)
    by simp
  show ?thesis
  proof (cases "\<exists>b. lookup_ad (repo w) (AdID ad) = Some b \<and> Version b = Version ad \<and> Status b = StatusProcessing")
    case True
    then obtain b where b: "lookup_ad (repo w) (AdID ad) = Some b" "Version b = Version ad" "Status b = StatusProcessing"
      by blast
    have i: "AdID b = AdID ad" "AdID ad \<noteq> ''''" using store_wf_lookup[OF h(1) b(1)] by simp_all
    note O = Complete_ok[OF free i(2) b(1) i(1) b(2,3), of now' an]
    have "entry_of (completed now' an b) = set_status StatusCompleted (entry_of b)" by (simp add: entry_of_def)
    then have "abs_queue (repo w') = (abs_queue (repo w))
        (AdID ad := map_option (set_status StatusCompleted) (abs_queue (repo w) (AdID ad)))"
      using abs_queue_upd[of "repo w'" "repo w" "AdID ad" "completed now' an b"] O(2) b(1) by (simp add: w')
    moreover have "in_work (abs_queue (repo w)) (AdID ad) (Version ad)" using b by (simp add: in_work_def)
    moreover have "locks (repo w') = Map.empty" using O(3) h(2) by (simp add: w')
    ultimately show ?thesis using a wf O(1) by (simp add: quiet_def pq_step_simps)
  next
    case False
    note R = Complete_refused[OF free, of now' an]
    have "lookup_ad (repo w') = lookup_ad (repo w)" "locks (repo w') = Map.empty" "a = NotFinished (AdID ad) (Version ad)"
      using R False h(2) by (auto simp: w' a)
    moreover have "\<not> in_work (abs_queue (repo w)) (AdID ad) (Version ad)" using False by (auto simp: in_work_def)
    moreover have "abs_queue (repo w') = abs_queue (repo w)" using calculation(1) by (rule abs_queue_cong)
    ultimately show ?thesis using wf by (simp add: quiet_def pq_step_simps)
  qed
qed

lemma call_simulates:
  assumes "quiet w" and "\<not> closed q" and "cacheRepo q = MemoryCache" and "call_ok c" and "call_step q c w = (a, w')"
  shows "quiet w' \<and> pq_step (MaxCapacity (options q)) (abs_queue (repo w)) a (abs_queue (repo w'))"
proof (cases c)
  case (CSave ad)
  with assms show ?thesis by (intro save_simulates) auto
next
  case (CEnqueue now ad)
  with assms show ?thesis by (intro enqueue_simulates) auto
next
  case (CDequeue env)
  with assms show ?thesis by (intro dequeue_simulates) auto
next
  case (CComplete now now' ad an)
  with assms show ?thesis by (intro complete_simulates) auto
qed

text \<open>C2. The memory queue implements a bounded priority queue.  Any sequence of calls that save, enqueue,
  dequeue and complete ads, made on an open queue with the memory cache while no lock is held, gives
  exactly the answers of an abstract queue of the same capacity: an ad of the known version enters
  with its priority and creation time while there is room, is full or refused otherwise; an ad of
  least key is taken; emptiness is reported when nothing is queued; and an ad is finished exactly
  when it is in work and the caller knows its version.\<close>

theorem memory_queue_implements:
  assumes "\<not> closed q" and "cacheRepo q = MemoryCache"
    and "store_wf (repo w)" and "locks (repo w) = Map.empty" and "\<forall>c \<in> set cs. call_ok c"
  shows "pq_trace (MaxCapacity (options q)) (abs_queue (repo w)) (fst (call_seq q cs w))
    (abs_queue (repo (snd (call_seq q cs w))))"
proof -
  have "quiet w" using assms(3,4) by (simp add: quiet_def)
  then show ?thesis using assms(5)
  proof (induction cs arbitrary: w)
    case Nil
    then show ?case by (simp add: pq_start)
  next
    case (Cons c cs)
    obtain a w1 where s: "call_step q c w = (a, w1)" by (cases "call_step q c w")
    have c: "call_ok c" and cs: "\<forall>c \<in> set cs. call_ok c" using Cons.prems(2) by simp_all
    note S = call_simulates[OF Cons.prems(1) assms(1,2) c s]
    show ?case unfolding call_seq.simps s prod.case case_prod_unfold fst_conv snd_conv
      by (rule pq_next[OF conjunct2[OF S] Cons.IH[OF conjunct1[OF S] cs]])
  qed
qed

text \<open>Two ads are saved and enqueued, and then taken: six answers, none of them unspecified.\<close>

theorem memory_queue_implements_witness:
  "\<exists>as P. pq_trace 10000 Map.empty as P \<and> length as = 6
    \<and> as = fst (call_seq (NewDistributedPriorityQueue MemoryCache ''api-1'' DefaultQueueOptions)
        [CSave (sample_ad ''a'' 3 0 StatusSubmitted), CSave (sample_ad ''b'' 1 5 StatusSubmitted),
         CEnqueue 7 (sample_ad ''a'' 3 0 StatusSubmitted), CEnqueue 8 (sample_ad ''b'' 1 5 StatusSubmitted),
         CDequeue (\<lambda>_. \<lparr>e_now = 60, e_pop = [], e_find = []\<rparr>), CDequeue (\<lambda>_. \<lparr>e_now = 61, e_pop = [1], e_find = []\<rparr>)]
        \<lparr>repo = NewMemoryRepository, rds = ()\<rparr>)"
proof -
  let ?q = "NewDistributedPriorityQueue MemoryCache ''api-1'' DefaultQueueOptions :: unit DistributedPriorityQueue"
  let ?cs = "[CSave (sample_ad ''a'' 3 0 StatusSubmitted), CSave (sample_ad ''b'' 1 5 StatusSubmitted),
    CEnqueue 7 (sample_ad ''a'' 3 0 StatusSubmitted), CEnqueue 8 (sample_ad ''b'' 1 5 StatusSubmitted),
    CDequeue (\<lambda>_. \<lparr>e_now = 60, e_pop = [], e_find = []\<rparr>), CDequeue (\<lambda>_. \<lparr>e_now = 61, e_pop = [1], e_find = []\<rparr>)]"
  let ?w = "\<lparr>repo = NewMemoryRepository, rds = ()\<rparr>"
  have q: "\<not> closed ?q" "cacheRepo ?q = MemoryCache" "MaxCapacity (options ?q) = 10000"
    by (simp_all add: NewDistributedPriorityQueue_def DefaultQueueOptions_def)
  have h: "store_wf (repo ?w)" "locks (repo ?w) = Map.empty" by (simp, simp add: NewMemoryRepository_def)
  have c: "\<forall>c \<in> set ?cs. call_ok c" by simp
  have e: "abs_queue (repo ?w) = Map.empty" by (auto simp: abs_queue_def NewMemoryRepository_def)
  have l: "length (fst (call_seq q' cs w')) = length cs" for q' :: "unit DistributedPriorityQueue" and cs w'
    by (induction cs arbitrary: w') (simp_all add: case_prod_unfold)
  have l6: "length (fst (call_seq ?q ?cs ?w)) = 6" unfolding l by simp
  from memory_queue_implements[OF q(1,2) h c, unfolded e q(3)] l6 show ?thesis by blast
qed

end
