(* ===== verification/Heap_Store.thy ===== *)
theory Heap_Store
  imports Memory_Store
begin

text \<open>
  The in-memory repository with its pointers.  \<^verbatim>\<open>memory_store.go\<close> keeps a map from identifiers to
  \<^verbatim>\<open>*models.Ad\<close> and its clients hold such pointers too; the theory \<^verbatim>\<open>Memory_Store\<close> models the methods
  on values.  Here the same methods run on an explicit heap of ads: a copy allocates, an assignment
  through a pointer changes the object everywhere it is shared.  The theory \<open>Heap_Views\<close> shows
  that no sequence of calls, with clients that overwrite their own objects in between, can tell the
  pointer repository from the value repository, so the copies the code makes are enough.

  The copies of the code are shallow: the slices of a submission and the pointers \<^verbatim>\<open>Analysis\<close>,
  \<^verbatim>\<open>QueuedAt\<close> and so on are shared between a copy and its original.  The model treats these fields as
  values, because no code of the program writes through one of them: it only replaces them.  The lock
  table holds no pointer and is left out.
\<close>

section \<open>Objects and pointers\<close>

type_synonym addr = nat

text \<open>An address is an index of the list of allocated objects.\<close>

record ptr_store =
  objects :: "Ad list"
  table :: "(string \<times> addr) list"

abbreviation deref :: "ptr_store \<Rightarrow> addr \<Rightarrow> Ad" where
  "deref s p \<equiv> objects s ! p"

definition alloc :: "Ad \<Rightarrow> ptr_store \<Rightarrow> addr \<times> ptr_store" where
  "alloc a s = (length (objects s), s\<lparr>objects := objects s @ [a]\<rparr>)"

definition mutate :: "addr \<Rightarrow> (Ad \<Rightarrow> Ad) \<Rightarrow> ptr_store \<Rightarrow> ptr_store" where
  "mutate p f s = s\<lparr>objects := (objects s)[p := f (deref s p)]\<rparr>"

definition hp_New :: ptr_store where
  "hp_New = \<lparr>objects = [], table = []\<rparr>"

section \<open>The methods\<close>

definition hp_store :: "string \<Rightarrow> addr \<Rightarrow> ptr_store \<Rightarrow> ptr_store" where
  "hp_store k p s = (case alloc (deref s p) s of (q, s) \<Rightarrow> s\<lparr>table := AList.update k q (table s)\<rparr>)"

definition hp_Save :: "addr option \<Rightarrow> ptr_store \<Rightarrow> string result \<times> ptr_store" where
  "hp_Save ad s =
     (case ad of None \<Rightarrow> (Err err_ad_nil, s)
      | Some p \<Rightarrow>
          if AdID (deref s p) = '''' then (Err err_id_required, s)
          else (Ok (AdID (deref s p)), hp_store (AdID (deref s p)) p s))"

definition hp_Get :: "string \<Rightarrow> ptr_store \<Rightarrow> addr result \<times> ptr_store" where
  "hp_Get adID s =
     (if adID = '''' then (Err err_id_required, s)
      else case map_of (table s) adID of
        None \<Rightarrow> (Err (err_not_found adID), s)
      | Some p \<Rightarrow> (case alloc (deref s p) s of (q, s) \<Rightarrow> (Ok q, s)))"

definition hp_Update :: "addr option \<Rightarrow> ptr_store \<Rightarrow> unit result \<times> ptr_store" where
  "hp_Update ad s =
     (case ad of None \<Rightarrow> (Err err_ad_nil, s)
      | Some p \<Rightarrow>
          let i = AdID (deref s p) in
          if i = '''' then (Err err_id_required, s)
          else case map_of (table s) i of
            None \<Rightarrow> (Err (err_not_found i), s)
          | Some existing \<Rightarrow>
              if Version (deref s existing) \<noteq> Version (deref s p) then (Err (err_modified i), s)
              else (Ok (), hp_store i p (mutate p bump_version s)))"

text \<open>The two queries copy every ad of the status, then sort and cut the slice of pointers.\<close>

fun hp_copies :: "AdStatus \<Rightarrow> addr list \<Rightarrow> ptr_store \<Rightarrow> addr list \<times> ptr_store" where
  "hp_copies st [] s = ([], s)"
| "hp_copies st (p # ps) s =
     (if Status (deref s p) = st
      then (case alloc (deref s p) s of (q, s) \<Rightarrow> map_prod (Cons q) id (hp_copies st ps s))
      else hp_copies st ps s)"

definition hp_FindByStatus ::
  "nat list \<Rightarrow> AdStatus \<Rightarrow> int \<Rightarrow> int \<Rightarrow> ptr_store \<Rightarrow> addr list result \<times> ptr_store" where
  "hp_FindByStatus ord status limit offset s =
     (case hp_copies status (map snd (shuffle ord (table s))) s of (res, s) \<Rightarrow>
        let res = sort_slice (\<lambda>p q. newest_first (deref s p) (deref s q)) res
        in if int (length res) \<le> offset then (Ok [], s)
           else let e = i64 (offset + limit);
                    e = (if int (length res) < e then int (length res) else e)
                in (go_slice res offset e, s))"

definition hp_FindByPriority ::
  "nat list \<Rightarrow> AdStatus \<Rightarrow> int \<Rightarrow> ptr_store \<Rightarrow> addr list result \<times> ptr_store" where
  "hp_FindByPriority ord status limit s =
     (case hp_copies status (map snd (shuffle ord (table s))) s of (res, s) \<Rightarrow>
        let res = sort_slice (\<lambda>p q. by_priority (deref s p) (deref s q)) res;
            limit = (if int (length res) < limit then int (length res) else limit)
        in (go_slice res 0 limit, s))"

definition hp_CountByStatus :: "AdStatus \<Rightarrow> ptr_store \<Rightarrow> int result" where
  "hp_CountByStatus status s =
     Ok (int (length (filter (\<lambda>(k, p). Status (deref s p) = status) (table s))))"

definition hp_DeleteOlderThan :: "instant \<Rightarrow> int \<Rightarrow> ptr_store \<Rightarrow> int result \<times> ptr_store" where
  "hp_DeleteOlderThan now days s =
     (let cutoff = now - days * nsDay;
          old = (\<lambda>(k, p). CreatedAt (deref s p) < cutoff)
      in (Ok (int (length (filter old (table s)))), s\<lparr>table := filter (\<lambda>x. \<not> old x) (table s)\<rparr>))"

fun hp_assign_loop :: "string \<Rightarrow> string list \<Rightarrow> int \<Rightarrow> ptr_store \<Rightarrow> int \<times> ptr_store" where
  "hp_assign_loop w [] cnt s = (cnt, s)"
| "hp_assign_loop w (i # ids) cnt s =
     (case map_of (table s) i of
        None \<Rightarrow> hp_assign_loop w ids cnt s
      | Some p \<Rightarrow>
          hp_assign_loop w ids (cnt + 1) (mutate p bump_version (mutate p (\<lambda>a. a\<lparr>WorkerID := w\<rparr>) s)))"

definition hp_AssignToWorker :: "string list \<Rightarrow> string \<Rightarrow> ptr_store \<Rightarrow> int result \<times> ptr_store" where
  "hp_AssignToWorker adIDs workerID s = map_prod Ok id (hp_assign_loop workerID adIDs 0 s)"

fun hp_release_loop :: "string \<Rightarrow> addr list \<Rightarrow> int \<Rightarrow> ptr_store \<Rightarrow> int \<times> ptr_store" where
  "hp_release_loop w [] cnt s = (cnt, s)"
| "hp_release_loop w (p # ps) cnt s =
     (if WorkerID (deref s p) = w
      then hp_release_loop w ps (cnt + 1)
             (mutate p bump_version (mutate p (\<lambda>a. a\<lparr>WorkerID := ''''\<rparr>) s))
      else hp_release_loop w ps cnt s)"

definition hp_ReleaseWorkerAssignments ::
  "nat list \<Rightarrow> string \<Rightarrow> ptr_store \<Rightarrow> int result \<times> ptr_store" where
  "hp_ReleaseWorkerAssignments ord workerID s =
     map_prod Ok id (hp_release_loop workerID (map snd (shuffle ord (table s))) 0 s)"

definition hp_set_status :: "instant \<Rightarrow> AdStatus \<Rightarrow> addr \<Rightarrow> ptr_store \<Rightarrow> ptr_store" where
  "hp_set_status now toStatus p s =
     (let s = mutate p bump_version (mutate p (\<lambda>a. a\<lparr>Status := toStatus\<rparr>) s)
      in if toStatus = StatusCompleted then mutate p (\<lambda>a. a\<lparr>CompletedAt := Some now\<rparr>) s else s)"

definition hp_AtomicStatusUpdate ::
  "instant \<Rightarrow> string \<Rightarrow> int \<Rightarrow> AdStatus \<Rightarrow> AdStatus \<Rightarrow> ptr_store \<Rightarrow> unit result \<times> ptr_store" where
  "hp_AtomicStatusUpdate now adID currentVersion fromStatus toStatus s =
     (case map_of (table s) adID of
        None \<Rightarrow> (Err ErrAdNotFound, s)
      | Some p \<Rightarrow>
          if Version (deref s p) \<noteq> currentVersion then (Err ErrConcurrentModification, s)
          else if Status (deref s p) \<noteq> fromStatus then (Err ErrConcurrentModification, s)
          else (Ok (), hp_set_status now toStatus p s))"

fun hp_batch_loop ::
  "(nat \<Rightarrow> instant) \<Rightarrow> AdStatus \<Rightarrow> string list \<Rightarrow> int \<Rightarrow> ptr_store \<Rightarrow> int \<times> ptr_store" where
  "hp_batch_loop now st [] cnt s = (cnt, s)"
| "hp_batch_loop now st (i # ids) cnt s =
     (case map_of (table s) i of
        None \<Rightarrow> hp_batch_loop (now \<circ> Suc) st ids cnt s
      | Some p \<Rightarrow> hp_batch_loop (now \<circ> Suc) st ids (cnt + 1) (hp_set_status (now 0) st p s))"

definition hp_BatchUpdateStatus ::
  "(nat \<Rightarrow> instant) \<Rightarrow> string list \<Rightarrow> AdStatus \<Rightarrow> ptr_store \<Rightarrow> int result \<times> ptr_store" where
  "hp_BatchUpdateStatus now adIDs toStatus s = map_prod Ok id (hp_batch_loop now toStatus adIDs 0 s)"

definition hp_Delete :: "string \<Rightarrow> ptr_store \<Rightarrow> unit result \<times> ptr_store" where
  "hp_Delete adID s =
     (if adID = '''' then (Err err_id_required, s)
      else case map_of (table s) adID of
        None \<Rightarrow> (Err (err_not_found adID), s)
      | Some _ \<Rightarrow> (Ok (), s\<lparr>table := AList.delete adID (table s)\<rparr>))"

definition hp_PushToQueue :: "string \<Rightarrow> string \<Rightarrow> int \<Rightarrow> ptr_store \<Rightarrow> unit result \<times> ptr_store" where
  "hp_PushToQueue queueName adID priority s =
     (if adID = '''' then (Err err_id_required, s)
      else case map_of (table s) adID of
        None \<Rightarrow> (Err (err_not_found adID), s)
      | Some p \<Rightarrow> (Ok (), mutate p (\<lambda>a. a\<lparr>EffectivePriority := priority\<rparr>) s))"

text \<open>\<^verbatim>\<open>PopFromQueue\<close> collects the stored pointers themselves: it only reads through them.\<close>

definition hp_PopFromQueue :: "nat list \<Rightarrow> string \<Rightarrow> ptr_store \<Rightarrow> string result \<times> ptr_store" where
  "hp_PopFromQueue ord queueName s =
     (case sort_slice (\<lambda>p q. pop_order (deref s p) (deref s q))
             (filter (\<lambda>p. Status (deref s p) = StatusQueued) (map snd (shuffle ord (table s)))) of
        [] \<Rightarrow> (Err ErrAdNotFound, s)
      | p # _ \<Rightarrow> (Ok (AdID (deref s p)), s))"

definition hp_cache_set :: "string \<Rightarrow> addr option \<Rightarrow> duration \<Rightarrow> ptr_store \<Rightarrow> unit result \<times> ptr_store" where
  "hp_cache_set adID ad ttl s =
     (case ad of None \<Rightarrow> (Err err_ad_nil, s)
      | Some p \<Rightarrow> if adID = '''' then (Err err_id_required, s) else (Ok (), hp_store adID p s))"

section \<open>Clients\<close>

text \<open>
  The calls of the repository's clients, all goroutines merged into one sequence (every method runs
  under the mutex).  A client creates objects, overwrites the fields of an object it holds, reads
  it, or calls a method with the \<open>n\<close>-th pointer it holds (past the end: \<^verbatim>\<open>nil\<close>); the pointers a
  method returns are held from then on.
\<close>

datatype rcall =
    RNew Ad
  | RWrite nat Ad
  | RRead nat
  | RSave nat
  | RGet string
  | RUpdate nat
  | RFindByStatus "nat list" AdStatus int int
  | RFindByPriority "nat list" AdStatus int
  | RCountByStatus AdStatus
  | RDeleteOlderThan instant int
  | RAssignToWorker "string list" string
  | RReleaseWorkerAssignments "nat list" string
  | RAtomicStatusUpdate instant string int AdStatus AdStatus
  | RBatchUpdateStatus "nat \<Rightarrow> instant" "string list" AdStatus
  | RDelete string
  | RPushToQueue string string int
  | RPopFromQueue "nat list" string
  | RSet string nat duration

text \<open>What a client sees: the result, with the objects behind the pointers it is given.\<close>

datatype ranswer =
    ANone
  | AAd "Ad option"
  | AId "string result"
  | AUnit "unit result"
  | ACount "int result"
  | AGet "Ad result"
  | AAds "Ad list result"

definition held :: "'a list \<Rightarrow> nat \<Rightarrow> 'a option" where
  "held xs n = (if n < length xs then Some (xs ! n) else None)"

fun ok_list :: "'a list result \<Rightarrow> 'a list" where
  "ok_list (Ok xs) = xs"
| "ok_list (Err e) = []"
| "ok_list Panic = []"

text \<open>The machine with pointers, and the machine whose clients and repository hold values.\<close>

fun ptr_step :: "rcall \<Rightarrow> addr list \<times> ptr_store \<Rightarrow> ranswer \<times> addr list \<times> ptr_store" where
  "ptr_step (RNew a) (c, s) = (case alloc a s of (q, s) \<Rightarrow> (ANone, c @ [q], s))"
| "ptr_step (RWrite n a) (c, s) =
     (ANone, c, case held c n of None \<Rightarrow> s | Some p \<Rightarrow> mutate p (\<lambda>_. a) s)"
| "ptr_step (RRead n) (c, s) = (AAd (map_option (deref s) (held c n)), c, s)"
| "ptr_step (RSave n) (c, s) = (case hp_Save (held c n) s of (r, s) \<Rightarrow> (AId r, c, s))"
| "ptr_step (RGet i) (c, s) =
     (case hp_Get i s of (r, s) \<Rightarrow>
        (AGet (map_result (deref s) r), c @ ok_list (map_result (\<lambda>p. [p]) r), s))"
| "ptr_step (RUpdate n) (c, s) = (case hp_Update (held c n) s of (r, s) \<Rightarrow> (AUnit r, c, s))"
| "ptr_step (RFindByStatus ord st l off) (c, s) =
     (case hp_FindByStatus ord st l off s of (r, s) \<Rightarrow>
        (AAds (map_result (map (deref s)) r), c @ ok_list r, s))"
| "ptr_step (RFindByPriority ord st l) (c, s) =
     (case hp_FindByPriority ord st l s of (r, s) \<Rightarrow>
        (AAds (map_result (map (deref s)) r), c @ ok_list r, s))"
| "ptr_step (RCountByStatus st) (c, s) = (ACount (hp_CountByStatus st s), c, s)"
| "ptr_step (RDeleteOlderThan now d) (c, s) =
     (case hp_DeleteOlderThan now d s of (r, s) \<Rightarrow> (ACount r, c, s))"
| "ptr_step (RAssignToWorker ids w) (c, s) =
     (case hp_AssignToWorker ids w s of (r, s) \<Rightarrow> (ACount r, c, s))"
| "ptr_step (RReleaseWorkerAssignments ord w) (c, s) =
     (case hp_ReleaseWorkerAssignments ord w s of (r, s) \<Rightarrow> (ACount r, c, s))"
| "ptr_step (RAtomicStatusUpdate now i v st st') (c, s) =
     (case hp_AtomicStatusUpdate now i v st st' s of (r, s) \<Rightarrow> (AUnit r, c, s))"
| "ptr_step (RBatchUpdateStatus now ids st) (c, s) =
     (case hp_BatchUpdateStatus now ids st s of (r, s) \<Rightarrow> (ACount r, c, s))"
| "ptr_step (RDelete i) (c, s) = (case hp_Delete i s of (r, s) \<Rightarrow> (AUnit r, c, s))"
| "ptr_step (RPushToQueue qn i p) (c, s) =
     (case hp_PushToQueue qn i p s of (r, s) \<Rightarrow> (AUnit r, c, s))"
| "ptr_step (RPopFromQueue ord qn) (c, s) =
     (case hp_PopFromQueue ord qn s of (r, s) \<Rightarrow> (AId r, c, s))"
| "ptr_step (RSet i n ttl) (c, s) =
     (case hp_cache_set i (held c n) ttl s of (r, s) \<Rightarrow> (AUnit r, c, s))"

fun val_step :: "rcall \<Rightarrow> Ad list \<times> MemoryRepository \<Rightarrow> ranswer \<times> Ad list \<times> MemoryRepository" where
  "val_step (RNew a) (c, m) = (ANone, c @ [a], m)"
| "val_step (RWrite n a) (c, m) = (ANone, c[n := a], m)"
| "val_step (RRead n) (c, m) = (AAd (held c n), c, m)"
| "val_step (RSave n) (c, m) = (case Save (held c n) m of (r, m) \<Rightarrow> (AId r, c, m))"
| "val_step (RGet i) (c, m) = (AGet (Get i m), c @ ok_list (map_result (\<lambda>a. [a]) (Get i m)), m)"
| "val_step (RUpdate n) (c, m) =
     (case Update (held c n) m of (r, a, m) \<Rightarrow>
        (AUnit r, case a of None \<Rightarrow> c | Some a \<Rightarrow> c[n := a], m))"
| "val_step (RFindByStatus ord st l off) (c, m) =
     (let r = FindByStatus ord st l off m in (AAds r, c @ ok_list r, m))"
| "val_step (RFindByPriority ord st l) (c, m) =
     (let r = FindByPriority ord st l m in (AAds r, c @ ok_list r, m))"
| "val_step (RCountByStatus st) (c, m) = (ACount (CountByStatus st m), c, m)"
| "val_step (RDeleteOlderThan now d) (c, m) =
     (case DeleteOlderThan now d m of (r, m) \<Rightarrow> (ACount r, c, m))"
| "val_step (RAssignToWorker ids w) (c, m) =
     (case AssignToWorker ids w m of (r, m) \<Rightarrow> (ACount r, c, m))"
| "val_step (RReleaseWorkerAssignments ord w) (c, m) =
     (case ReleaseWorkerAssignments w m of (r, m) \<Rightarrow> (ACount r, c, m))"
| "val_step (RAtomicStatusUpdate now i v st st') (c, m) =
     (case AtomicStatusUpdate now i v st st' m of (r, m) \<Rightarrow> (AUnit r, c, m))"
| "val_step (RBatchUpdateStatus now ids st) (c, m) =
     (case BatchUpdateStatus now ids st m of (r, m) \<Rightarrow> (ACount r, c, m))"
| "val_step (RDelete i) (c, m) = (case Delete i m of (r, m) \<Rightarrow> (AUnit r, c, m))"
| "val_step (RPushToQueue qn i p) (c, m) =
     (case mem_PushToQueue qn i p m of (r, m) \<Rightarrow> (AUnit r, c, m))"
| "val_step (RPopFromQueue ord qn) (c, m) =
     (case mem_PopFromQueue ord qn m of (r, m) \<Rightarrow> (AId r, c, m))"
| "val_step (RSet i n ttl) (c, m) =
     (case cache_set i (held c n) ttl m of (r, m) \<Rightarrow> (AUnit r, c, m))"

fun ptr_run :: "rcall list \<Rightarrow> addr list \<times> ptr_store \<Rightarrow> ranswer list" where
  "ptr_run [] x = []"
| "ptr_run (k # ks) x = (case ptr_step k x of (r, x) \<Rightarrow> r # ptr_run ks x)"

fun val_run :: "rcall list \<Rightarrow> Ad list \<times> MemoryRepository \<Rightarrow> ranswer list" where
  "val_run [] x = []"
| "val_run (k # ks) x = (case val_step k x of (r, x) \<Rightarrow> r # val_run ks x)"

end
