(* ===== verification/Heap_Views.thy ===== *)
theory Heap_Views
  imports Heap_Store
begin

text \<open>
  The repository of pointers (\<open>Heap_Store\<close>) cannot be told from the repository of values
  (\<open>Memory_Store\<close>): the invariant that no pointer is shared, one lemma per method, and the theorem
  over all sequences of calls.
\<close>

section \<open>The abstraction\<close>

definition repo_of :: "ptr_store \<Rightarrow> MemoryRepository" where
  "repo_of s = \<lparr>ads = map (\<lambda>(k, p). (k, deref s p)) (table s), locks = (\<lambda>_. None)\<rparr>"

text \<open>No pointer is shared: not between two entries of the table, not between a client and the table.\<close>

definition unshared :: "addr list \<Rightarrow> ptr_store \<Rightarrow> bool" where
  "unshared c s \<longleftrightarrow>
     distinct (map fst (table s)) \<and> distinct (c @ map snd (table s)) \<and>
     (\<forall>p \<in> set c \<union> snd ` set (table s). p < length (objects s))"

lemma map_values_update:
  "map (\<lambda>(k, p). (k, f p)) (AList.update k q t) = AList.update k (f q) (map (\<lambda>(k, p). (k, f p)) t)"
  by (induction t) auto

lemma map_values_delete:
  "map (\<lambda>(k, p). (k, f p)) (AList.delete k t) = AList.delete k (map (\<lambda>(k, p). (k, f p)) t)"
  by (induction t) (auto simp: AList.delete_eq)

lemma map_values_filter:
  "map (\<lambda>(k, p). (k, f p)) (filter (\<lambda>(k, p). P (f p)) t) =
   filter (\<lambda>(k, a). P a) (map (\<lambda>(k, p). (k, f p)) t)"
  by (induction t) auto

lemma map_values_cong:
  "(\<And>p. p \<in> snd ` set t \<Longrightarrow> f p = g p) \<Longrightarrow>
   map (\<lambda>(k, p). (k, f p)) t = map (\<lambda>(k, p). (k, g p)) t"
  by (induction t) auto

lemma shuffle_step:
  "xs \<noteq> [] \<Longrightarrow> i = n mod length xs \<Longrightarrow>
   shuffle (n # ns) xs = xs ! i # shuffle ns (take i xs @ drop (Suc i) xs)"
  by (cases xs) (simp_all add: Let_def)

lemma shuffle_map: "shuffle ns (map f xs) = map f (shuffle ns xs)"
proof (induction ns xs rule: shuffle.induct)
  case (3 n ns x xs)
  let ?ys = "x # xs" and ?i = "n mod length (x # xs)"
  have "?i < length ?ys" by simp
  then have "map f ?ys ! ?i = f (?ys ! ?i)" by (rule nth_map)
  moreover have "take ?i (map f ?ys) @ drop (Suc ?i) (map f ?ys) = map f (take ?i ?ys @ drop (Suc ?i) ?ys)"
    by (simp only: take_map drop_map map_append)
  moreover have "shuffle ns (map f (take ?i ?ys @ drop (Suc ?i) ?ys)) =
      map f (shuffle ns (take ?i ?ys @ drop (Suc ?i) ?ys))"
    by (rule 3) simp_all
  moreover have "shuffle (n # ns) (map f ?ys) =
      map f ?ys ! ?i # shuffle ns (take ?i (map f ?ys) @ drop (Suc ?i) (map f ?ys))"
    by (rule shuffle_step) simp_all
  moreover have "shuffle (n # ns) ?ys = ?ys ! ?i # shuffle ns (take ?i ?ys @ drop (Suc ?i) ?ys)"
    by (rule shuffle_step) simp_all
  ultimately show ?case by (simp only: list.map)
qed auto

lemma insert_by_map:
  "insert_by lt (f x) (map f xs) = map f (insert_by (\<lambda>x y. lt (f x) (f y)) x xs)"
  by (induction xs) auto

lemma sort_slice_map: "sort_slice lt (map f xs) = map f (sort_slice (\<lambda>x y. lt (f x) (f y)) xs)"
  by (induction xs) (auto simp: insert_by_map)

lemma go_slice_map: "go_slice (map f xs) lo hi = map_result (map f) (go_slice xs lo hi)"
  by (auto simp: go_slice_def take_map drop_map)

section \<open>Allocation and assignment under the abstraction\<close>

text \<open>What a client and the repository see of one state: the values it holds, the values stored.\<close>

definition view :: "addr list \<times> ptr_store \<Rightarrow> Ad list \<times> MemoryRepository" where
  "view x = (map (deref (snd x)) (fst x), repo_of (snd x))"

lemma unsharedD:
  assumes "unshared c s"
  shows "distinct (map fst (table s))" "distinct (map snd (table s))" "distinct c"
    "set c \<inter> snd ` set (table s) = {}"
    "\<And>p. p \<in> set c \<Longrightarrow> p < length (objects s)"
    "\<And>p. p \<in> snd ` set (table s) \<Longrightarrow> p < length (objects s)"
  using assms by (auto simp: unshared_def)

lemma map_of_in_table: "map_of (table s) k = Some p \<Longrightarrow> p \<in> snd ` set (table s)"
  by (force dest: map_of_SomeD)

lemma lookup_repo_of [simp]: "lookup_ad (repo_of s) k = map_option (deref s) (map_of (table s) k)"
  by (simp add: repo_of_def map_of_map_values)

text \<open>New objects change nothing that is held.\<close>

lemma extend_view:
  assumes "unshared c s" and "s' = s\<lparr>objects := objects s @ as\<rparr>"
  shows "unshared c s'" and "map (deref s') c = map (deref s) c" and "repo_of s' = repo_of s"
proof -
  from assms(1) show "unshared c s'" unfolding assms(2) by (simp add: unshared_def trans_less_add1)
  from assms unsharedD(5)[OF assms(1)] show "map (deref s') c = map (deref s) c"
    by (simp add: nth_append)
  have "map (\<lambda>(k, p). (k, (objects s @ as) ! p)) (table s) = map (\<lambda>(k, p). (k, deref s p)) (table s)"
    by (rule map_values_cong) (simp add: nth_append unsharedD(6)[OF assms(1)])
  with assms(2) show "repo_of s' = repo_of s" by (simp add: repo_of_def)
qed

text \<open>New objects that a client is given.\<close>

lemma give_view:
  assumes "unshared c s" and "s' = s\<lparr>objects := objects s @ as\<rparr>"
    and "distinct qs" and "set qs \<subseteq> {length (objects s)..<length (objects s) + length as}"
  shows "unshared (c @ qs) s'" and "view (c @ qs, s') = (map (deref s) c @ map (deref s') qs, repo_of s)"
proof -
  note u = unsharedD[OF assms(1)]
  have "set qs \<inter> (set c \<union> snd ` set (table s)) = {}" using assms(4) u(5,6) by fastforce
  moreover have "\<forall>p \<in> set c \<union> snd ` set (table s). p < length (objects s) + length as"
    using u(5,6) by fastforce
  moreover have "\<forall>p \<in> set qs. p < length (objects s) + length as" using assms(4) by auto
  ultimately show "unshared (c @ qs) s'"
    using u(1-4) assms(2,3) by (auto simp: unshared_def)
  show "view (c @ qs, s') = (map (deref s) c @ map (deref s') qs, repo_of s)"
    using extend_view[OF assms(1,2)] by (simp add: view_def)
qed

text \<open>Storing a copy of an object under a key.\<close>

lemma snd_update_subset: "snd ` set (AList.update k q t) \<subseteq> insert q (snd ` set t)"
  by (induction t) auto

lemma distinct_snd_update:
  "distinct (map snd t) \<Longrightarrow> q \<notin> snd ` set t \<Longrightarrow> distinct (map snd (AList.update k q t))"
proof (induction t)
  case (Cons x t)
  then show ?case using snd_update_subset[of k q t] by (cases x) auto
qed simp

lemma store_view:
  assumes "unshared c s"
  shows "unshared c (hp_store k p s)" and "map (deref (hp_store k p s)) c = map (deref s) c"
    and "repo_of (hp_store k p s) = put_ad k (deref s p) (repo_of s)"
proof -
  note u = unsharedD[OF assms]
  let ?q = "length (objects s)"
  have q: "?q \<notin> set c" "?q \<notin> snd ` set (table s)" using u(5,6) by blast+
  have t: "table (hp_store k p s) = AList.update k ?q (table s)"
    and o': "objects (hp_store k p s) = objects s @ [deref s p]"
    by (simp_all add: hp_store_def alloc_def)
  have sub: "snd ` set (AList.update k ?q (table s)) \<subseteq> insert ?q (snd ` set (table s))"
    by (rule snd_update_subset)
  have "set c \<inter> insert ?q (snd ` set (table s)) = {}" using q(1) u(4) by simp
  then have "set c \<inter> snd ` set (AList.update k ?q (table s)) = {}"
    using Int_mono[OF subset_refl sub, of "set c"] by (simp only: subset_empty)
  then have "distinct (c @ map snd (AList.update k ?q (table s)))"
    using u(3) distinct_snd_update[OF u(2) q(2)] by simp
  moreover have "\<forall>x \<in> set c \<union> snd ` set (AList.update k ?q (table s)). x < length (objects s @ [deref s p])"
  proof
    fix x assume "x \<in> set c \<union> snd ` set (AList.update k ?q (table s))"
    then have "x = ?q \<or> x \<in> set c \<or> x \<in> snd ` set (table s)"
      using subsetD[OF sub] by (simp only: Un_iff insert_iff) blast
    then show "x < length (objects s @ [deref s p])"
    proof (elim disjE)
      assume "x \<in> snd ` set (table s)"
      then have "x < length (objects s)" by (rule u(6))
      then show ?thesis by simp
    next
      assume "x \<in> set c"
      then have "x < length (objects s)" by (rule u(5))
      then show ?thesis by simp
    qed simp
  qed
  ultimately show "unshared c (hp_store k p s)"
    unfolding unshared_def t o' using u(1) by simp
  show "map (deref (hp_store k p s)) c = map (deref s) c" using u(5) by (simp add: o' nth_append)
  have "map (\<lambda>(k, x). (k, (objects s @ [deref s p]) ! x)) (table s) = map (\<lambda>(k, x). (k, deref s x)) (table s)"
    by (rule map_values_cong) (simp add: nth_append u(6))
  then show "repo_of (hp_store k p s) = put_ad k (deref s p) (repo_of s)"
    by (simp add: repo_of_def t o' map_values_update del: map_eq_conv)
qed

text \<open>An assignment through a stored pointer changes that entry alone.\<close>

lemma mutate_simps [simp]:
  "table (mutate p f s) = table s" "length (objects (mutate p f s)) = length (objects s)"
  by (simp_all add: mutate_def)

lemma unshared_mutate [simp]: "unshared c (mutate p f s) = unshared c s"
  by (simp add: unshared_def)

lemma deref_mutate: "deref (mutate p f s) x = (if x = p \<and> p < length (objects s) then f (deref s p) else deref s x)"
  by (cases "p < length (objects s)") (auto simp: mutate_def nth_list_update list_update_beyond)

lemma mutate_mutate: "p < length (objects s) \<Longrightarrow> mutate p g (mutate p f s) = mutate p (g \<circ> f) s"
  by (simp add: mutate_def)

lemma map_entry_mutate:
  assumes "distinct (map fst t)" "distinct (map snd t)" "map_of t k = Some p"
  shows "map (\<lambda>(k, x). (k, if x = p then g (f p) else f x)) t = AList.map_entry k g (map (\<lambda>(k, x). (k, f x)) t)"
  using assms
proof (induction t)
  case (Cons y t)
  obtain k' p' where y: "y = (k', p')" by (cases y)
  show ?case
  proof (cases "k' = k")
    case True
    with Cons.prems y have p: "p' = p" by simp
    have "map (\<lambda>(k, x). (k, if x = p then g (f p) else f x)) t = map (\<lambda>(k, x). (k, f x)) t"
    proof (rule map_values_cong)
      fix x assume "x \<in> snd ` set t"
      with Cons.prems y p have "x \<noteq> p" by auto
      then show "(if x = p then g (f p) else f x) = f x" by simp
    qed
    with True y p show ?thesis by simp
  next
    case False
    with Cons.prems y have m: "map_of t k = Some p" by simp
    then have "p \<in> snd ` set t" by (force dest: map_of_SomeD)
    with Cons.prems y have "p' \<noteq> p" by auto
    with Cons.IH Cons.prems y m False show ?thesis by simp
  qed
qed simp

lemma mutate_view:
  assumes "unshared c s" and "map_of (table s) k = Some p"
  shows "map (deref (mutate p f s)) c = map (deref s) c"
    and "repo_of (mutate p f s) = change_ad k f (repo_of s)"
proof -
  note u = unsharedD[OF assms(1)]
  have p: "p \<in> snd ` set (table s)" using assms(2) by (rule map_of_in_table)
  then have l: "p < length (objects s)" by (rule u(6))
  from p u(4) show "map (deref (mutate p f s)) c = map (deref s) c"
    by (auto simp: deref_mutate)
  show "repo_of (mutate p f s) = change_ad k f (repo_of s)"
    using map_entry_mutate[where f = "deref s" and g = f, OF u(1,2) assms(2)] l
    by (simp add: repo_of_def deref_mutate cong: if_cong)
qed

text \<open>An assignment through a pointer of the client changes that object of the client alone.\<close>

lemma client_mutate_view:
  assumes "unshared c s" and "n < length c"
  shows "map (deref (mutate (c ! n) f s)) c = (map (deref s) c)[n := f (deref s (c ! n))]"
    and "repo_of (mutate (c ! n) f s) = repo_of s"
proof -
  note u = unsharedD[OF assms(1)]
  have p: "c ! n \<in> set c" using assms(2) by simp
  then have l: "c ! n < length (objects s)" by (rule u(5))
  show "map (deref (mutate (c ! n) f s)) c = (map (deref s) c)[n := f (deref s (c ! n))]"
    using l u(3) assms(2)
    by (auto intro!: nth_equalityI simp: deref_mutate nth_list_update nth_eq_iff_index_eq)
  have "map (\<lambda>(k, x). (k, deref (mutate (c ! n) f s) x)) (table s) = map (\<lambda>(k, x). (k, deref s x)) (table s)"
  proof (rule map_values_cong)
    fix x assume "x \<in> snd ` set (table s)"
    with p u(4) have "x \<noteq> c ! n" by blast
    then show "deref (mutate (c ! n) f s) x = deref s x" by (simp add: deref_mutate)
  qed
  then show "repo_of (mutate (c ! n) f s) = repo_of s" by (simp add: repo_of_def)
qed

section \<open>Each call simulates its value counterpart\<close>

definition tracks :: "ranswer \<times> addr list \<times> ptr_store \<Rightarrow> ranswer \<times> Ad list \<times> MemoryRepository \<Rightarrow> bool" where
  "tracks x y \<longleftrightarrow> unshared (fst (snd x)) (snd (snd x)) \<and> y = (fst x, view (snd x))"

lemma tracksI:
  "unshared c s \<Longrightarrow> v = map (deref s) c \<Longrightarrow> m = repo_of s \<Longrightarrow> tracks (r, c, s) (r, v, m)"
  by (simp add: tracks_def view_def)

lemma held_map [simp]: "held (map f c) n = map_option f (held c n)"
  by (simp add: held_def)

lemma held_SomeD: "held c n = Some p \<Longrightarrow> n < length c \<and> p = c ! n"
  by (simp add: held_def split: if_splits)

lemma length_filter_table:
  "length (filter (\<lambda>(k, p). P (deref s p)) (table s)) = length (filter (\<lambda>(k, a). P a) (ads (repo_of s)))"
  by (simp add: repo_of_def map_values_filter[symmetric])

lemma Save_tracks:
  "unshared c s \<Longrightarrow> tracks (ptr_step (RSave n) (c, s)) (val_step (RSave n) (view (c, s)))"
  by (cases "held c n")
    (auto simp: view_def hp_Save_def Save_def save_ad_def store_view intro!: tracksI)

lemma cache_set_tracks:
  "unshared c s \<Longrightarrow> tracks (ptr_step (RSet i n ttl) (c, s)) (val_step (RSet i n ttl) (view (c, s)))"
  by (cases "held c n")
    (auto simp: view_def hp_cache_set_def cache_set_def store_view intro!: tracksI)

lemma New_tracks: 
  assumes "unshared c s"
  shows "tracks (ptr_step (RNew a) (c, s)) (val_step (RNew a) (view (c, s)))"
  using give_view[OF assms refl, of "[length (objects s)]" "[a]"]
  by (simp add: tracks_def view_def alloc_def)

lemma Get_tracks:
  assumes "unshared c s"
  shows "tracks (ptr_step (RGet i) (c, s)) (val_step (RGet i) (view (c, s)))"
proof (cases "i = '''' \<or> map_of (table s) i = None")
  case True
  then show ?thesis using assms by (auto simp: view_def hp_Get_def Get_def intro!: tracksI)
next
  case False
  then obtain p where p: "i \<noteq> ''''" "map_of (table s) i = Some p" by auto
  then show ?thesis
    using give_view[OF assms refl, of "[length (objects s)]" "[deref s p]"]
    by (simp add: tracks_def view_def alloc_def hp_Get_def Get_def)
qed

lemma Write_tracks:
  assumes "unshared c s"
  shows "tracks (ptr_step (RWrite n a) (c, s)) (val_step (RWrite n a) (view (c, s)))"
proof (cases "n < length c")
  case True
  with client_mutate_view[OF assms True, of "\<lambda>_. a"] assms show ?thesis
    by (auto simp: view_def held_def intro!: tracksI)
next
  case False
  with assms show ?thesis by (auto simp: view_def held_def list_update_beyond intro!: tracksI)
qed

lemma Update_tracks:
  assumes u: "unshared c s"
  shows "tracks (ptr_step (RUpdate n) (c, s)) (val_step (RUpdate n) (view (c, s)))"
proof (cases "held c n")
  case None
  with u show ?thesis by (auto simp: view_def hp_Update_def Update_def intro!: tracksI)
next
  case (Some p)
  then have n: "n < length c" "p = c ! n" by (auto dest: held_SomeD)
  then have l: "p < length (objects s)" using unsharedD(5)[OF u] by simp
  have same: "(map (deref s) c)[n := deref s p] = map (deref s) c"
    using n by (metis list_update_id nth_map length_map)
  let ?i = "AdID (deref s p)" and ?s = "mutate p bump_version s"
  show ?thesis
  proof (cases "?i \<noteq> '''' \<and> (\<exists>e. map_of (table s) ?i = Some e \<and> Version (deref s e) = Version (deref s p))")
    case True
    then obtain e where e: "?i \<noteq> ''''" "map_of (table s) ?i = Some e" "Version (deref s e) = Version (deref s p)"
      by blast
    have u': "unshared c ?s" using u by simp
    have c': "map (deref (hp_store ?i p ?s)) c = (map (deref s) c)[n := bump_version (deref s p)]"
      using store_view(2)[OF u'] client_mutate_view(1)[OF u n(1), of bump_version] n(2)
      by (simp only:)
    have m': "repo_of (hp_store ?i p ?s) = put_ad ?i (bump_version (deref s p)) (repo_of s)"
      using store_view(3)[OF u'] client_mutate_view(2)[OF u n(1), of bump_version] n(2) l
      by (simp add: deref_mutate)
    show ?thesis using e Some store_view(1)[OF u']
      by (auto simp: view_def hp_Update_def Update_def update_ad_def Let_def c' m' simp del: map_eq_conv
          intro!: tracksI)
  next
    case False
    with Some same u show ?thesis
      by (auto simp: view_def hp_Update_def Update_def update_ad_def intro!: tracksI split: option.splits)
  qed
qed

lemma Delete_tracks:
  assumes "unshared c s"
  shows "tracks (ptr_step (RDelete i) (c, s)) (val_step (RDelete i) (view (c, s)))"
proof -
  have sub: "set (AList.delete i (table s)) \<subseteq> set (table s)" by (auto simp: AList.delete_eq)
  have "distinct (map snd (AList.delete i (table s)))"
    using unsharedD(2)[OF assms] by (simp add: AList.delete_eq distinct_map_filter)
  moreover have "distinct (map fst (AList.delete i (table s)))"
    using unsharedD(1)[OF assms] by (simp add: AList.delete_eq distinct_map_filter)
  moreover have "set c \<inter> snd ` set (AList.delete i (table s)) = {}"
    using Int_mono[OF subset_refl image_mono[OF sub], of "set c" snd] unsharedD(4)[OF assms] by simp
  moreover have "\<forall>p \<in> set c \<union> snd ` set (AList.delete i (table s)). p < length (objects s)"
    using assms sub by (auto simp: unshared_def)
  ultimately have "unshared c (s\<lparr>table := AList.delete i (table s)\<rparr>)"
    using unsharedD(3)[OF assms] by (simp add: unshared_def)
  with assms show ?thesis
    by (auto simp: view_def hp_Delete_def Delete_def repo_of_def map_values_delete map_of_map_values
        intro!: tracksI split: option.splits)
qed

text \<open>The queries: the copies are new objects, sorted and cut like the values they hold.\<close>

lemma hp_copies_spec:
  "\<forall>p \<in> set ps. p < length (objects s) \<Longrightarrow>
   hp_copies st ps s =
     (let as = filter (\<lambda>a. Status a = st) (map (deref s) ps)
      in ([length (objects s)..<length (objects s) + length as], s\<lparr>objects := objects s @ as\<rparr>))"
proof (induction ps arbitrary: s)
  case (Cons p ps)
  let ?s = "s\<lparr>objects := objects s @ [deref s p]\<rparr>"
  define as where "as = filter (\<lambda>a. Status a = st) (map (deref s) ps)"
  have same: "map (deref ?s) ps = map (deref s) ps" using Cons.prems by (simp add: nth_append)
  have b: "\<forall>x \<in> set ps. x < length (objects ?s)" using Cons.prems by (simp add: less_SucI)
  have "hp_copies st ps ?s = ([length (objects ?s)..<length (objects ?s) + length as], ?s\<lparr>objects := objects ?s @ as\<rparr>)"
    using Cons.IH[OF b] by (simp only: same as_def[symmetric] Let_def)
  then have "hp_copies st ps ?s =
      ([Suc (length (objects s))..<Suc (length (objects s) + length as)], s\<lparr>objects := objects s @ deref s p # as\<rparr>)"
    by (simp del: upt_Suc)
  moreover have "[length (objects s)..<length (objects s) + Suc (length as)] =
      length (objects s) # [Suc (length (objects s))..<Suc (length (objects s) + length as)]"
    by (subst upt_conv_Cons) simp_all
  moreover have "hp_copies st ps s = ([length (objects s)..<length (objects s) + length as], s\<lparr>objects := objects s @ as\<rparr>)"
  proof -
    have "\<forall>x \<in> set ps. x < length (objects s)" using Cons.prems by simp
    from Cons.IH[OF this] show ?thesis by (simp only: as_def[symmetric] Let_def)
  qed
  ultimately show ?case
    by (simp only: hp_copies.simps list.map filter.simps as_def[symmetric] alloc_def prod.case
        map_prod_simp id_apply Let_def list.size if_distrib) (simp del: upt_Suc)
qed simp

lemma upt_map_append: "map (\<lambda>p. (xs @ ys) ! p) [length xs..<length xs + length ys] = ys"
  by (rule nth_equalityI) simp_all

lemma copies_view:
  assumes "unshared c s"
  obtains qs s' where "hp_copies st (map snd (shuffle ord (table s))) s = (qs, s')"
    and "map (deref s') qs = ads_with_status ord st (repo_of s)"
    and "\<And>rs. set rs \<subseteq> set qs \<Longrightarrow> distinct rs \<Longrightarrow>
           unshared (c @ rs) s' \<and> view (c @ rs, s') = (map (deref s) c @ map (deref s') rs, repo_of s)"
    and "distinct qs"
proof -
  let ?ps = "map snd (shuffle ord (table s))"
  let ?as = "filter (\<lambda>a. Status a = st) (map (deref s) ?ps)"
  let ?s' = "s\<lparr>objects := objects s @ ?as\<rparr>"
  let ?qs = "[length (objects s)..<length (objects s) + length ?as]"
  have "\<forall>p \<in> set ?ps. p < length (objects s)" using unsharedD(6)[OF assms] by force
  then have c: "hp_copies st ?ps s = (?qs, ?s')" by (simp only: hp_copies_spec Let_def)
  have "map (deref ?s') ?qs = ?as" using upt_map_append[of "objects s" ?as] by simp
  also have "?as = ads_with_status ord st (repo_of s)"
    by (simp add: ads_with_status_def repo_of_def shuffle_map comp_def case_prod_unfold)
  finally have v: "map (deref ?s') ?qs = ads_with_status ord st (repo_of s)" .
  show ?thesis
  proof (rule that[OF c v])
    fix rs :: "addr list" assume rs: "set rs \<subseteq> set ?qs" "distinct rs"
    then have "set rs \<subseteq> {length (objects s)..<length (objects s) + length ?as}" by simp
    with give_view[OF assms refl rs(2)]
    show "unshared (c @ rs) ?s' \<and> view (c @ rs, ?s') = (map (deref s) c @ map (deref ?s') rs, repo_of s)"
      by blast
  qed simp
qed

lemma sorted_copies:
  assumes "map (deref s') qs = as" and "distinct qs"
  shows "map (deref s') (sort_slice (\<lambda>p q. lt (deref s' p) (deref s' q)) qs) = sort_slice lt as"
    and "distinct (sort_slice (\<lambda>p q. lt (deref s' p) (deref s' q)) qs)"
    and "set (sort_slice (\<lambda>p q. lt (deref s' p) (deref s' q)) qs) = set qs"
  using assms by (auto simp: sort_slice_map[symmetric] simp flip: assms(1) intro: mset_eq_imp_distinct_iff[THEN iffD2])

text \<open>A slice of the sorted copies is handed to the client, a panic gives it nothing.\<close>

lemma slice_view:
  assumes "distinct ps" and "set ps = set qs"
    and "\<And>rs. set rs \<subseteq> set qs \<Longrightarrow> distinct rs \<Longrightarrow>
           unshared (c @ rs) s' \<and> view (c @ rs, s') = (map (deref s) c @ map (deref s') rs, repo_of s)"
  shows "tracks (AAds (map_result (map (deref s')) (go_slice ps lo hi)), c @ ok_list (go_slice ps lo hi), s')
           (let r = go_slice (map (deref s') ps) lo hi in (AAds r, map (deref s) c @ ok_list r, repo_of s))"
proof (cases "go_slice ps lo hi")
  case (Ok rs)
  then have "set rs \<subseteq> set qs" "distinct rs"
    using go_slice_subset[OF Ok] assms(1,2) by (auto simp: go_slice_def split: if_splits)
  from assms(3)[OF this] Ok show ?thesis by (simp add: tracks_def Let_def go_slice_map)
next
  case (Err e)
  then show ?thesis using assms(3)[of "[]"] by (simp add: tracks_def Let_def go_slice_map)
next
  case Panic
  then show ?thesis using assms(3)[of "[]"] by (simp add: tracks_def Let_def go_slice_map)
qed

lemma FindByPriority_tracks:
  assumes "unshared c s"
  shows "tracks (ptr_step (RFindByPriority ord st l) (c, s)) (val_step (RFindByPriority ord st l) (view (c, s)))"
proof -
  from assms obtain qs s' where q: "hp_copies st (map snd (shuffle ord (table s))) s = (qs, s')"
    "map (deref s') qs = ads_with_status ord st (repo_of s)"
    "\<And>rs. set rs \<subseteq> set qs \<Longrightarrow> distinct rs \<Longrightarrow>
       unshared (c @ rs) s' \<and> view (c @ rs, s') = (map (deref s) c @ map (deref s') rs, repo_of s)"
    "distinct qs"
    by (rule copies_view) blast
  note so = sorted_copies[where lt = by_priority, OF q(2,4)]
  have "length qs = length (ads_with_status ord st (repo_of s))" using q(2) by (metis length_map)
  with slice_view[OF so(2,3) q(3), of 0] so(1) show ?thesis
    by (simp add: view_def hp_FindByPriority_def FindByPriority_def q(1) Let_def)
qed

lemma FindByStatus_tracks:
  assumes "unshared c s"
  shows "tracks (ptr_step (RFindByStatus ord st l off) (c, s)) (val_step (RFindByStatus ord st l off) (view (c, s)))"
proof -
  from assms obtain qs s' where q: "hp_copies st (map snd (shuffle ord (table s))) s = (qs, s')"
    "map (deref s') qs = ads_with_status ord st (repo_of s)"
    "\<And>rs. set rs \<subseteq> set qs \<Longrightarrow> distinct rs \<Longrightarrow>
       unshared (c @ rs) s' \<and> view (c @ rs, s') = (map (deref s) c @ map (deref s') rs, repo_of s)"
    "distinct qs"
    by (rule copies_view) blast
  note so = sorted_copies[where lt = newest_first, OF q(2,4)]
  have l: "length qs = length (ads_with_status ord st (repo_of s))" using q(2) by (metis length_map)
  show ?thesis
  proof (cases "int (length qs) \<le> off")
    case True
    with l q(3)[of "[]"] show ?thesis
      by (simp add: view_def hp_FindByStatus_def FindByStatus_def q(1) Let_def tracks_def)
  next
    case False
    with l slice_view[OF so(2,3) q(3), of off] so(1) show ?thesis
      by (simp add: view_def hp_FindByStatus_def FindByStatus_def q(1) Let_def)
  qed
qed

text \<open>The methods that write through the stored pointers.\<close>

lemma mutate_tracks:
  assumes "unshared c s" and "map_of (table s) k = Some p"
  shows "tracks (r, c, mutate p f s) (r, map (deref s) c, change_ad k f (repo_of s))"
  using mutate_view[OF assms, of f] assms(1) by (simp add: tracks_def view_def)

lemma in_table_length: "unshared c s \<Longrightarrow> map_of (table s) k = Some p \<Longrightarrow> p < length (objects s)"
  by (rule unsharedD(6)) (auto intro: map_of_in_table)

lemma assign_mutate:
  "p < length (objects s) \<Longrightarrow>
   mutate p bump_version (mutate p (\<lambda>a. a\<lparr>WorkerID := w\<rparr>) s) = mutate p (\<lambda>a. bump_version (a\<lparr>WorkerID := w\<rparr>)) s"
  by (simp add: mutate_mutate comp_def)

lemma set_status_mutate:
  "p < length (objects s) \<Longrightarrow> hp_set_status now st p s = mutate p (set_status_bump now st) s"
  by (auto simp: hp_set_status_def mutate_mutate Let_def set_status_bump_def comp_def
      intro!: arg_cong[where f = "\<lambda>f. mutate p f s"])

lemma assign_loop_tracks:
  "unshared c s \<Longrightarrow>
   (case hp_assign_loop w ids cnt s of (n, s') \<Rightarrow>
      unshared c s' \<and> map (deref s') c = map (deref s) c \<and> assign_loop w ids cnt (repo_of s) = (n, repo_of s'))"
proof (induction ids arbitrary: cnt s)
  case (Cons i ids)
  show ?case
  proof (cases "map_of (table s) i")
    case None
    with Cons show ?thesis by simp
  next
    case (Some p)
    note l = in_table_length[OF Cons.prems Some]
    let ?s = "mutate p (\<lambda>a. bump_version (a\<lparr>WorkerID := w\<rparr>)) s"
    have "unshared c ?s" using Cons.prems by simp
    from Cons.IH[OF this, of "cnt + 1"] mutate_view[OF Cons.prems Some, of "\<lambda>a. bump_version (a\<lparr>WorkerID := w\<rparr>)"]
    show ?thesis
      by (simp add: Some assign_mutate[OF l] case_prod_unfold del: map_eq_conv)
  qed
qed simp

lemma batch_loop_tracks:
  "unshared c s \<Longrightarrow>
   (case hp_batch_loop now st ids cnt s of (n, s') \<Rightarrow>
      unshared c s' \<and> map (deref s') c = map (deref s) c \<and> batch_status_loop now st ids cnt (repo_of s) = (n, repo_of s'))"
proof (induction ids arbitrary: cnt s now)
  case (Cons i ids)
  show ?case
  proof (cases "map_of (table s) i")
    case None
    with Cons show ?thesis by simp
  next
    case (Some p)
    note l = in_table_length[OF Cons.prems Some]
    let ?s = "mutate p (set_status_bump (now 0) st) s"
    have "unshared c ?s" using Cons.prems by simp
    from Cons.IH[OF this, of "now \<circ> Suc" "cnt + 1"] mutate_view[OF Cons.prems Some, of "set_status_bump (now 0) st"]
    show ?thesis
      by (simp add: Some set_status_mutate[OF l] case_prod_unfold comp_def del: map_eq_conv)
  qed
qed simp

text \<open>The release visits each stored object once, in any order.\<close>

lemma release_loop_effect:
  "distinct ps \<Longrightarrow> \<forall>p \<in> set ps. p < length (objects s) \<Longrightarrow>
   (case hp_release_loop w ps cnt s of (n, s') \<Rightarrow>
      n = cnt + int (length (filter (\<lambda>p. WorkerID (deref s p) = w) ps)) \<and> table s' = table s \<and>
      length (objects s') = length (objects s) \<and>
      (\<forall>x. deref s' x = (if x \<in> set ps \<and> WorkerID (deref s x) = w
         then bump_version ((deref s x)\<lparr>WorkerID := ''''\<rparr>) else deref s x)))"
proof (induction ps arbitrary: cnt s)
  case (Cons p ps)
  show ?case
  proof (cases "WorkerID (deref s p) = w")
    case False
    with Cons.IH[of s cnt] Cons.prems show ?thesis by (auto simp: case_prod_unfold)
  next
    case True
    have l: "p < length (objects s)" using Cons.prems by simp
    let ?s = "mutate p (\<lambda>a. bump_version (a\<lparr>WorkerID := ''''\<rparr>)) s"
    have f: "filter (\<lambda>x. WorkerID (deref ?s x) = w) ps = filter (\<lambda>x. WorkerID (deref s x) = w) ps"
      using Cons.prems by (intro filter_cong) (auto simp: deref_mutate)
    have "\<forall>x \<in> set ps. x < length (objects ?s)" "distinct ps" using Cons.prems by simp_all
    from Cons.IH[OF this(2,1), of "cnt + 1"] show ?thesis
      using True Cons.prems(1) l
      by (simp add: assign_mutate[OF l] case_prod_unfold f) (auto simp: deref_mutate)
  qed
qed simp

lemma Release_tracks:
  assumes u: "unshared c s"
  shows "tracks (ptr_step (RReleaseWorkerAssignments ord w) (c, s))
           (val_step (RReleaseWorkerAssignments ord w) (view (c, s)))"
proof -
  let ?ps = "map snd (shuffle ord (table s))"
  obtain n s' where r: "hp_release_loop w ?ps 0 s = (n, s')" by fastforce
  have d: "distinct ?ps"
    using unsharedD(2)[OF u] by (metis mset_shuffle mset_map mset_eq_imp_distinct_iff)
  have b: "\<forall>p \<in> set ?ps. p < length (objects s)" using unsharedD(6)[OF u] by force
  from release_loop_effect[OF d b, where w = w and cnt = 0] r
  have e: "n = int (length (filter (\<lambda>p. WorkerID (deref s p) = w) ?ps))" "table s' = table s"
    "length (objects s') = length (objects s)"
    "\<And>x. deref s' x = (if x \<in> snd ` set (table s) \<and> WorkerID (deref s x) = w
         then bump_version ((deref s x)\<lparr>WorkerID := ''''\<rparr>) else deref s x)"
    by auto
  have "mset (filter (\<lambda>p. WorkerID (deref s p) = w) ?ps) = mset (filter (\<lambda>p. WorkerID (deref s p) = w) (map snd (table s)))"
    by simp
  then have "length (filter (\<lambda>p. WorkerID (deref s p) = w) ?ps) = length (filter (\<lambda>p. WorkerID (deref s p) = w) (map snd (table s)))"
    by (rule mset_eq_length)
  also have "\<dots> = length (filter (\<lambda>(k, p). WorkerID (deref s p) = w) (table s))"
    by (simp add: filter_map comp_def case_prod_unfold)
  finally have n: "n = int (length (filter (\<lambda>(k, a). WorkerID a = w) (ads (repo_of s))))"
    using e(1) by (simp only: length_filter_table[of "\<lambda>a. WorkerID a = w"])
  have c': "map (deref s') c = map (deref s) c"
  proof (rule map_cong[OF refl])
    fix x assume "x \<in> set c"
    with unsharedD(4)[OF u] have "x \<notin> snd ` set (table s)" by blast
    then show "deref s' x = deref s x" using e(4)[of x] by simp
  qed
  have m: "ads (repo_of s') = map (\<lambda>(k, a). (k, if WorkerID a = w then bump_version (a\<lparr>WorkerID := ''''\<rparr>) else a)) (ads (repo_of s))"
  proof -
    let ?g = "\<lambda>a. if WorkerID a = w then bump_version (a\<lparr>WorkerID := ''''\<rparr>) else a"
    have "map (\<lambda>(k, x). (k, deref s' x)) (table s) = map (\<lambda>(k, x). (k, ?g (deref s x))) (table s)"
      by (rule map_values_cong) (simp add: e(4))
    then show ?thesis by (simp add: repo_of_def e(2) comp_def case_prod_unfold)
  qed
  have "unshared c s'" using u e(2,3) by (simp add: unshared_def)
  then show ?thesis
    using r n c' m by (simp add: view_def hp_ReleaseWorkerAssignments_def ReleaseWorkerAssignments_def tracks_def
        del: map_eq_conv) (simp add: repo_of_def)
qed

lemma PopFromQueue_tracks:
  assumes u: "unshared c s"
  shows "tracks (ptr_step (RPopFromQueue ord qn) (c, s)) (val_step (RPopFromQueue ord qn) (view (c, s)))"
proof -
  let ?ps = "filter (\<lambda>p. Status (deref s p) = StatusQueued) (map snd (shuffle ord (table s)))"
  have "ads_with_status ord StatusQueued (repo_of s) = map (deref s) ?ps"
    by (simp add: ads_with_status_def repo_of_def shuffle_map filter_map comp_def case_prod_unfold)
  then have "sort_slice pop_order (ads_with_status ord StatusQueued (repo_of s)) =
      map (deref s) (sort_slice (\<lambda>p q. pop_order (deref s p) (deref s q)) ?ps)"
    by (simp only: sort_slice_map)
  with u show ?thesis
    by (cases "sort_slice (\<lambda>p q. pop_order (deref s p) (deref s q)) ?ps")
      (simp_all add: view_def hp_PopFromQueue_def mem_PopFromQueue_def tracks_def)
qed

lemma DeleteOlderThan_tracks:
  assumes u: "unshared c s"
  shows "tracks (ptr_step (RDeleteOlderThan now d) (c, s)) (val_step (RDeleteOlderThan now d) (view (c, s)))"
proof -
  let ?old = "\<lambda>a. CreatedAt a < now - d * nsDay"
  let ?t = "filter (\<lambda>x. \<not> (case x of (k, p) \<Rightarrow> ?old (deref s p))) (table s)"
  have t: "?t = filter (\<lambda>(k, p). \<not> ?old (deref s p)) (table s)" by (rule filter_cong) auto
  have u': "unshared c (s\<lparr>table := ?t\<rparr>)"
    using u by (auto simp: unshared_def distinct_map_filter)
  have "repo_of (s\<lparr>table := ?t\<rparr>) = (repo_of s)\<lparr>ads := filter (\<lambda>x. \<not> (case x of (k, a) \<Rightarrow> ?old a)) (ads (repo_of s))\<rparr>"
    using map_values_filter[of "deref s" "\<lambda>a. \<not> ?old a" "table s"]
    by (simp add: repo_of_def t case_prod_unfold)
  with u' show ?thesis
    by (simp add: view_def hp_DeleteOlderThan_def DeleteOlderThan_def tracks_def Let_def
        length_filter_table[of ?old])
qed

section \<open>Pointers and values are indistinguishable\<close>

lemma step_tracks: "unshared c s \<Longrightarrow> tracks (ptr_step k (c, s)) (val_step k (view (c, s)))"
proof (cases k)
  case (RRead n)
  assume "unshared c s"
  with RRead show ?thesis by (simp add: tracks_def view_def)
next
  case (RCountByStatus st)
  assume "unshared c s"
  with RCountByStatus show ?thesis
    by (simp add: tracks_def view_def hp_CountByStatus_def CountByStatus_def
        length_filter_table[of "\<lambda>a. Status a = st"])
next
  case (RAssignToWorker ids w)
  assume "unshared c s"
  from assign_loop_tracks[OF this, of w ids 0] RAssignToWorker show ?thesis
    by (simp add: tracks_def view_def hp_AssignToWorker_def AssignToWorker_def case_prod_unfold
        map_prod_def del: map_eq_conv)
next
  case (RBatchUpdateStatus now ids st)
  assume "unshared c s"
  from batch_loop_tracks[OF this, of now st ids 0] RBatchUpdateStatus show ?thesis
    by (simp add: tracks_def view_def hp_BatchUpdateStatus_def BatchUpdateStatus_def case_prod_unfold
        map_prod_def del: map_eq_conv)
next
  case (RAtomicStatusUpdate now i v st st')
  assume u: "unshared c s"
  show ?thesis
  proof (cases "map_of (table s) i")
    case None
    with u RAtomicStatusUpdate show ?thesis
      by (simp add: tracks_def view_def hp_AtomicStatusUpdate_def AtomicStatusUpdate_def)
  next
    case (Some p)
    with u mutate_tracks[OF u Some] RAtomicStatusUpdate show ?thesis
      by (simp add: view_def hp_AtomicStatusUpdate_def AtomicStatusUpdate_def tracks_def
          set_status_mutate[OF in_table_length[OF u Some]])
  qed
next
  case (RPushToQueue qn i p)
  assume u: "unshared c s"
  show ?thesis
  proof (cases "map_of (table s) i")
    case None
    with u RPushToQueue show ?thesis
      by (simp add: tracks_def view_def hp_PushToQueue_def mem_PushToQueue_def)
  next
    case (Some x)
    with u mutate_tracks[OF u Some] RPushToQueue show ?thesis
      by (simp add: view_def hp_PushToQueue_def mem_PushToQueue_def tracks_def)
  qed
qed (simp_all only: New_tracks Write_tracks Save_tracks Get_tracks Update_tracks FindByStatus_tracks
    FindByPriority_tracks DeleteOlderThan_tracks Release_tracks Delete_tracks PopFromQueue_tracks
    cache_set_tracks)

lemma run_tracks: "unshared c s \<Longrightarrow> ptr_run ks (c, s) = val_run ks (view (c, s))"
proof (induction ks arbitrary: c s)
  case (Cons k ks)
  obtain r c' s' where p: "ptr_step k (c, s) = (r, c', s')" by (cases "ptr_step k (c, s)") auto
  with step_tracks[OF Cons.prems, of k] have "unshared c' s'" "val_step k (view (c, s)) = (r, view (c', s'))"
    by (simp_all add: tracks_def)
  with p Cons.IH show ?case by simp
qed simp

text \<open>C9. The copies of the in-memory repository are enough: for every sequence of calls of its methods,
  with clients that create, overwrite and read the objects they hold in between, the repository of
  pointers starting empty gives exactly the answers of the repository that stores values.  No
  client can change a stored ad by writing to an object it saved or was given, and no later call
  changes an object a client holds except \<^verbatim>\<open>Update\<close>, which increments the version of its argument.
\<close>

theorem pointers_are_values:
  "ptr_run ks ([], hp_New) = val_run ks ([], NewMemoryRepository)"
proof -
  have "unshared [] hp_New" by (simp add: unshared_def hp_New_def)
  moreover have "view ([], hp_New) = ([], NewMemoryRepository)"
    by (simp add: view_def repo_of_def hp_New_def NewMemoryRepository_def)
  ultimately show ?thesis using run_tracks by metis
qed

end
