(* ===== verification/Service_Config.thy ===== *)
theory Service_Config
  imports Ad_Service
begin

text \<open>
  The configuration (\<^verbatim>\<open>internal/config/config.go\<close>) and the way the two commands put the components
  together (\<^verbatim>\<open>cmd/server.go\<close>, \<^verbatim>\<open>cmd/worker.go\<close>).  Viper, which reads the file and the environment over
  the defaults, and the constructor of the Redis client are arguments.
\<close>

section \<open>Configuration\<close>

record ServerConfig =
  Port :: int
  ReadTimeout :: duration
  WriteTimeout :: duration
  IdleTimeout :: duration

record RedisConfig =
  Address :: string
  Password :: string
  DB :: int

record StorageConfig =
  Redis :: RedisConfig
  PersistenceType :: string
  CacheType :: string
  CacheTTL :: int

record WorkerConfig =
  c_MinWorkers :: int
  c_MaxWorkers :: int
  c_MaxConcurrentJobs :: int
  c_EnableAutoScale :: bool
  c_TargetQueueSize :: int

record ProcessorConfig =
  QueueCapacity :: int
  c_MaxAttempts :: int
  c_ProcessingTimeout :: duration
  c_LockTTL :: int
  WorkerCfg :: WorkerConfig

record LoggingConfig =
  Level :: string
  Format :: string

record Config =
  Server :: ServerConfig
  Storage :: StorageConfig
  Processor :: ProcessorConfig
  Logging :: LoggingConfig

text \<open>The defaults; a key without one has the zero value.\<close>

definition setDefaults :: Config where
  "setDefaults = \<lparr>
     Server = \<lparr>Port = 8080, ReadTimeout = 15 * nsSecond, WriteTimeout = 15 * nsSecond, IdleTimeout = 60 * nsSecond\<rparr>,
     Storage = \<lparr>Redis = \<lparr>Address = '''', Password = '''', DB = 0\<rparr>, PersistenceType = ''memory'',
       CacheType = ''memory'', CacheTTL = 3600\<rparr>,
     Processor = \<lparr>QueueCapacity = 10000, c_MaxAttempts = 3, c_ProcessingTimeout = 5 * nsMinute, c_LockTTL = 30,
       WorkerCfg = \<lparr>c_MinWorkers = 2, c_MaxWorkers = 10, c_MaxConcurrentJobs = 0, c_EnableAutoScale = True,
         c_TargetQueueSize = 100\<rparr>\<rparr>,
     Logging = \<lparr>Level = ''info'', Format = ''json''\<rparr>\<rparr>"

definition Validate :: "Config \<Rightarrow> unit result" where
  "Validate c =
     (let p = Port (Server c); pr = Processor c; wc = WorkerCfg pr; st = Storage c in
      if p \<le> 0 \<or> 65535 < p then Err (Errorf (''invalid port: '' @ fmt_d p))
      else if QueueCapacity pr < 0 then Err (Errorf (''invalid queue capacity: '' @ fmt_d (QueueCapacity pr)))
      else if c_MaxAttempts pr \<le> 0 then Err (Errorf (''invalid max attempts: '' @ fmt_d (c_MaxAttempts pr)))
      else if c_MinWorkers wc \<le> 0 then Err (Errorf (''invalid min workers: '' @ fmt_d (c_MinWorkers wc)))
      else if c_MaxWorkers wc < c_MinWorkers wc
        then Err (Errorf (''max workers ('' @ fmt_d (c_MaxWorkers wc) @ '') must be >= min workers ('' @
               fmt_d (c_MinWorkers wc) @ '')''))
      else if CacheType st = ''redis'' \<and> Address (Redis st) = ''''
        then Err (Errorf ''redis address is required when cache type is redis'')
      else Ok ())"

text \<open>What the code asks of viper: to read the file, and to decode file and environment over the defaults.\<close>

record viper =
  ReadInConfig :: "string \<Rightarrow> goerr option"
  Unmarshal :: "Config \<Rightarrow> string \<Rightarrow> goerr + Config"

text \<open>The result is the value of \<^verbatim>\<open>AppConfig\<close> after the call.\<close>

definition LoadConfig :: "viper \<Rightarrow> string \<Rightarrow> Config result" where
  "LoadConfig v configPath =
     (case (if configPath \<noteq> '''' then ReadInConfig v configPath else None) of
        Some e \<Rightarrow> Err (Wrapf ''failed to read config file: '' e '''')
      | None \<Rightarrow>
          (case Unmarshal v setDefaults configPath of
             Inl e \<Rightarrow> Err (Wrapf ''failed to unmarshal config: '' e '''')
           | Inr config \<Rightarrow>
               (case Validate config of
                  Err e \<Rightarrow> Err (Wrapf ''invalid configuration: '' e '''')
                | Panic \<Rightarrow> Panic
                | Ok _ \<Rightarrow> Ok config)))"

section \<open>The API server\<close>

record RedisOptions =
  ro_Address :: string
  ro_Password :: string
  ro_DB :: int
  DefaultTTL :: duration

definition DefaultRedisOptions :: RedisOptions where
  "DefaultRedisOptions = \<lparr>ro_Address = ''localhost:6379'', ro_Password = '''', ro_DB = 0, DefaultTTL = nsDay\<rparr>"

definition redis_options :: "Config \<Rightarrow> RedisOptions" where
  "redis_options cfg = \<lparr>ro_Address = Address (Redis (Storage cfg)), ro_Password = Password (Redis (Storage cfg)),
     ro_DB = DB (Redis (Storage cfg)), DefaultTTL = i64 (CacheTTL (Storage cfg) * nsSecond)\<rparr>"

definition queue_options :: "Config \<Rightarrow> QueueOptions" where
  "queue_options cfg = DefaultQueueOptions\<lparr>MaxCapacity := QueueCapacity (Processor cfg),
     ProcessingTimeout := c_ProcessingTimeout (Processor cfg), MaxAttempts := c_MaxAttempts (Processor cfg),
     LockTTL := i64 (c_LockTTL (Processor cfg) * nsSecond)\<rparr>"

record 'r Components =
  redisRepo :: "'r RedisRepository option"
  queue :: "'r DistributedPriorityQueue"
  analyzer :: Analyzer
  pools :: pool_heap
  workerPool :: pool_ref
  adService :: "'r AdService"

text \<open>The pool that the components point to.\<close>

definition running_pool :: "'r Components \<Rightarrow> WorkerPool" where
  "running_pool cs = pools cs ! workerPool cs"

definition connect_redis ::
  "(RedisOptions \<Rightarrow> 'r redis_client) \<Rightarrow> Config \<Rightarrow> 'r \<Rightarrow> 'r RedisRepository option \<times> 'r" where
  "connect_redis newClient cfg r =
     (if CacheType (Storage cfg) = ''redis'' \<or> PersistenceType (Storage cfg) = ''redis''
      then case NewRedisRepository (newClient (redis_options cfg)) (DefaultTTL (redis_options cfg)) r of
             (Ok rr, r) \<Rightarrow> (Some rr, r)
           | (_, r) \<Rightarrow> (None, r)
      else (None, r))"

definition initializeComponents ::
  "(RedisOptions \<Rightarrow> 'r redis_client) \<Rightarrow> Config \<Rightarrow> string \<Rightarrow> 'r \<Rightarrow> 'r Components \<times> 'r world" where
  "initializeComponents newClient cfg instID r =
     (let (rr, r) = connect_redis newClient cfg r;
          an = NewAnalyzer \<lparr>MinScore = Fin 1, MaxScore = Fin 10, AnalysisDelay = 0\<rparr>;
          cacheRepo = (case rr of
              Some rr \<Rightarrow> if CacheType (Storage cfg) = ''redis'' then RedisCache rr else MemoryCache
            | None \<Rightarrow> MemoryCache);
          q = NewDistributedPriorityQueue cacheRepo instID ((queue_options cfg)\<lparr>EnableAging := True\<rparr>);
          wc = WorkerCfg (Processor cfg);
          (pool, heap) = new_pool \<lparr>
            WorkerOptions = \<lparr>MaxConcurrent = c_MaxConcurrentJobs wc, ProcessTimeAvg = 2 * nsSecond\<rparr>,
            MinWorkers = c_MinWorkers wc, MaxWorkers = c_MaxWorkers wc,
            EnableAutoScale = c_EnableAutoScale wc, TargetQueueSize = c_TargetQueueSize wc\<rparr> []
      in (\<lparr>redisRepo = rr, queue = q, analyzer = an, pools = heap, workerPool = pool,
           adService = NewAdService cacheRepo q (Some pool)\<rparr>,
          \<lparr>repo = NewMemoryRepository, rds = r\<rparr>))"

text \<open>
  The identity of a server, from the first eight characters of a fresh UUID (slicing a shorter text
  would panic), and the settings of its HTTP server.
\<close>

definition api_instance_id :: "string \<Rightarrow> string result" where
  "api_instance_id uuid = (if length uuid < 8 then Panic else Ok (''api-'' @ take 8 uuid))"

record http_server =
  hs_Addr :: string
  hs_ReadTimeout :: duration
  hs_WriteTimeout :: duration
  hs_IdleTimeout :: duration

definition server_settings :: "Config \<Rightarrow> http_server" where
  "server_settings cfg = \<lparr>hs_Addr = CHR '':'' # fmt_d (Port (Server cfg)), hs_ReadTimeout = ReadTimeout (Server cfg),
     hs_WriteTimeout = WriteTimeout (Server cfg), hs_IdleTimeout = IdleTimeout (Server cfg)\<rparr>"

text \<open>
  What the server runs with: the components, which now point to a new pool that the server starts.
  The service keeps the pointer it was made with.
\<close>

definition serverRun ::
  "(RedisOptions \<Rightarrow> 'r redis_client) \<Rightarrow> int \<Rightarrow> (nat \<Rightarrow> string) \<Rightarrow> Config \<Rightarrow> string \<Rightarrow> 'r \<Rightarrow> 'r Components \<times> 'r world" where
  "serverRun newClient numCPU uuids cfg instID r =
     (case initializeComponents newClient cfg instID r of
        (cs, w) \<Rightarrow>
          (if 0 < c_MinWorkers (WorkerCfg (Processor cfg))
           then let (pool, heap) = new_pool ((DefaultWorkerPoolOptions numCPU)
                      \<lparr>MinWorkers := 1, MaxWorkers := 2, EnableAutoScale := False\<rparr>) (pools cs)
                in cs\<lparr>pools := on_pool (pool_Start uuids) pool heap, workerPool := pool\<rparr>
           else cs, w))"

text \<open>At a signal the server stops the queue, which is also the queue the service points to; the workers and
  the maintenance loop end with the context.\<close>

definition server_shutdown :: "'r Components \<Rightarrow> unit result \<times> 'r Components" where
  "server_shutdown cs =
     (case Close (queue cs) of (r, q) \<Rightarrow> (r, cs\<lparr>queue := q, adService := (adService cs)\<lparr>svc_queue := q\<rparr>\<rparr>))"

text \<open>
  How the server ends.  The listening goroutine returns the error of \<^verbatim>\<open>ListenAndServe\<close>, possibly the
  library's \<^verbatim>\<open>ErrServerClosed\<close>; a signal asks the HTTP server to shut down, which may fail.  \<^verbatim>\<open>Fatalf\<close>
  ends the process with status 1.  Without an event the server keeps waiting.
\<close>

datatype server_event = ListenReturned goerr | ServerSignal "goerr option"
datatype process_end = Exited_with int | Waiting

fun server_end :: "goerr \<Rightarrow> server_event list \<Rightarrow> 'r Components \<Rightarrow> process_end \<times> 'r Components" where
  "server_end errServerClosed [] cs = (Waiting, cs)"
| "server_end errServerClosed (ListenReturned err # evs) cs =
     (if err \<noteq> errServerClosed then (Exited_with 1, cs) else server_end errServerClosed evs cs)"
| "server_end errServerClosed (ServerSignal (Some err) # evs) cs = (Exited_with 1, cs)"
| "server_end errServerClosed (ServerSignal None # evs) cs = (Exited_with 0, snd (server_shutdown cs))"

section \<open>The worker process\<close>

record 'r WorkerProcess =
  wp_queue :: "'r DistributedPriorityQueue"
  wp_analyzer :: Analyzer
  wp_pool :: WorkerPool

definition workerRun ::
  "(RedisOptions \<Rightarrow> 'r redis_client) \<Rightarrow> int \<Rightarrow> (nat \<Rightarrow> string) \<Rightarrow> Config \<Rightarrow> string \<Rightarrow> 'r \<Rightarrow>
   'r WorkerProcess result \<times> 'r world" where
  "workerRun newClient numCPU uuids cfg instID r =
     (case NewRedisRepository (newClient (redis_options cfg)) (DefaultTTL (redis_options cfg)) r of
        (Err e, r) \<Rightarrow> (Err e, \<lparr>repo = NewMemoryRepository, rds = r\<rparr>)
      | (Panic, r) \<Rightarrow> (Panic, \<lparr>repo = NewMemoryRepository, rds = r\<rparr>)
      | (Ok rr, r) \<Rightarrow>
          let q = NewDistributedPriorityQueue (RedisCache rr) instID (queue_options cfg);
              wc = WorkerCfg (Processor cfg);
              pool = NewWorkerPool ((DefaultWorkerPoolOptions numCPU)\<lparr>MinWorkers := c_MinWorkers wc,
                MaxWorkers := c_MaxWorkers wc, EnableAutoScale := c_EnableAutoScale wc,
                TargetQueueSize := c_TargetQueueSize wc\<rparr>)
          in (Ok \<lparr>wp_queue = q, wp_analyzer = NewAnalyzer DefaultAnalyzerOptions, wp_pool = snd (pool_Start uuids pool)\<rparr>,
              \<lparr>repo = NewMemoryRepository, rds = r\<rparr>))"

text \<open>The worker process ends at a signal: it closes its queue; the context ends the pool's workers.\<close>

definition worker_shutdown :: "'r WorkerProcess \<Rightarrow> unit result \<times> 'r WorkerProcess" where
  "worker_shutdown p = (case Close (wp_queue p) of (r, q) \<Rightarrow> (r, p\<lparr>wp_queue := q\<rparr>))"

text \<open>After an orderly end both queues are closed: a later \<^verbatim>\<open>Dequeue\<close> or \<^verbatim>\<open>Enqueue\<close> is refused.\<close>

lemma Close_closes [simp]: "fst (Close q) = Ok ()" "closed (snd (Close q))"
  by (simp_all add: Close_def)

lemma orderly_end_refuses:
  assumes "server_end e evs cs = (Exited_with 0, cs')"
  shows "fst (Enqueue (queue cs') now ad w) = Err ErrQueueClosed"
    and "Dequeue (Suc n) (queue cs') env w = Some (Err ErrQueueClosed, w)"
    and "Dequeue (Suc n) (wp_queue (snd (worker_shutdown p))) env w = Some (Err ErrQueueClosed, w)"
proof -
  have "closed (queue cs')"
    using assms
    by (induction e evs cs rule: server_end.induct)
      (auto simp: server_shutdown_def case_prod_unfold split: if_splits)
  then show "fst (Enqueue (queue cs') now ad w) = Err ErrQueueClosed"
    "Dequeue (Suc n) (queue cs') env w = Some (Err ErrQueueClosed, w)"
    by (simp_all add: Enqueue_def Dequeue_step)
  have "closed (wp_queue (snd (worker_shutdown p)))"
    by (simp add: worker_shutdown_def case_prod_unfold)
  then show "Dequeue (Suc n) (wp_queue (snd (worker_shutdown p))) env w = Some (Err ErrQueueClosed, w)"
    by (simp add: Dequeue_step)
qed

section \<open>Properties of the configuration\<close>

definition valid_config :: "Config \<Rightarrow> bool" where
  "valid_config c \<longleftrightarrow> 1 \<le> Port (Server c) \<and> Port (Server c) \<le> 65535 \<and> 0 \<le> QueueCapacity (Processor c)
     \<and> 1 \<le> c_MaxAttempts (Processor c) \<and> 1 \<le> c_MinWorkers (WorkerCfg (Processor c))
     \<and> c_MinWorkers (WorkerCfg (Processor c)) \<le> c_MaxWorkers (WorkerCfg (Processor c))
     \<and> \<not> (CacheType (Storage c) = ''redis'' \<and> Address (Redis (Storage c)) = '''')"

lemma Validate_cases: "Validate c = Ok () \<and> valid_config c \<or> (\<exists>e. Validate c = Err e) \<and> \<not> valid_config c"
  by (auto simp: Validate_def valid_config_def Let_def)

text \<open>Loading a configuration.  A configuration is accepted exactly when the file, if one is named, can
  be read, viper decodes it over the defaults, and the port, the capacity, the attempts, the numbers
  of workers and the Redis address are valid; the defaults are.  Otherwise the call fails with an
  error, and never panics.\<close>

theorem load_config_accepts:
  "(LoadConfig v path = Ok cfg) = ((path = '''' \<or> ReadInConfig v path = None)
      \<and> Unmarshal v setDefaults path = Inr cfg \<and> valid_config cfg)
   \<and> LoadConfig v path \<noteq> Panic \<and> valid_config setDefaults"
proof -
  have d: "valid_config setDefaults" by (simp add: valid_config_def setDefaults_def)
  show ?thesis
  proof (cases "Unmarshal v setDefaults path")
    case (Inl e)
    then show ?thesis using d by (auto simp: LoadConfig_def split: option.split)
  next
    case (Inr c)
    then show ?thesis using d Validate_cases[of c] by (auto simp: LoadConfig_def split: option.split)
  qed
qed

section \<open>Properties of the two processes\<close>

lemma valid_configD:
  "valid_config c \<Longrightarrow> 1 \<le> c_MinWorkers (WorkerCfg (Processor c))"
  "valid_config c \<Longrightarrow> c_MinWorkers (WorkerCfg (Processor c)) \<le> c_MaxWorkers (WorkerCfg (Processor c))"
  "valid_config c \<Longrightarrow> 0 \<le> QueueCapacity (Processor c)"
  "valid_config c \<Longrightarrow> 1 \<le> c_MaxAttempts (Processor c)"
  by (simp_all add: valid_config_def)

text \<open>Every worker of a pool that was started is running, with the loops its options ask for.\<close>

lemma fold_update_values:
  "\<forall>(k, wk) \<in> set xs. P wk \<Longrightarrow> (\<And>i. P (f i)) \<Longrightarrow>
   \<forall>(k, wk) \<in> set (fold (\<lambda>i. AList.update (g i) (f i)) ids xs). P wk"
proof (induction ids arbitrary: xs)
  case (Cons i ids)
  have "\<forall>(k, wk) \<in> set (AList.update (g i) (f i) xs). P wk"
    using Cons.prems set_update_alist[of "g i" "f i" xs] by auto
  then show ?case using Cons.IH Cons.prems(2) by simp
qed simp

lemma pool_Start_each:
  assumes "\<And>i. P (started i (WorkerOptions opts))"
  shows "\<forall>(k, wk) \<in> set (workers (snd (pool_Start uuids (NewWorkerPool opts)))). P wk"
proof -
  let ?ids = "map uuids [0..<nat (minWorkers (NewWorkerPool opts))]"
  obtain u wp where S: "start_workers ?ids (NewWorkerPool opts) = (u, wp)"
    by (cases "start_workers ?ids (NewWorkerPool opts)")
  have wp: "u = Ok ()" "workers wp = fold (\<lambda>i. AList.update (''worker-'' @ i) (started i (WorkerOptions opts))) ?ids []"
    using start_workers_result[of ?ids "NewWorkerPool opts"] by (simp_all add: S) (simp_all add: NewWorkerPool_def)
  have "\<forall>(k, wk) \<in> set (workers wp). P wk"
    unfolding wp(2) by (rule fold_update_values) (simp_all add: assms)
  then show ?thesis using S wp(1) by (auto simp: pool_Start_def)
qed

lemma pool_Start_workers:
  "\<forall>(k, wk) \<in> set (workers (snd (pool_Start uuids (NewWorkerPool opts)))).
     isRunning wk \<and> launched wk = nat (MaxConcurrent (WorkerOptions opts))"
  by (rule pool_Start_each) (simp add: started_def NewWorker_def)

lemma pool_Start_fresh:
  "\<forall>(k, wk) \<in> set (workers (snd (pool_Start uuids (NewWorkerPool opts)))).
     processed wk = 0 \<and> activeJobs wk = 0 \<and> w_errors wk = 0"
  by (rule pool_Start_each) (simp add: started_def NewWorker_def)

lemma workerRun_result:
  assumes "workerRun newClient numCPU uuids cfg instID r = (Ok p, w)"
  obtains rr where "wp_queue p = NewDistributedPriorityQueue (RedisCache rr) instID (queue_options cfg)"
    and "client rr = newClient (redis_options cfg)" and "repo w = NewMemoryRepository"
    and "wp_pool p = snd (pool_Start uuids (NewWorkerPool ((DefaultWorkerPoolOptions numCPU)
      \<lparr>MinWorkers := c_MinWorkers (WorkerCfg (Processor cfg)), MaxWorkers := c_MaxWorkers (WorkerCfg (Processor cfg)),
       EnableAutoScale := c_EnableAutoScale (WorkerCfg (Processor cfg)),
       TargetQueueSize := c_TargetQueueSize (WorkerCfg (Processor cfg))\<rparr>)))"
  using assms
  by (auto simp: workerRun_def NewRedisRepository_def Let_def split: prod.splits result.splits option.splits)

text \<open>The pool the server runs with has one worker.\<close>

lemma serverRun_pool:
  assumes "serverRun newClient numCPU uuids cfg instID r = (cs, w)" and "0 < c_MinWorkers (WorkerCfg (Processor cfg))"
  shows "running_pool cs = snd (pool_Start uuids (NewWorkerPool ((DefaultWorkerPoolOptions numCPU)
    \<lparr>MinWorkers := 1, MaxWorkers := 2, EnableAutoScale := False\<rparr>)))"
  using assms by (auto simp: serverRun_def running_pool_def new_pool_def on_pool_def split: prod.splits)

lemma serverRun_one_worker:
  assumes "serverRun newClient numCPU uuids cfg instID r = (cs, w)" and "0 < c_MinWorkers (WorkerCfg (Processor cfg))"
  shows "worker_count (running_pool cs) = 1"
  unfolding serverRun_pool[OF assms] by (simp add: pool_Start_def NewWorkerPool_def)

lemma LoadConfig_valid: "LoadConfig v path = Ok cfg \<Longrightarrow> valid_config cfg"
  using Validate_cases[of cfg] by (auto simp: LoadConfig_def split: option.splits sum.splits result.splits if_splits)

text \<open>A viper that finds neither a file nor an environment, and a Redis client for every address.\<close>

definition sample_viper :: viper where
  "sample_viper = \<lparr>ReadInConfig = (\<lambda>_. None), Unmarshal = (\<lambda>dflt _. Inr dflt)\<rparr>"

lemma sample_viper_load: "LoadConfig sample_viper '''' = Ok setDefaults"
  by (simp add: LoadConfig_def sample_viper_def) (simp add: Validate_def setDefaults_def Let_def)

definition sample_uuids :: "nat \<Rightarrow> string" where "sample_uuids n = replicate n CHR ''a''"

lemma inj_sample_uuids: "inj sample_uuids"
  by (rule injI) (metis length_replicate sample_uuids_def)

definition sample_redis :: ref_state where
  "sample_redis = \<lparr>ref_kv = [], ref_zs = (\<lambda>k. if k = ads_queue then [(''a'', 3), (''b'', 1)] else [])\<rparr>"

lemma sample_workerRun: "\<exists>p. workerRun (\<lambda>_. ref_client) 4 sample_uuids setDefaults ''worker-1'' sample_redis =
    (Ok p, \<lparr>repo = NewMemoryRepository, rds = sample_redis\<rparr>)"
  by (simp add: workerRun_def NewRedisRepository_def ref_client_def Let_def)

text \<open>The worker process on an accepted configuration.  If its identifiers are distinct and Redis answers,
  the process starts with an open queue on an empty repository and with as many workers as the
  configuration's minimum, each running a loop for every processor; and whatever is later added,
  removed or scaled, the number of workers stays between the configured bounds.\<close>

theorem worker_process_bounded:
  assumes "LoadConfig v path = Ok cfg" and "inj uuids"
    and "workerRun newClient numCPU uuids cfg instID r = (Ok p, w)"
    and "\<forall>op \<in> set ops. \<forall>i ord. op \<noteq> PTick Panic i ord"
  shows "\<not> closed (wp_queue p) \<and> ads (repo w) = []
    \<and> MaxAttempts (options (wp_queue p)) \<ge> 1 \<and> MaxCapacity (options (wp_queue p)) \<ge> 0
    \<and> worker_count (wp_pool p) = c_MinWorkers (WorkerCfg (Processor cfg))
    \<and> (\<forall>(k, wk) \<in> set (workers (wp_pool p)). isRunning wk \<and> launched wk = nat numCPU)
    \<and> (let wp' = fold (\<lambda>op wp. snd (pool_step op wp)) ops (wp_pool p)
       in c_MinWorkers (WorkerCfg (Processor cfg)) \<le> worker_count wp'
        \<and> worker_count wp' \<le> c_MaxWorkers (WorkerCfg (Processor cfg)))"
proof -
  let ?wc = "WorkerCfg (Processor cfg)"
  let ?opts = "(DefaultWorkerPoolOptions numCPU)\<lparr>MinWorkers := c_MinWorkers ?wc, MaxWorkers := c_MaxWorkers ?wc,
    EnableAutoScale := c_EnableAutoScale ?wc, TargetQueueSize := c_TargetQueueSize ?wc\<rparr>"
  note V = valid_configD[OF LoadConfig_valid[OF assms(1)]]
  obtain rr where p: "wp_queue p = NewDistributedPriorityQueue (RedisCache rr) instID (queue_options cfg)"
    "repo w = NewMemoryRepository" "wp_pool p = snd (pool_Start uuids (NewWorkerPool ?opts))"
    using workerRun_result[OF assms(3)] by metis
  have b: "0 \<le> MinWorkers ?opts" "MinWorkers ?opts \<le> MaxWorkers ?opts" using V by simp_all
  note S = pool_Start_bounded[OF assms(2) b]
  note R = pool_run_bounded[OF S(2,3) refl, of ops]
  have L: "\<forall>(k, wk) \<in> set (workers (wp_pool p)). isRunning wk \<and> launched wk = nat numCPU"
    using pool_Start_workers[of uuids ?opts] unfolding p(3)
    by (simp add: DefaultWorkerPoolOptions_def DefaultWorkerOptions_def)
  have B: "let wp' = fold (\<lambda>op wp. snd (pool_step op wp)) ops (wp_pool p)
      in c_MinWorkers ?wc \<le> worker_count wp' \<and> worker_count wp' \<le> c_MaxWorkers ?wc"
    using R S(5,6) unfolding p(3) Let_def pool_bounded_def by simp
  have Q: "\<not> closed (wp_queue p) \<and> MaxAttempts (options (wp_queue p)) \<ge> 1 \<and> MaxCapacity (options (wp_queue p)) \<ge> 0"
    using V by (simp add: p(1) NewDistributedPriorityQueue_def queue_options_def)
  show ?thesis using Q L B S(4) p(2) by (simp add: p(3) NewMemoryRepository_def)
qed

theorem worker_process_bounded_witness:
  "\<exists>p w. workerRun (\<lambda>_. ref_client) 4 sample_uuids setDefaults ''worker-1'' sample_redis = (Ok p, w)
    \<and> worker_count (wp_pool p) = 2
    \<and> worker_count (fold (\<lambda>op wp. snd (pool_step op wp)) [PAdd ''x'', PTick (Ok 500) ''y'' []] (wp_pool p)) \<le> 10"
proof -
  obtain p w where p: "workerRun (\<lambda>_. ref_client) 4 sample_uuids setDefaults ''worker-1'' sample_redis = (Ok p, w)"
    using sample_workerRun by blast
  have d: "c_MinWorkers (WorkerCfg (Processor setDefaults)) = 2" "c_MaxWorkers (WorkerCfg (Processor setDefaults)) = 10"
    by (simp_all add: setDefaults_def)
  have "\<forall>op \<in> set [PAdd ''x'', PTick (Ok 500) ''y'' []]. \<forall>i ord. op \<noteq> PTick Panic i ord" by simp
  from worker_process_bounded[OF sample_viper_load inj_sample_uuids p this] p show ?thesis
    unfolding d Let_def by blast
qed

text \<open>The two pools of the server: the service's, as it was made, and the one that runs.\<close>

lemma serverRun_pools:
  assumes "serverRun newClient numCPU uuids cfg instID r = (cs, w)" and "0 < c_MinWorkers (WorkerCfg (Processor cfg))"
  shows "svc_pool (adService cs) = Some 0" and "workerPool cs = 1" and "length (pools cs) = 2"
    and "pools cs ! 0 = NewWorkerPool \<lparr>WorkerOptions = \<lparr>MaxConcurrent = c_MaxConcurrentJobs (WorkerCfg (Processor cfg)),
      ProcessTimeAvg = 2 * nsSecond\<rparr>, MinWorkers = c_MinWorkers (WorkerCfg (Processor cfg)),
      MaxWorkers = c_MaxWorkers (WorkerCfg (Processor cfg)), EnableAutoScale = c_EnableAutoScale (WorkerCfg (Processor cfg)),
      TargetQueueSize = c_TargetQueueSize (WorkerCfg (Processor cfg))\<rparr>"
  using assms
  by (auto simp: serverRun_def initializeComponents_def Let_def NewAdService_def new_pool_def on_pool_def
      split: prod.splits)

text \<open>C38. The server's statistics never show a worker.  On every accepted configuration the server starts one
  worker in a pool that replaces the components' pool but not the service's: the service still points
  to the first pool.  Whatever the running pool becomes later (each change goes through the
  components' pointer), the statistics of the service are those of the first pool, which is never
  started: no worker, nothing processed.  Through the components' pointer the same statistics would
  show the one worker.  That first pool would be of no use either under the default configuration:
  each of its workers would run no loop at all, because the number of jobs 0 is passed on as it is.\<close>

theorem server_stats_show_no_worker:
  assumes "LoadConfig v path = Ok cfg" and "serverRun newClient numCPU uuids cfg instID r = (cs, w)"
  shows "worker_count (running_pool cs) = 1
    \<and> (\<exists>s. GetStats ((pools cs)[workerPool cs := later]) (adService cs) now w' = Ok s
        \<and> ss_workers s = Some \<lparr>ps_workerCount = 0,
            ps_totalProcessed = 0, ps_totalErrors = 0, ps_totalActive = 0, ps_workers = []\<rparr>)
    \<and> (\<exists>s. GetStats (pools cs) ((adService cs)\<lparr>svc_pool := Some (workerPool cs)\<rparr>) now w' = Ok s
        \<and> map_option ps_workerCount (ss_workers s) = Some 1)
    \<and> (\<exists>p. svc_pool (adService cs) = Some p \<and> p < length (pools cs)
        \<and> (\<forall>(k, wk) \<in> set (workers (snd (pool_Start uuids' (pools cs ! p)))).
             launched wk = nat (c_MaxConcurrentJobs (WorkerCfg (Processor cfg)))))
    \<and> c_MaxConcurrentJobs (WorkerCfg (Processor setDefaults)) = 0"
proof -
  let ?wc = "WorkerCfg (Processor cfg)"
  have m: "0 < c_MinWorkers ?wc" using valid_configD(1)[OF LoadConfig_valid[OF assms(1)]] by simp
  note P = serverRun_pools[OF assms(2) m]
  note one = serverRun_one_worker[OF assms(2) m]
  have s: "pool_GetStats (pools cs ! 0) = \<lparr>ps_workerCount = 0, ps_totalProcessed = 0, ps_totalErrors = 0,
      ps_totalActive = 0, ps_workers = []\<rparr>"
    by (simp add: P(4) pool_GetStats_def NewWorkerPool_def)
  have g: "\<exists>s. GetStats ((pools cs)[workerPool cs := later]) (adService cs) now w' = Ok s
      \<and> ss_workers s = Some \<lparr>ps_workerCount = 0,
          ps_totalProcessed = 0, ps_totalErrors = 0, ps_totalActive = 0, ps_workers = []\<rparr>"
    by (simp add: GetStats_def P(1,2) s)
  have one': "\<exists>s. GetStats (pools cs) ((adService cs)\<lparr>svc_pool := Some (workerPool cs)\<rparr>) now w' = Ok s
      \<and> map_option ps_workerCount (ss_workers s) = Some 1"
    using one by (simp add: GetStats_def running_pool_def pool_GetStats_def Let_def)
  have l: "\<forall>(k, wk) \<in> set (workers (snd (pool_Start uuids' (pools cs ! 0)))). launched wk = nat (c_MaxConcurrentJobs ?wc)"
    unfolding P(4) using pool_Start_workers by fastforce
  have "c_MaxConcurrentJobs (WorkerCfg (Processor setDefaults)) = 0" by (simp add: setDefaults_def)
  then show ?thesis using one g one' l P(1,3) by simp
qed

theorem server_stats_show_no_worker_witness:
  "\<exists>cs w s. serverRun (\<lambda>_. ref_client) 4 sample_uuids setDefaults ''api-1'' sample_redis = (cs, w)
    \<and> worker_count (running_pool cs) = 1 \<and> GetStats (pools cs) (adService cs) 99 w = Ok s
    \<and> map_option ps_workerCount (ss_workers s) = Some 0"
proof -
  obtain cs w where r: "serverRun (\<lambda>_. ref_client) 4 sample_uuids setDefaults ''api-1'' sample_redis = (cs, w)"
    by (cases "serverRun (\<lambda>_. ref_client) 4 sample_uuids setDefaults ''api-1'' sample_redis")
  have h: "(pools cs)[workerPool cs := running_pool cs] = pools cs" by (simp add: running_pool_def)
  from server_stats_show_no_worker[OF sample_viper_load r, where now = 99 and w' = w and uuids' = sample_uuids
      and later = "running_pool cs", unfolded h]
  show ?thesis using r by fastforce
qed

text \<open>C37. The worker process drops the queue's ads.  The process that the worker command starts shares the Redis
  queue with the server but not the ads: its first \<^verbatim>\<open>Dequeue\<close> takes every member out of the queue,
  processes none of them and reports an empty queue.\<close>

theorem worker_process_drops_queue:
  assumes "workerRun newClient numCPU uuids cfg instID r = (Ok p, w)"
    and "redis_documented (newClient (redis_options cfg)) kv zs"
    and "finite (dom (zs (rds w) ads_queue))" and "zs (rds w) ads_queue '''' = None"
  shows "\<exists>w'. Dequeue (Suc (card (dom (zs (rds w) ads_queue)))) (wp_queue p) env w = Some (Err ErrQueueEmpty, w')
    \<and> zs (rds w') ads_queue = Map.empty \<and> repo w' = repo w"
proof -
  obtain rr where p: "wp_queue p = NewDistributedPriorityQueue (RedisCache rr) instID (queue_options cfg)"
    "client rr = newClient (redis_options cfg)" "repo w = NewMemoryRepository"
    using workerRun_result[OF assms(1)] by metis
  have q: "cacheRepo (wp_queue p) = RedisCache rr" "\<not> closed (wp_queue p)"
    by (simp_all add: p(1) NewDistributedPriorityQueue_def)
  have d: "redis_documented (client rr) kv zs" using assms(2) p(2) by simp
  have e: "ads (repo w) = []" by (simp add: p(3) NewMemoryRepository_def)
  show ?thesis by (rule empty_repository_drains_redis[OF q d e assms(4,3) refl])
qed

theorem worker_process_drops_queue_witness:
  "\<exists>p w w'. workerRun (\<lambda>_. ref_client) 4 sample_uuids setDefaults ''worker-1'' sample_redis = (Ok p, w)
    \<and> Dequeue 3 (wp_queue p) (\<lambda>_. \<lparr>e_now = 60, e_pop = [], e_find = []\<rparr>) w = Some (Err ErrQueueEmpty, w')
    \<and> map_of (ref_zs (rds w') ads_queue) = Map.empty"
proof -
  obtain p where p: "workerRun (\<lambda>_. ref_client) 4 sample_uuids setDefaults ''worker-1'' sample_redis =
      (Ok p, \<lparr>repo = NewMemoryRepository, rds = sample_redis\<rparr>)" using sample_workerRun by blast
  let ?w = "\<lparr>repo = NewMemoryRepository, rds = sample_redis\<rparr>"
  have d: "dom (map_of (ref_zs (rds ?w) ads_queue)) = {''a'', ''b''}" by (auto simp: sample_redis_def)
  have f: "finite (dom (map_of (ref_zs (rds ?w) ads_queue)))" "map_of (ref_zs (rds ?w) ads_queue) '''' = None"
    by (simp_all add: finite_dom_map_of) (simp add: sample_redis_def)
  have c: "card {''a'', ''b''} = 2" by simp
  from worker_process_drops_queue[OF p ref_client_documented f, unfolded d c,
      where env = "\<lambda>_. \<lparr>e_now = 60, e_pop = [], e_find = []\<rparr>"]
  obtain w' where "Dequeue (Suc 2) (wp_queue p) (\<lambda>_. \<lparr>e_now = 60, e_pop = [], e_find = []\<rparr>) ?w = Some (Err ErrQueueEmpty, w')"
    "map_of (ref_zs (rds w') ads_queue) = Map.empty" by blast
  moreover have "Suc 2 = (3 :: nat)" by simp
  ultimately show ?thesis using p by metis
qed

end
