(* ===== verification/End_To_End.thy ===== *)
theory End_To_End
  imports Service_Config
begin

text \<open>
  The components together: the server that \<^verbatim>\<open>serverRun\<close> builds takes submissions through its service,
  one of the workers it has started runs its loop, and the service is asked for the ads.
\<close>

section \<open>A series of submissions\<close>

text \<open>A submission: the fresh identifier, the clock at saving and at enqueuing, and the ad.\<close>

type_synonym submission = "string \<times> instant \<times> instant \<times> Ad"

definition submit :: "'r AdService \<Rightarrow> submission \<Rightarrow> 'r world \<Rightarrow> 'r world" where
  "submit svc = (\<lambda>(u, now, now', ad) w. snd (SubmitAd svc u now now' (Some ad) w))"

definition new_submissions :: "MemoryRepository \<Rightarrow> submission list \<Rightarrow> bool" where
  "new_submissions m subs \<longleftrightarrow> distinct (map fst subs)
     \<and> (\<forall>(u, now, now', ad) \<in> set subs. u \<noteq> '''' \<and> AdID ad = '''' \<and> lookup_ad m u = None)"

definition has_room :: "'r DistributedPriorityQueue \<Rightarrow> int \<Rightarrow> bool" where
  "has_room q n \<longleftrightarrow> MaxCapacity (options q) \<le> 0 \<or> n \<le> MaxCapacity (options q)"

text \<open>One submission into an open queue with room.\<close>

lemma submit_queues:
  assumes "\<not> closed (svc_queue svc)" and "has_room (svc_queue svc) (int (card (queued_ids (repo w))) + 1)"
    and wf: "store_wf (repo w)" and u: "u \<noteq> ''''" "AdID ad = ''''" "lookup_ad (repo w) u = None"
  obtains b where "lookup_ad (repo (submit svc (u, now, now', ad) w)) = (lookup_ad (repo w))(u \<mapsto> b)"
    "Status b = StatusQueued" "AdSubmission.truncate b = AdSubmission.truncate ad"
    "store_wf (repo (submit svc (u, now, now', ad) w))"
    "locks (repo (submit svc (u, now, now', ad) w)) = locks (repo w)"
proof -
  let ?a = "submitted u now ad" and ?q = "svc_queue svc"
  let ?w = "w\<lparr>repo := put_ad (AdID ?a) ?a (repo w)\<rparr>"
  have i: "AdID ?a = u" "Status ?a = StatusSubmitted" using u(2) by (simp_all add: submitted_def)
  have t: "AdSubmission.truncate ?a = AdSubmission.truncate ad" by (simp add: submitted_def AdSubmission.defs)
  have wf': "store_wf (repo ?w)" using store_wf_put[OF wf, of ?a u] i(1) u(1) by simp
  have "queued_ids (repo ?w) = queued_ids (repo w)" using u(3) i by (auto simp: queued_ids_def)
  then have n: "status_count StatusQueued (repo ?w) = int (card (queued_ids (repo w)))"
    using status_count_card[OF wf'] by simp
  have ok: "enqueue_result ?q ?a (repo ?w) = Ok ()"
    using assms(1,2) n by (auto simp: enqueue_result_def has_room_def)
  have "AdID ?a \<noteq> ''''" using i u(1) by simp
  note C = Enqueue_cases[OF this, where q = ?q and now = now' and w = ?w]
  have S: "submit svc (u, now, now', ad) w = snd (snd (Enqueue ?q now' ?a ?w))"
    unfolding submit_def prod.case SubmitAd_some[OF u(1) refl]
    by (simp split: prod.split result.split)
  have "store_wf (repo (submit svc (u, now, now', ad) w))"
    unfolding S using filed.Enqueue_keeps[where w = ?w and ad = ?a and q = ?q and now = now'] wf' by simp
  moreover have "AdSubmission.truncate (enqueued now' ?a) = AdSubmission.truncate ad"
    using t by (simp add: enqueued_def SetStatus_def bump_version_def AdSubmission.defs)
  ultimately show thesis
    using that[of "enqueued now' ?a"] C(3,4)[OF ok] i(1) S by (simp add: fun_eq_iff)
qed

lemma queued_ids_upd:
  assumes "lookup_ad m' = (lookup_ad m)(u \<mapsto> b)" and "Status b = StatusQueued"
  shows "queued_ids m' = insert u (queued_ids m)"
  using assms by (auto simp: queued_ids_def fun_eq_iff split: if_splits)

text \<open>A series of submissions: all of them are queued, and everything else is as before.\<close>

lemma submissions_queue:
  assumes "\<not> closed (svc_queue svc)"
  shows "store_wf (repo w) \<Longrightarrow> locks (repo w) = Map.empty \<Longrightarrow> new_submissions (repo w) subs \<Longrightarrow>
    has_room (svc_queue svc) (int (card (queued_ids (repo w)) + length subs)) \<Longrightarrow>
    store_wf (repo (fold (submit svc) subs w)) \<and> locks (repo (fold (submit svc) subs w)) = Map.empty
    \<and> queued_ids (repo (fold (submit svc) subs w)) = queued_ids (repo w) \<union> fst ` set subs
    \<and> (\<forall>(u, now, now', ad) \<in> set subs. \<exists>b. lookup_ad (repo (fold (submit svc) subs w)) u = Some b
         \<and> AdSubmission.truncate b = AdSubmission.truncate ad)
    \<and> (\<forall>k. k \<notin> fst ` set subs \<longrightarrow> lookup_ad (repo (fold (submit svc) subs w)) k = lookup_ad (repo w) k)"
proof (induction subs arbitrary: w)
  case (Cons s subs)
  obtain u now now' ad where s: "s = (u, now, now', ad)" by (cases s) auto
  have u: "u \<noteq> ''''" "AdID ad = ''''" "lookup_ad (repo w) u = None"
    and d: "u \<notin> fst ` set subs" and rest: "new_submissions (repo w) subs"
    using Cons.prems(3) by (auto simp: new_submissions_def s)
  let ?n = "card (queued_ids (repo w))"
  have "has_room (svc_queue svc) (int ?n + 1)" using Cons.prems(4) by (auto simp: has_room_def)
  from submit_queues[OF assms this Cons.prems(1) u, where now = now and now' = now']
  obtain b where 1: "lookup_ad (repo (submit svc s w)) = (lookup_ad (repo w))(u \<mapsto> b)"
    "Status b = StatusQueued" "AdSubmission.truncate b = AdSubmission.truncate ad"
    "store_wf (repo (submit svc s w))" "locks (repo (submit svc s w)) = Map.empty"
    using Cons.prems(2) unfolding s by metis
  have q: "queued_ids (repo (submit svc s w)) = insert u (queued_ids (repo w))" by (rule queued_ids_upd[OF 1(1,2)])
  have "u \<notin> queued_ids (repo w)" using u(3) by (simp add: queued_ids_def)
  then have room: "has_room (svc_queue svc) (int (card (queued_ids (repo (submit svc s w))) + length subs))"
    using Cons.prems(4) by (simp add: q add.commute add.left_commute)
  have new: "new_submissions (repo (submit svc s w)) subs"
    using rest d unfolding new_submissions_def 1(1) by (force simp: image_iff)
  note IH = Cons.IH[OF 1(4,5) new room]
  have "\<exists>b. lookup_ad (repo (fold (submit svc) (s # subs) w)) u = Some b
      \<and> AdSubmission.truncate b = AdSubmission.truncate ad"
    using IH d 1(1,3) by simp
  then show ?case using IH q 1(1) by (simp add: s)
qed simp

section \<open>The server with the memory cache\<close>

lemma serverRun_memory:
  assumes "serverRun newClient numCPU uuids cfg instID r = (cs, w)" and "CacheType (Storage cfg) \<noteq> ''redis''"
  shows "svc_cache (adService cs) = MemoryCache" "svc_queue (adService cs) = queue cs"
    "cacheRepo (queue cs) = MemoryCache" "\<not> closed (queue cs)"
    "MaxCapacity (options (queue cs)) = QueueCapacity (Processor cfg)" "repo w = NewMemoryRepository"
  using assms
  by (auto simp: serverRun_def initializeComponents_def Let_def NewAdService_def NewDistributedPriorityQueue_def
      queue_options_def split: prod.splits option.splits if_splits)

lemma serverRun_workers:
  assumes "serverRun newClient numCPU uuids cfg instID r = (cs, w)" and "0 < c_MinWorkers (WorkerCfg (Processor cfg))"
    and "(k, wk) \<in> set (workers (running_pool cs))"
  shows "processed wk = 0 \<and> activeJobs wk = 0 \<and> w_errors wk = 0"
  using assms(3) pool_Start_fresh unfolding serverRun_pool[OF assms(1,2)] by fastforce

lemma truncate_worked [simp]:
  "AdSubmission.truncate (completed t an a) = AdSubmission.truncate a"
  "AdSubmission.truncate (dequeued i t a) = AdSubmission.truncate a"
  by (simp_all add: completed_def dequeued_def SetAnalysisResults_def set_status_bump_def bump_version_def
      IncrementAttempts_def AssignWorker_def AdSubmission.defs SetStatus_def Let_def)

text \<open>C3. From submission to result.  On an accepted configuration without the Redis cache, the server that has just
  started takes any series of new ads that fits the queue; then one of the workers it has started,
  which runs undisturbed for as many iterations as there are ads, processes each of them: the queue is
  empty, the worker has counted every ad and no error, and for every submitted ad the service
  answers with exactly the submitted content, completed and with an analysis.\<close>

theorem submissions_are_completed:
  assumes "LoadConfig v path = Ok cfg" and "CacheType (Storage cfg) \<noteq> ''redis''"
    and "serverRun newClient numCPU uuids cfg instID r = (cs, w)" and "(k, wk) \<in> set (workers (running_pool cs))"
    and "new_submissions (repo w) subs"
    and "QueueCapacity (Processor cfg) = 0 \<or> int (length subs) \<le> QueueCapacity (Processor cfg)"
    and "length es = length subs" and "\<forall>e \<in> set es. smooth e" and "int (length subs) < 2 ^ 63"
  shows "\<exists>wk' w'. processLoop (queue cs) (analyzer cs) es wk (fold (submit (adService cs)) subs w) = (Running, wk', w')
    \<and> processed wk' = int (length subs) \<and> w_errors wk' = 0 \<and> queued_ids (repo w') = {}
    \<and> (\<forall>(u, now, now', ad) \<in> set subs. \<exists>c. GetAd (adService cs) u w' = (Ok (MapAdToAdDTO c), w')
         \<and> AdSubmission.truncate c = AdSubmission.truncate ad \<and> Status c = StatusCompleted \<and> Analysis c \<noteq> None)"
proof -
  note V = valid_configD[OF LoadConfig_valid[OF assms(1)]]
  note R = serverRun_memory[OF assms(3,2)]
  have wk: "processed wk = 0" "activeJobs wk = 0" "w_errors wk = 0"
    using serverRun_workers[OF assms(3) _ assms(4)] V(1) by simp_all
  let ?w = "fold (submit (adService cs)) subs w" and ?ids = "fst ` set subs"
  have e: "queued_ids (repo w) = {}" by (simp add: R(6) queued_ids_def NewMemoryRepository_def)
  have room: "has_room (svc_queue (adService cs)) (int (card (queued_ids (repo w)) + length subs))"
    using assms(6) V(3) by (auto simp: has_room_def R(2,5) e)
  have h: "store_wf (repo w)" "locks (repo w) = Map.empty" by (simp_all add: R(6)) (simp add: NewMemoryRepository_def)
  have o: "\<not> closed (svc_queue (adService cs))" using R(2,4) by simp
  note Q = submissions_queue[OF o h assms(5) room]
  have S: "store_wf (repo ?w)" "locks (repo ?w) = Map.empty" "queued_ids (repo ?w) = ?ids"
    "\<forall>(u, now, now', ad) \<in> set subs. \<exists>b. lookup_ad (repo ?w) u = Some b \<and> AdSubmission.truncate b = AdSubmission.truncate ad"
    using Q e by simp_all
  have c: "card (queued_ids (repo ?w)) = length es"
    using assms(5,7) distinct_card[of "map fst subs"] by (simp add: S(3) new_submissions_def)
  from loop_completes_all[OF R(3,4) S(1,2) c assms(8), of wk "analyzer cs"] wk(2) obtain w' where
    L: "processLoop (queue cs) (analyzer cs) es wk ?w = (Running, (add_processed ^^ length es) wk, w')"
      "queued_ids (repo w') = {}"
    and D: "\<forall>k. if k \<in> queued_ids (repo ?w)
           then \<exists>b an t. lookup_ad (repo ?w) k = Some b
             \<and> lookup_ad (repo w') k = Some (completed t an (dequeued (instanceID (queue cs)) 0 b))
           else lookup_ad (repo w') k = lookup_ad (repo ?w) k" by auto
  have "\<exists>c. GetAd (adService cs) u w' = (Ok (MapAdToAdDTO c), w')
      \<and> AdSubmission.truncate c = AdSubmission.truncate ad \<and> Status c = StatusCompleted \<and> Analysis c \<noteq> None"
    if m: "(u, now, now', ad) \<in> set subs" for u now now' ad
  proof -
    obtain b where b: "lookup_ad (repo ?w) u = Some b" "AdSubmission.truncate b = AdSubmission.truncate ad"
      using S(4) m by auto
    have "u \<in> queued_ids (repo ?w)" using m by (force simp: S(3))
    then obtain an t where "lookup_ad (repo w') u = Some (completed t an (dequeued (instanceID (queue cs)) 0 b))"
      using D[rule_format, of u] b(1) by auto
    moreover have "u \<noteq> ''''" using assms(5) m by (auto simp: new_submissions_def)
    ultimately have "GetAd (adService cs) u w' = (Ok (MapAdToAdDTO (completed t an (dequeued (instanceID (queue cs)) 0 b))), w')"
      by (simp add: GetAd_def store_eval R(1))
    with b(2) show ?thesis
      by (intro exI[of _ "completed t an (dequeued (instanceID (queue cs)) 0 b)"]) simp
  qed
  with L processed_count[of wk "length es"] processed_funpow[of "length es" wk] wk assms(7,9) show ?thesis
    by (intro exI[of _ "(add_processed ^^ length es) wk"] exI[of _ w'] conjI) auto
qed

text \<open>Two ads on the default configuration.\<close>

definition sample_submissions :: "submission list" where
  "sample_submissions = [(''x'', 1, 2, sample_ad '''' 3 0 StatusSubmitted), (''y'', 5, 6, sample_ad '''' 1 0 StatusSubmitted)]"

theorem submissions_are_completed_witness:
  "\<exists>cs w k wk wk' w'. serverRun (\<lambda>_. ref_client) 4 sample_uuids setDefaults ''api-1'' sample_redis = (cs, w)
     \<and> (k, wk) \<in> set (workers (running_pool cs))
     \<and> processLoop (queue cs) (analyzer cs) [sample_iteration, sample_iteration] wk
            (fold (submit (adService cs)) sample_submissions w) = (Running, wk', w') \<and> processed wk' = 2"
proof -
  obtain cs w where r: "serverRun (\<lambda>_. ref_client) 4 sample_uuids setDefaults ''api-1'' sample_redis = (cs, w)"
    by fastforce
  have m: "CacheType (Storage setDefaults) \<noteq> ''redis''" "0 < c_MinWorkers (WorkerCfg (Processor setDefaults))"
    "int (length sample_submissions) \<le> QueueCapacity (Processor setDefaults)"
    by (simp_all add: setDefaults_def sample_submissions_def)
  obtain k wk where wk: "(k, wk) \<in> set (workers (running_pool cs))"
    using serverRun_one_worker[OF r m(2)] by (cases "workers (running_pool cs)") auto
  have "repo w = NewMemoryRepository" by (rule serverRun_memory(6)[OF r m(1)])
  then have n: "new_submissions (repo w) sample_submissions"
    by (simp add: new_submissions_def sample_submissions_def NewMemoryRepository_def)
  have s: "length [sample_iteration, sample_iteration] = length sample_submissions"
    "\<forall>e \<in> set [sample_iteration, sample_iteration]. smooth e" "int (length sample_submissions) < 2 ^ 63"
    by (simp_all add: sample_submissions_def smooth_def sample_iteration_def)
  from submissions_are_completed[OF sample_viper_load m(1) r wk n disjI2[OF m(3)] s] r wk
  show ?thesis unfolding s(1)[symmetric] by fastforce
qed

end
