(* ===== verification/Shared_Redis.thy ===== *)
theory Shared_Redis
  imports End_To_End
begin

text \<open>
  The server with Redis, while other processes use the same Redis queue.  The worker command starts
  a process that shares the queue but not the ads and throws away whatever it pops
  (\<open>worker_process_drops_queue\<close>); here such a process may do anything to the queue between two
  iterations of a worker of the server.  The locale states what the worker's loop needs of a queue,
  a claim whenever an ad is queued; it is interpreted for the memory cache and for Redis.
\<close>

section \<open>The interface of the worker to the queue\<close>

text \<open>Every lock is this instance's own: another instance has another repository.\<close>

definition own_locks :: "string \<Rightarrow> MemoryRepository \<Rightarrow> bool" where
  "own_locks i m \<longleftrightarrow> (\<forall>k l. locks m k = Some l \<longrightarrow> ownerID l = i)"

lemma own_locks_free: "own_locks i m \<Longrightarrow> lock_free now k i m"
  by (auto simp: own_locks_def lock_free_def split: option.splits)

lemma own_locks_upd:
  "own_locks i m \<Longrightarrow> locks m' = (locks m)(k := None) \<Longrightarrow> own_locks i m'"
  "own_locks i m \<Longrightarrow> own_locks i (take_lock now k i ttl m)"
  "own_locks i m \<Longrightarrow> own_locks i (snd (ReleaseLock k j m))"
  by (auto simp: own_locks_def ReleaseLock_locks split: if_splits)

lemma own_locks_cong: "locks m' = locks m \<Longrightarrow> own_locks i m' = own_locks i m"
  by (simp add: own_locks_def)

text \<open>A claim: the call returns an ad that was queued, as the repository now stores it.\<close>

definition claim :: "'r DistributedPriorityQueue \<Rightarrow> 'r world \<Rightarrow> Ad result \<times> 'r world \<Rightarrow> bool" where
  "claim q w c \<longleftrightarrow> (\<exists>b w'. c = (Ok (dequeued (instanceID q) 0 b), w')
     \<and> lookup_ad (repo w) (AdID b) = Some b \<and> Status b = StatusQueued
     \<and> lookup_ad (repo w') = (lookup_ad (repo w))(AdID b \<mapsto> dequeued (instanceID q) 0 b)
     \<and> own_locks (instanceID q) (repo w'))"

lemma claim_cong: "ads (repo w1) = ads (repo w) \<Longrightarrow> claim q w1 c = claim q w c"
  by (simp add: claim_def)

lemma claim_release: "claim q w c \<Longrightarrow> claim q w (map_prod id (\<lambda>w. w\<lparr>repo := snd (ReleaseLock i j (repo w))\<rparr>) c)"
proof -
  assume "claim q w c"
  then obtain b w' where "c = (Ok (dequeued (instanceID q) 0 b), w')" "lookup_ad (repo w) (AdID b) = Some b"
    "Status b = StatusQueued" "lookup_ad (repo w') = (lookup_ad (repo w))(AdID b \<mapsto> dequeued (instanceID q) 0 b)"
    "own_locks (instanceID q) (repo w')" by (auto simp: claim_def)
  moreover from this have "own_locks (instanceID q) (snd (ReleaseLock i j (repo w')))" by (intro own_locks_upd(3))
  ultimately show ?thesis
    unfolding claim_def
    by (intro exI[of _ b] exI[of _ "w'\<lparr>repo := snd (ReleaseLock i j (repo w'))\<rparr>"] conjI) simp_all
qed

locale claiming_queue =
  fixes q :: "'r DistributedPriorityQueue" and ready :: "iter_env \<Rightarrow> 'r world \<Rightarrow> bool"
  assumes claims: "ready e w \<Longrightarrow> store_wf (repo w) \<Longrightarrow> own_locks (instanceID q) (repo w) \<Longrightarrow>
    queued_ids (repo w) \<noteq> {} \<Longrightarrow>
    \<exists>c. Dequeue (i_fuel e) q (i_rounds e) w = Some c \<and> claim q w c"

lemma dequeued_time: "dequeued i t b = dequeued i 0 b"
  by (simp add: dequeued_def set_status_bump_def Let_def)

section \<open>A claim from Redis\<close>

text \<open>With its own repository a process never loses an ad: what others took out of the queue, the
  repository's query still finds.\<close>

lemma dequeue_slow_claims:
  assumes wf: "store_wf (repo w)" and own: "own_locks (instanceID q) (repo w)" and ne: "queued_ids (repo w) \<noteq> {}"
  shows "claim q w (dequeue_slow q e w)"
proof -
  let ?ys = "sort_slice by_priority (ads_with_status (e_find e) StatusQueued (repo w))"
  obtain k c where "lookup_ad (repo w) k = Some c" "Status c = StatusQueued" using ne by (auto simp: queued_ids_def)
  then have "c \<in> set ?ys" by (simp add: lookup_in_status)
  then obtain b rest where ys: "?ys = b # rest" by (cases ?ys) auto
  have "b \<in> set (ads_with_status (e_find e) StatusQueued (repo w))" using ys by (metis list.set_intros(1) set_sort_slice)
  then have "b \<in> snd ` set (ads (repo w))" and s: "Status b = StatusQueued" by (auto simp: set_ads_with_status)
  then have b: "lookup_ad (repo w) (AdID b) = Some b" using store_wf_stored[OF wf] by simp
  have i: "AdID b \<noteq> ''''" using store_wf_lookup[OF wf b] by simp
  have F: "FindByPriority (e_find e) StatusQueued 1 (repo w) = Ok [b]" by (simp add: FindByPriority_1 ys)
  note free = own_locks_free[OF own, of "e_now e" "AdID b"]
  let ?d = "dequeued (instanceID q) (e_now e) b"
  let ?m = "put_ad (AdID b) ?d (change_ad (AdID b) (set_status_bump (e_now e) StatusProcessing)
    (take_lock (e_now e) (AdID b) (instanceID q) (LockTTL (options q)) (repo w)))"
  have "own_locks (instanceID q) ?m"
    using own_locks_upd(2)[OF own, of "e_now e" "AdID b" "LockTTL (options q)"] by (simp add: own_locks_def)
  moreover have "lookup_ad ?m = (lookup_ad (repo w))(AdID b \<mapsto> ?d)" by (simp add: fun_eq_iff)
  moreover have "dequeue_slow q e w = (Ok ?d, snd (cache_GetGauge (cacheRepo q) queue_count (w\<lparr>repo := ?m\<rparr>)))"
    using F b i s free
    by (simp add: dequeue_slow_def store_eval assign_claimed_ok dequeued_def Let_def)
  moreover have "repo (snd (cache_GetGauge (cacheRepo q) queue_count (w\<lparr>repo := ?m\<rparr>))) = ?m"
    by (cases "cacheRepo q") (simp_all add: on_repo_def on_redis_def mem_GetGauge_def split: prod.split)
  ultimately show ?thesis using b s unfolding dequeued_time[of _ "e_now e"] claim_def by metis
qed

text \<open>One popped identifier: a claim, or another round with the same ads and own locks.\<close>

lemma dequeue_fast_claims:
  assumes wf: "store_wf (repo w)" and own: "own_locks (instanceID q) (repo w)" and i: "i \<noteq> ''''"
    and att: "dequeue_fast q e i w = (att, w')"
  shows "own_locks (instanceID q) (repo w') \<and>
    ((\<exists>b. att = Return (Ok (dequeued (instanceID q) 0 b)) \<and> lookup_ad (repo w) (AdID b) = Some b
        \<and> Status b = StatusQueued
        \<and> lookup_ad (repo w') = (lookup_ad (repo w))(AdID b \<mapsto> dequeued (instanceID q) 0 b))
     \<or> (\<forall>r. att \<noteq> Return r) \<and> repo w' \<in> {repo w, take_lock (e_now e) i (instanceID q) (LockTTL (options q)) (repo w)})"
proof (cases "lookup_ad (repo w) i")
  case None
  with dequeue_fast_missing[OF None i] own att show ?thesis by auto
next
  case (Some a)
  have ai: "AdID a = i" using store_wf_lookup[OF wf Some] by simp
  note free = own_locks_free[OF own, of "e_now e" i]
  show ?thesis
  proof (cases "Status a = StatusQueued")
    case True
    from dequeue_fast_ok[OF Some ai i True free] att
    have f: "att = Return (Ok (dequeued (instanceID q) 0 a))"
      "lookup_ad (repo w') = (lookup_ad (repo w))(i \<mapsto> dequeued (instanceID q) 0 a)"
      "locks (repo w') = (locks (repo w))(i := None)"
      by (auto simp: dequeued_time[of _ "e_now e"])
    with own_locks_upd(1)[OF own f(3)] Some ai True show ?thesis by auto
  next
    case False
    let ?m = "take_lock (e_now e) i (instanceID q) (LockTTL (options q)) (repo w)"
    from False Some have "AtomicStatusUpdate (e_now e) i (Version a) StatusQueued StatusProcessing ?m =
        (Err ErrConcurrentModification, ?m)" by (simp add: AtomicStatusUpdate_def)
    with Some ai i free att own own_locks_upd(2)[OF own, of "e_now e" i "LockTTL (options q)"] show ?thesis
      by (auto simp: dequeue_fast_def store_eval Let_def split: if_splits)
  qed
qed

lemma Dequeue_redis_empty:
  assumes "cacheRepo q = RedisCache rr" and "\<not> closed q" and "redis_documented (client rr) kv zs"
    and "zs (rds w) ads_queue = Map.empty"
  shows "Dequeue (Suc n) q env w = Some (dequeue_slow q (env 0) w)"
  using redis_PopFromQueue_empty[OF assms(3,4)] assms(2) by (simp add: Dequeue_step assms(1) on_redis_def)

lemma Dequeue_redis_claims:
  assumes "cacheRepo q = RedisCache rr" and "\<not> closed q" and doc: "redis_documented (client rr) kv zs"
  shows "store_wf (repo w) \<Longrightarrow> own_locks (instanceID q) (repo w) \<Longrightarrow> queued_ids (repo w) \<noteq> {} \<Longrightarrow>
    finite (dom (zs (rds w) ads_queue)) \<Longrightarrow> card (dom (zs (rds w) ads_queue)) \<le> n \<Longrightarrow>
    \<exists>c. Dequeue (Suc n) q env w = Some c \<and> claim q w c"
proof (induction n arbitrary: w env)
  case 0
  then have e: "zs (rds w) ads_queue = Map.empty" by simp
  from dequeue_slow_claims[OF 0(1-3), of "env 0"] show ?case
    by (simp add: Dequeue_redis_empty[OF assms e])
next
  case (Suc n)
  show ?case
  proof (cases "zs (rds w) ads_queue = Map.empty")
    case True
    from dequeue_slow_claims[OF Suc.prems(1-3), of "env 0"] show ?thesis
      by (simp add: Dequeue_redis_empty[OF assms True])
  next
    case False
    from redis_PopFromQueue_some[OF doc False] obtain i x where
      i: "fst (redis_PopFromQueue rr ads_queue (rds w)) = Ok i" "zs (rds w) ads_queue i = Some x"
        "zs (snd (redis_PopFromQueue rr ads_queue (rds w))) = (zs (rds w))(ads_queue := (zs (rds w) ads_queue)(i := None))"
      by blast
    let ?w = "w\<lparr>rds := snd (redis_PopFromQueue rr ads_queue (rds w))\<rparr>"
    have pop: "cache_PopFromQueue (cacheRepo q) ord ads_queue w = (Ok i, ?w)" for ord
      using i(1) by (simp add: assms(1) on_redis_def case_prod_unfold)
    have "dom (zs (rds ?w) ads_queue) = dom (zs (rds w) ads_queue) - {i}" using i(3) by simp
    then have c: "finite (dom (zs (rds ?w) ads_queue))" "card (dom (zs (rds ?w) ads_queue)) \<le> n"
      using Suc.prems(4,5) i(2,3) by (auto simp: domIff)
    have h: "store_wf (repo ?w)" "own_locks (instanceID q) (repo ?w)" using Suc.prems(1,2) by simp_all
    obtain att w1 where att: "dequeue_fast q (env 0) i ?w = (att, w1)" by (cases "dequeue_fast q (env 0) i ?w")
    consider (nameless) "i = ''''" | (got) "i \<noteq> ''''" "\<exists>r. att = Return r" | (again) "i \<noteq> ''''" "\<forall>r. att \<noteq> Return r" by blast
    then show ?thesis
    proof cases
      case nameless
      from dequeue_slow_claims[OF h, of "env 0"] Suc.prems(3) have "claim q w (dequeue_slow q (env 0) ?w)"
        by (simp add: claim_cong[of ?w w])
      with nameless assms(2) show ?thesis by (simp add: Dequeue_step[of "Suc n"] pop)
    next
      case got
      note ni = got(1) and F = dequeue_fast_claims[OF h got(1) att]
      from F got(2) obtain b where "att = Return (Ok (dequeued (instanceID q) 0 b))"
        "claim q w (Ok (dequeued (instanceID q) 0 b), w1)" by (auto simp: claim_def)
      then show ?thesis using ni assms(2) by (simp add: Dequeue_step[of "Suc n"] pop att)
    next
      case again
      note ni = again(1) and F = dequeue_fast_claims[OF h again(1) att]
      have m: "ads (repo w1) = ads (repo w)" "own_locks (instanceID q) (repo w1)" and r: "rds w1 = rds ?w"
        using F again(2) dequeue_fast_retry_rds[OF att] by auto
      have "store_wf (repo w1)" "queued_ids (repo w1) \<noteq> {}"
        using Suc.prems(1,3) by (simp_all add: store_wf_def queued_ids_def m(1))
      from Suc.IH[OF this(1) m(2) this(2), of "env \<circ> Suc"] c obtain c' where
        c': "Dequeue (Suc n) q (env \<circ> Suc) w1 = Some c'" "claim q w c'"
        by (auto simp: r claim_cong[OF m(1)] simp del: comp_apply)
      show ?thesis
      proof (cases att)
        case (RetryThenRelease j)
        with c' ni assms(2) claim_release[OF c'(2), of j "instanceID q"] show ?thesis
          by (simp add: Dequeue_step[of "Suc n"] pop att map_prod_def)
      next
        case Retry
        with c' ni assms(2) show ?thesis by (simp add: Dequeue_step[of "Suc n"] pop att)
      qed (use again in blast)
    qed
  qed
qed

section \<open>The two queues meet the interface\<close>

definition redis_ready ::
  "'r DistributedPriorityQueue \<Rightarrow> 'r RedisRepository \<Rightarrow> ('r \<Rightarrow> string \<Rightarrow> payload option) \<Rightarrow>
   ('r \<Rightarrow> string \<Rightarrow> string \<Rightarrow> rat option) \<Rightarrow> iter_env \<Rightarrow> 'r world \<Rightarrow> bool" where
  "redis_ready q rr kv zs e w \<longleftrightarrow> cacheRepo q = RedisCache rr \<and> \<not> closed q \<and> redis_documented (client rr) kv zs
     \<and> finite (dom (zs (rds w) ads_queue)) \<and> card (dom (zs (rds w) ads_queue)) < i_fuel e"

interpretation shared_claims: claiming_queue q "redis_ready q rr kv zs" for q rr kv zs
proof
  fix e :: iter_env and w :: "'a world"
  assume r: "redis_ready q rr kv zs e w" and h: "store_wf (repo w)" "own_locks (instanceID q) (repo w)" "queued_ids (repo w) \<noteq> {}"
  from r obtain n where n: "i_fuel e = Suc n" "card (dom (zs (rds w) ads_queue)) \<le> n"
    by (cases "i_fuel e") (auto simp: redis_ready_def)
  from r have "cacheRepo q = RedisCache rr" "\<not> closed q" "redis_documented (client rr) kv zs"
    "finite (dom (zs (rds w) ads_queue))" by (simp_all add: redis_ready_def)
  from Dequeue_redis_claims[OF this(1-3) h this(4) n(2)]
  show "\<exists>c. Dequeue (i_fuel e) q (i_rounds e) w = Some c \<and> claim q w c" by (simp only: n(1))
qed

definition memory_ready :: "'r DistributedPriorityQueue \<Rightarrow> iter_env \<Rightarrow> 'r world \<Rightarrow> bool" where
  "memory_ready q e w \<longleftrightarrow> cacheRepo q = MemoryCache \<and> \<not> closed q \<and> 0 < i_fuel e"

lemma dequeue_memory_claims:
  assumes "cacheRepo q = MemoryCache" and "\<not> closed q" and wf: "store_wf (repo w)"
    and own: "own_locks (instanceID q) (repo w)" and ne: "queued_ids (repo w) \<noteq> {}"
  shows "\<exists>c. Dequeue (Suc n) q env w = Some c \<and> claim q w c"
proof -
  obtain k c where "lookup_ad (repo w) k = Some c" "Status c = StatusQueued" using ne by (auto simp: queued_ids_def)
  from memory_pop[OF wf this, of "e_pop (env 0)" ads_queue] obtain a where
    a: "cache_PopFromQueue (cacheRepo q) (e_pop (env 0)) ads_queue w = (Ok (AdID a), w)"
      "next_queued (repo w) a" "AdID a \<noteq> ''''" unfolding assms(1) by blast
  have la: "lookup_ad (repo w) (AdID a) = Some a" "Status a = StatusQueued" using a(2) by (auto simp: next_queued_def)
  from dequeue_fast_ok[OF la(1) refl a(3) la(2) own_locks_free[OF own], of "env 0"] obtain w' where
    w': "dequeue_fast q (env 0) (AdID a) w = (Return (Ok (dequeued (instanceID q) 0 a)), w')"
      "lookup_ad (repo w') = (lookup_ad (repo w))(AdID a \<mapsto> dequeued (instanceID q) 0 a)"
      "locks (repo w') = (locks (repo w))(AdID a := None)"
    unfolding dequeued_time[of _ "e_now (env 0)"] by blast
  have "Dequeue (Suc n) q env w = Some (Ok (dequeued (instanceID q) 0 a), w')"
    using a(1,3) w'(1) assms(2) by (simp add: Dequeue_step del: cache_PopFromQueue.simps)
  then show ?thesis using la w'(2) own_locks_upd(1)[OF own w'(3)] by (auto simp: claim_def)
qed

interpretation memory_claims: claiming_queue q "memory_ready q" for q
proof
  fix e :: iter_env and w :: "'a world"
  assume r: "memory_ready q e w" and h: "store_wf (repo w)" "own_locks (instanceID q) (repo w)" "queued_ids (repo w) \<noteq> {}"
  from r obtain n where n: "i_fuel e = Suc n" by (cases "i_fuel e") (auto simp: memory_ready_def)
  from r have "cacheRepo q = MemoryCache" "\<not> closed q" by (simp_all add: memory_ready_def)
  from dequeue_memory_claims[OF this h]
  show "\<exists>c. Dequeue (i_fuel e) q (i_rounds e) w = Some c \<and> claim q w c" by (simp only: n(1))
qed

section \<open>The loop under interference\<close>

text \<open>Before each iteration the other processes change Redis by some function of its state.\<close>

type_synonym 'r interfered = "('r \<Rightarrow> 'r) \<times> iter_env"

definition disturb :: "('r \<Rightarrow> 'r) \<Rightarrow> 'r world \<Rightarrow> 'r world" where
  "disturb f w = w\<lparr>rds := f (rds w)\<rparr>"

lemma disturb_simps [simp]: "repo (disturb f w) = repo w" "rds (disturb f w) = f (rds w)"
  by (simp_all add: disturb_def)

fun interfered_loop ::
  "'r DistributedPriorityQueue \<Rightarrow> Analyzer \<Rightarrow> 'r interfered list \<Rightarrow> Worker \<Rightarrow> 'r world \<Rightarrow> loop_status \<times> Worker \<times> 'r world"
  where
  "interfered_loop q a [] wk w = (Running, wk, w)"
| "interfered_loop q a ((f, e) # es) wk w =
     (case process_iteration q a e wk (disturb f w) of
        (Running, wk, w) \<Rightarrow> interfered_loop q a es wk w
      | r \<Rightarrow> r)"

text \<open>Without interference this is the loop of the code.\<close>

lemma interfered_loop_alone: "interfered_loop q a (map (Pair (\<lambda>r. r)) es) wk w = processLoop q a es wk w"
proof (induction es arbitrary: wk w)
  case (Cons e es)
  then show ?case by (simp add: disturb_def split: prod.split loop_status.split)
qed simp

context claiming_queue
begin

lemma iteration_claims:
  assumes "ready e w" and "store_wf (repo w)" and "own_locks (instanceID q) (repo w)" and "queued_ids (repo w) \<noteq> {}"
    and "smooth e" and "- (2 ^ 31) \<le> activeJobs wk" "activeJobs wk < 2 ^ 31 - 1"
  obtains b w' where "lookup_ad (repo w) (AdID b) = Some b" and "Status b = StatusQueued"
    and "process_iteration q a e wk w = (Running, add_processed wk, w')"
    and "store_wf (repo w')" and "own_locks (instanceID q) (repo w')"
    and "lookup_ad (repo w') = (lookup_ad (repo w))(AdID b \<mapsto>
      completed (i_done_now e) (analysis_of a e (dequeued (instanceID q) 0 b)) (dequeued (instanceID q) 0 b))"
proof -
  from claims[OF assms(1-4)] obtain b w1 where
    D: "Dequeue (i_fuel e) q (i_rounds e) w = Some (Ok (dequeued (instanceID q) 0 b), w1)"
    and b: "lookup_ad (repo w) (AdID b) = Some b" "Status b = StatusQueued"
    and l: "lookup_ad (repo w1) = (lookup_ad (repo w))(AdID b \<mapsto> dequeued (instanceID q) 0 b)"
    and own: "own_locks (instanceID q) (repo w1)" by (auto simp: claim_def)
  let ?d = "dequeued (instanceID q) 0 b"
  have wf: "store_wf (repo w1)" using filed.Dequeue_keeps[OF D] assms(2) by simp
  have ld: "lookup_ad (repo w1) (AdID ?d) = Some ?d" using l by simp
  have ne: "AdID ?d \<noteq> ''''" using store_wf_lookup[OF wf ld] by simp
  note C = Complete_ok[OF own_locks_free[OF own] ne ld refl refl, of "i_lock_now e" "i_done_now e" "analysis_of a e ?d"]
  obtain w2 where w2: "Complete q (i_lock_now e) (i_done_now e) ?d (analysis_of a e ?d) w1 = (Ok (), w2)"
    using C(1) by (cases "Complete q (i_lock_now e) (i_done_now e) ?d (analysis_of a e ?d) w1") auto
  have "process_iteration q a e wk w = (Running, add_processed wk, w2)"
    using assms(5) by (simp add: smooth_def process_iteration_def D processAd_def Analyze_analysis_of Let_def w2
      add_active_back[OF assms(6,7)])
  moreover have "store_wf (repo w2)"
    using filed.Complete_keeps[of w1 q "i_lock_now e" "i_done_now e" ?d "analysis_of a e ?d"] wf w2 by simp
  moreover have "own_locks (instanceID q) (repo w2)" using own_locks_upd(1)[OF own C(3)] w2 by simp
  moreover have "lookup_ad (repo w2) = (lookup_ad (repo w))(AdID b \<mapsto> completed (i_done_now e) (analysis_of a e ?d) ?d)"
    using C(2) w2 by (simp add: l)
  ultimately show ?thesis using that b by blast
qed

lemma interfered_loop_completes:
  "store_wf (repo w) \<Longrightarrow> own_locks (instanceID q) (repo w) \<Longrightarrow> card (queued_ids (repo w)) = length es \<Longrightarrow>
    \<forall>(f, e) \<in> set es. smooth e \<and> (\<forall>w. ready e (disturb f w)) \<Longrightarrow>
    - (2 ^ 31) \<le> activeJobs wk \<Longrightarrow> activeJobs wk < 2 ^ 31 - 1 \<Longrightarrow>
    \<exists>w'. interfered_loop q a es wk w = (Running, (add_processed ^^ length es) wk, w') \<and> queued_ids (repo w') = {}
      \<and> (\<forall>k. if k \<in> queued_ids (repo w)
           then \<exists>b an t. lookup_ad (repo w) k = Some b
             \<and> lookup_ad (repo w') k = Some (completed t an (dequeued (instanceID q) 0 b))
           else lookup_ad (repo w') k = lookup_ad (repo w) k)"
proof (induction es arbitrary: w wk)
  case Nil
  then have "queued_ids (repo w) = {}" by simp
  then show ?case by simp
next
  case (Cons fe es)
  obtain f e where fe: "fe = (f, e)" by (cases fe)
  have ne: "queued_ids (repo (disturb f w)) \<noteq> {}" using Cons.prems(3) by auto
  have e: "smooth e" "ready e (disturb f w)" using Cons.prems(4) fe by auto
  from iteration_claims[OF e(2) _ _ ne e(1) Cons.prems(5,6), of a] Cons.prems(1,2) obtain b w1 where
    lb: "lookup_ad (repo w) (AdID b) = Some b" "Status b = StatusQueued"
    and it: "process_iteration q a e wk (disturb f w) = (Running, add_processed wk, w1)"
    and wf: "store_wf (repo w1)" and nl: "own_locks (instanceID q) (repo w1)"
    and l: "lookup_ad (repo w1) = (lookup_ad (repo w))(AdID b \<mapsto>
      completed (i_done_now e) (analysis_of a e (dequeued (instanceID q) 0 b)) (dequeued (instanceID q) 0 b))"
    by (metis disturb_simps(1))
  have ids: "queued_ids (repo w1) = queued_ids (repo w) - {AdID b}" by (auto simp: queued_ids_def l)
  have mem: "AdID b \<in> queued_ids (repo w)" using lb by (auto simp: queued_ids_def)
  have c: "card (queued_ids (repo w1)) = length es" using Cons.prems(3) mem by (simp add: ids)
  have es: "\<forall>(f, e) \<in> set es. smooth e \<and> (\<forall>w. ready e (disturb f w))" using Cons.prems(4) by simp
  have k: "- (2 ^ 31) \<le> activeJobs (add_processed wk)" "activeJobs (add_processed wk) < 2 ^ 31 - 1"
    using Cons.prems(5,6) by simp_all
  from Cons.IH[OF wf nl c es k] obtain w' where
    w': "interfered_loop q a es (add_processed wk) w1 = (Running, (add_processed ^^ length es) (add_processed wk), w')"
      "queued_ids (repo w') = {}"
    and r: "\<forall>k. if k \<in> queued_ids (repo w1)
           then \<exists>b an t. lookup_ad (repo w1) k = Some b
             \<and> lookup_ad (repo w') k = Some (completed t an (dequeued (instanceID q) 0 b))
           else lookup_ad (repo w') k = lookup_ad (repo w1) k" by blast
  have "interfered_loop q a (fe # es) wk w = (Running, (add_processed ^^ length (fe # es)) wk, w')"
    by (simp add: fe it w'(1) funpow_swap1)
  moreover have "if k \<in> queued_ids (repo w)
      then \<exists>b an t. lookup_ad (repo w) k = Some b
        \<and> lookup_ad (repo w') k = Some (completed t an (dequeued (instanceID q) 0 b))
      else lookup_ad (repo w') k = lookup_ad (repo w) k" for k
  proof (cases "k = AdID b")
    case True
    then have "lookup_ad (repo w') k = lookup_ad (repo w1) k" using r ids by auto
    with True mem lb l show ?thesis by auto
  next
    case False
    with r[rule_format, of k] show ?thesis by (auto simp: ids l split: if_splits)
  qed
  ultimately show ?case using w'(2) by blast
qed

end

section \<open>The server\<close>

lemma serverRun_queue:
  assumes "serverRun newClient numCPU uuids cfg instID r = (cs, w)"
  shows "cacheRepo (queue cs) = MemoryCache \<or>
      (\<exists>rr. cacheRepo (queue cs) = RedisCache rr \<and> client rr = newClient (redis_options cfg))"
    and "svc_queue (adService cs) = queue cs" and "\<not> closed (queue cs)"
    and "MaxCapacity (options (queue cs)) = QueueCapacity (Processor cfg)" and "repo w = NewMemoryRepository"
  using assms
  by (auto simp: serverRun_def initializeComponents_def Let_def NewAdService_def NewDistributedPriorityQueue_def
      queue_options_def connect_redis_def NewRedisRepository_def split: prod.splits option.splits if_splits)

text \<open>What the other processes may do: anything that leaves the queue with fewer members than the rounds
  of \<^verbatim>\<open>Dequeue\<close> the iteration allows (its fuel, which the code does not bound).\<close>

definition tame :: "('r \<Rightarrow> string \<Rightarrow> string \<Rightarrow> rat option) \<Rightarrow> ('r \<Rightarrow> 'r) \<Rightarrow> iter_env \<Rightarrow> bool" where
  "tame zs f e \<longleftrightarrow> (\<forall>r. finite (dom (zs (f r) ads_queue)) \<and> card (dom (zs (f r) ads_queue)) < i_fuel e)"

lemma server_loop_completes:
  assumes "serverRun newClient numCPU uuids cfg instID r = (cs, w0)"
    and "redis_documented (newClient (redis_options cfg)) kv zs"
    and "store_wf (repo w)" and "locks (repo w) = Map.empty" and "card (queued_ids (repo w)) = length es"
    and "\<forall>(f, e) \<in> set es. smooth e \<and> tame zs f e"
    and "- (2 ^ 31) \<le> activeJobs wk" and "activeJobs wk < 2 ^ 31 - 1"
  shows "\<exists>w'. interfered_loop (queue cs) a es wk w = (Running, (add_processed ^^ length es) wk, w') \<and> queued_ids (repo w') = {}
      \<and> (\<forall>k. if k \<in> queued_ids (repo w)
           then \<exists>b an t. lookup_ad (repo w) k = Some b
             \<and> lookup_ad (repo w') k = Some (completed t an (dequeued (instanceID (queue cs)) 0 b))
           else lookup_ad (repo w') k = lookup_ad (repo w) k)"
proof -
  note R = serverRun_queue[OF assms(1)]
  have own: "own_locks (instanceID (queue cs)) (repo w)" by (simp add: own_locks_def assms(4))
  from R(1) show ?thesis
  proof
    assume "cacheRepo (queue cs) = MemoryCache"
    then have "\<forall>(f, e) \<in> set es. smooth e \<and> (\<forall>w. memory_ready (queue cs) e (disturb f w))"
      using R(3) assms(6) by (auto simp: memory_ready_def smooth_def)
    from memory_claims.interfered_loop_completes[OF assms(3) own assms(5) this assms(7,8)] show ?thesis .
  next
    assume "\<exists>rr. cacheRepo (queue cs) = RedisCache rr \<and> client rr = newClient (redis_options cfg)"
    then obtain rr where rr: "cacheRepo (queue cs) = RedisCache rr" "client rr = newClient (redis_options cfg)" by blast
    have "\<forall>(f, e) \<in> set es. smooth e \<and> (\<forall>w. redis_ready (queue cs) rr kv zs e (disturb f w))"
      using R(3) assms(2,6) rr by (auto simp: redis_ready_def tame_def)
    from shared_claims.interfered_loop_completes[OF assms(3) own assms(5) this assms(7,8)] show ?thesis .
  qed
qed

text \<open>C4. Other processes cannot make the server lose an ad it queued.  On every accepted configuration
  whose queue has room for the submissions (no capacity, or at least as many places), whether the
  server runs with Redis or fell back to memory, and whatever other processes do to the shared Redis
  queue between the iterations (pop the server's ads, push identifiers it does not know or an empty
  one, change scores; only the number of members has a bound in each iteration, the rounds that
  \<^verbatim>\<open>Dequeue\<close> is given): a worker of the server that runs undisturbed for as many iterations as ads were
  submitted processes each of them.  Afterwards nothing is queued in its repository, it has counted
  every ad and no error, and every submitted ad is stored with the submitted content, completed and
  with an analysis.
\<close>

theorem shared_queue_loses_nothing:
  assumes "LoadConfig v path = Ok cfg" and "redis_documented (newClient (redis_options cfg)) kv zs"
    and "serverRun newClient numCPU uuids cfg instID r = (cs, w)" and "(k, wk) \<in> set (workers (running_pool cs))"
    and "new_submissions (repo w) subs"
    and "QueueCapacity (Processor cfg) = 0 \<or> int (length subs) \<le> QueueCapacity (Processor cfg)"
    and "length es = length subs" and "\<forall>(f, e) \<in> set es. smooth e \<and> tame zs f e" and "int (length subs) < 2 ^ 63"
  shows "\<exists>wk' w'. interfered_loop (queue cs) (analyzer cs) es wk (fold (submit (adService cs)) subs w) = (Running, wk', w')
    \<and> processed wk' = int (length subs) \<and> w_errors wk' = 0 \<and> queued_ids (repo w') = {}
    \<and> (\<forall>(u, now, now', ad) \<in> set subs. \<exists>c. lookup_ad (repo w') u = Some c
         \<and> AdSubmission.truncate c = AdSubmission.truncate ad \<and> Status c = StatusCompleted \<and> Analysis c \<noteq> None)"
proof -
  note V = valid_configD[OF LoadConfig_valid[OF assms(1)]]
  note R = serverRun_queue[OF assms(3)]
  have wk: "processed wk = 0" "activeJobs wk = 0" "w_errors wk = 0"
    using serverRun_workers[OF assms(3) _ assms(4)] V(1) by simp_all
  let ?w = "fold (submit (adService cs)) subs w" and ?ids = "fst ` set subs"
  have e: "queued_ids (repo w) = {}" by (simp add: R(5) queued_ids_def NewMemoryRepository_def)
  have room: "has_room (svc_queue (adService cs)) (int (card (queued_ids (repo w)) + length subs))"
    using assms(6) V(3) by (auto simp: has_room_def R(2,4) e)
  have h: "store_wf (repo w)" "locks (repo w) = Map.empty" by (simp_all add: R(5)) (simp add: NewMemoryRepository_def)
  have o: "\<not> closed (svc_queue (adService cs))" using R(2,3) by simp
  note Q = submissions_queue[OF o h assms(5) room]
  have S: "store_wf (repo ?w)" "locks (repo ?w) = Map.empty" "queued_ids (repo ?w) = ?ids"
    "\<forall>(u, now, now', ad) \<in> set subs. \<exists>b. lookup_ad (repo ?w) u = Some b \<and> AdSubmission.truncate b = AdSubmission.truncate ad"
    using Q e by simp_all
  have c: "card (queued_ids (repo ?w)) = length es"
    using assms(5,7) distinct_card[of "map fst subs"] by (simp add: S(3) new_submissions_def)
  have k: "- (2 ^ 31) \<le> activeJobs wk" "activeJobs wk < 2 ^ 31 - 1" using wk(2) by simp_all
  from server_loop_completes[OF assms(3,2) S(1,2) c assms(8) k, of "analyzer cs"] obtain w' where
    L: "interfered_loop (queue cs) (analyzer cs) es wk ?w = (Running, (add_processed ^^ length es) wk, w')"
      "queued_ids (repo w') = {}"
    and D: "\<forall>k. if k \<in> queued_ids (repo ?w)
           then \<exists>b an t. lookup_ad (repo ?w) k = Some b
             \<and> lookup_ad (repo w') k = Some (completed t an (dequeued (instanceID (queue cs)) 0 b))
           else lookup_ad (repo w') k = lookup_ad (repo ?w) k" by blast
  have "\<exists>c. lookup_ad (repo w') u = Some c \<and> AdSubmission.truncate c = AdSubmission.truncate ad
      \<and> Status c = StatusCompleted \<and> Analysis c \<noteq> None" if m: "(u, now, now', ad) \<in> set subs" for u now now' ad
  proof -
    obtain b where b: "lookup_ad (repo ?w) u = Some b" "AdSubmission.truncate b = AdSubmission.truncate ad"
      using S(4) m by auto
    have "u \<in> queued_ids (repo ?w)" using m by (force simp: S(3))
    then obtain an t where "lookup_ad (repo w') u = Some (completed t an (dequeued (instanceID (queue cs)) 0 b))"
      using D[rule_format, of u] b(1) by auto
    with b(2) show ?thesis by simp
  qed
  with L processed_count[of wk "length es"] processed_funpow[of "length es" wk] wk assms(7,9) show ?thesis
    by (intro exI[of _ "(add_processed ^^ length es) wk"] exI[of _ w'] conjI) auto
qed

text \<open>Two ads on a configuration with Redis; before the first iteration another process replaces the
  queue by an empty identifier, before the second by an identifier of its own.\<close>

definition redis_config :: Config where
  "redis_config = setDefaults\<lparr>Storage := (Storage setDefaults)\<lparr>CacheType := ''redis'',
     Redis := \<lparr>Address = ''localhost:6379'', Password = '''', DB = 0\<rparr>\<rparr>\<rparr>"

definition redis_viper :: viper where
  "redis_viper = \<lparr>ReadInConfig = (\<lambda>_. None), Unmarshal = (\<lambda>_ _. Inr redis_config)\<rparr>"

definition set_queue :: "(string \<times> rat) list \<Rightarrow> ref_state \<Rightarrow> ref_state" where
  "set_queue xs r = r\<lparr>ref_zs := (ref_zs r)(ads_queue := xs)\<rparr>"

lemma tame_set_queue:
  assumes "length xs < i_fuel e"
  shows "tame (\<lambda>r q. map_of (ref_zs r q)) (set_queue xs) e"
proof -
  have "card (dom (map_of xs)) \<le> card (set xs)" by (simp add: dom_map_of_conv_image_fst card_image_le)
  also have "\<dots> \<le> length xs" by (rule card_length)
  finally show ?thesis using assms by (simp add: tame_def set_queue_def finite_dom_map_of)
qed

definition sample_interference :: "ref_state interfered list" where
  "sample_interference = [(set_queue [('''', 1)], sample_iteration\<lparr>i_fuel := 2\<rparr>),
     (set_queue [(''z'', 1)], sample_iteration\<lparr>i_fuel := 2\<rparr>)]"

theorem shared_queue_loses_nothing_witness:
  "\<exists>cs w k wk wk' w'. serverRun (\<lambda>_. ref_client) 4 sample_uuids redis_config ''api-1'' sample_redis = (cs, w)
     \<and> (k, wk) \<in> set (workers (running_pool cs))
     \<and> interfered_loop (queue cs) (analyzer cs) sample_interference wk
            (fold (submit (adService cs)) sample_submissions w) = (Running, wk', w') \<and> processed wk' = 2"
proof -
  have v: "LoadConfig redis_viper '''' = Ok redis_config"
    by (simp add: LoadConfig_def redis_viper_def) (simp add: Validate_def redis_config_def setDefaults_def Let_def)
  obtain cs w where r: "serverRun (\<lambda>_. ref_client) 4 sample_uuids redis_config ''api-1'' sample_redis = (cs, w)"
    by fastforce
  have m: "0 < c_MinWorkers (WorkerCfg (Processor redis_config))"
    "int (length sample_submissions) \<le> QueueCapacity (Processor redis_config)"
    by (simp_all add: redis_config_def setDefaults_def sample_submissions_def)
  obtain k wk where wk: "(k, wk) \<in> set (workers (running_pool cs))"
    using serverRun_one_worker[OF r m(1)] by (cases "workers (running_pool cs)") auto
  have "repo w = NewMemoryRepository" by (rule serverRun_queue(5)[OF r])
  then have n: "new_submissions (repo w) sample_submissions"
    by (simp add: new_submissions_def sample_submissions_def NewMemoryRepository_def)
  have s: "length sample_interference = length sample_submissions" "int (length sample_submissions) < 2 ^ 63"
    "int (length sample_submissions) = 2" by (simp_all add: sample_submissions_def sample_interference_def)
  have t: "\<forall>(f, e) \<in> set sample_interference. smooth e \<and> tame (\<lambda>r q. map_of (ref_zs r q)) f e"
    unfolding sample_interference_def
    by (simp add: smooth_def sample_iteration_def tame_set_queue)
  from shared_queue_loses_nothing[OF v ref_client_documented r wk n disjI2[OF m(2)] s(1) t s(2)] obtain wk' w' where
    "interfered_loop (queue cs) (analyzer cs) sample_interference wk (fold (submit (adService cs)) sample_submissions w)
      = (Running, wk', w')" "processed wk' = int (length sample_submissions)" by blast
  then show ?thesis unfolding s(3) using r wk by (intro exI conjI)
qed

end
