(* ===== verification/Abandoned.thy ===== *)
theory Abandoned
  imports Interleaving
begin

text \<open>
  Which ads the threads of a process leave behind.  A thread lets an ad go unfinished at two places
  only: the loop of a worker after an analysis that failed or a lock it did not get, and \<^verbatim>\<open>SubmitAd\<close>
  after a full queue.  This theory keeps the identifiers let go there along a run, and proves that
  they are exactly the ads that no thread holds and that are neither queued nor finished.
\<close>

section \<open>Runs with the ads given up\<close>

definition given_up :: "pc \<Rightarrow> pc \<Rightarrow> string set" where
  "given_up p p' =
     (case p of
        Working ad \<Rightarrow> if p' = Idle then {AdID ad} else {}
      | Submitting ad \<Rightarrow> if p' = Idle then {AdID ad} else {}
      | _ \<Rightarrow> {})"

inductive traced_run ::
  "'r DistributedPriorityQueue \<Rightarrow> nat \<Rightarrow> (nat \<Rightarrow> pc) \<Rightarrow> MemoryRepository \<Rightarrow> string set \<Rightarrow> bool" for q where
  traced_start: "traced_run q 0 (\<lambda>_. Idle) NewMemoryRepository {}"
| traced_step: "traced_run q n pcs m G \<Longrightarrow> tstep q (pcs t, m) (p, m') \<Longrightarrow>
    traced_run q (Suc n) (pcs(t := p)) m' (G \<union> given_up (pcs t) p)"

lemma traced_run_run: "traced_run q n pcs m G \<Longrightarrow> run q n pcs m"
  by (induction rule: traced_run.induct) (blast intro: run.intros)+

lemma run_traced: "run q n pcs m \<Longrightarrow> \<exists>G. traced_run q n pcs m G"
  by (induction rule: run.induct) (blast intro: traced_run.intros)+

section \<open>The invariant\<close>

definition settled :: "Ad \<Rightarrow> bool" where
  "settled a \<longleftrightarrow> Status a = StatusQueued \<or> Status a = StatusCompleted \<and> Analysis a \<noteq> None"

definition pending :: "Ad \<Rightarrow> bool" where
  "pending a \<longleftrightarrow> Status a = StatusSubmitted \<or> Status a = StatusProcessing"

definition unowned :: "(nat \<Rightarrow> pc) \<Rightarrow> string \<Rightarrow> bool" where
  "unowned pcs i \<longleftrightarrow> (\<forall>t s. owns (pcs t) \<noteq> Some (i, s))"

fun analysed :: "pc \<Rightarrow> bool" where
  "analysed (Writing i ad) = (Analysis ad \<noteq> None)"
| "analysed _ = True"

definition limbo :: "(nat \<Rightarrow> pc) \<Rightarrow> MemoryRepository \<Rightarrow> string set \<Rightarrow> bool" where
  "limbo pcs m G \<longleftrightarrow>
     (\<forall>i a. lookup_ad m i = Some a \<longrightarrow> unowned pcs i \<longrightarrow> i \<notin> G \<longrightarrow> settled a)
   \<and> (\<forall>i \<in> G. unowned pcs i \<and> (\<exists>a. lookup_ad m i = Some a \<and> pending a))
   \<and> (\<forall>t. analysed (pcs t))"

lemma limboD:
  assumes "limbo pcs m G"
  shows limbo_settled: "lookup_ad m i = Some a \<Longrightarrow> unowned pcs i \<Longrightarrow> i \<notin> G \<Longrightarrow> settled a"
    and limbo_given: "i \<in> G \<Longrightarrow> unowned pcs i \<and> (\<exists>a. lookup_ad m i = Some a \<and> pending a)"
    and limbo_analysed: "analysed (pcs t)"
  using assms by (simp_all add: limbo_def)

lemma pending_settled: "pending a \<Longrightarrow> \<not> settled a"
  by (auto simp: pending_def settled_def)

lemma unowned_update:
  "unowned (pcs(t := p)) i \<longleftrightarrow> (\<forall>s. owns p \<noteq> Some (i, s)) \<and> (\<forall>u s. u \<noteq> t \<longrightarrow> owns (pcs u) \<noteq> Some (i, s))"
  by (auto simp: unowned_def)

lemma unowned_same:
  assumes "(\<exists>s. owns p = Some (i, s)) \<longleftrightarrow> (\<exists>s. owns (pcs t) = Some (i, s))"
  shows "unowned (pcs(t := p)) i \<longleftrightarrow> unowned pcs i"
  using assms unfolding unowned_def by (metis fun_upd_apply)

text \<open>What keeps the invariant: a step that leaves the ads (but for their effective priorities) and
  what its thread owns, a step that writes one ad, and a step that gives an ad up.\<close>

definition same_content :: "MemoryRepository \<Rightarrow> MemoryRepository \<Rightarrow> bool" where
  "same_content m m' \<longleftrightarrow> (\<forall>i. rel_option (\<lambda>a b. Status a = Status b \<and> Analysis a = Analysis b) (lookup_ad m i) (lookup_ad m' i))"

lemma same_content_ads: "ads m' = ads m \<Longrightarrow> same_content m m'"
  by (simp add: same_content_def option.rel_refl)

lemma same_content_lookup:
  assumes "same_content m m'"
  shows "lookup_ad m' i = Some b \<Longrightarrow> \<exists>a. lookup_ad m i = Some a \<and> settled a = settled b \<and> pending a = pending b"
    and "lookup_ad m i = Some a \<Longrightarrow> \<exists>b. lookup_ad m' i = Some b \<and> settled a = settled b \<and> pending a = pending b"
  using assms[unfolded same_content_def, rule_format, of i]
  by (auto simp: settled_def pending_def option_rel_Some1 option_rel_Some2)

lemma limbo_keep:
  assumes "limbo pcs m G" "same_content m m'" "analysed p" "map_option fst (owns p) = map_option fst (owns (pcs t))"
  shows "limbo (pcs(t := p)) m' G"
proof -
  have o: "(\<exists>s. owns p = Some (i, s)) \<longleftrightarrow> (\<exists>s. owns (pcs t) = Some (i, s))" for i
    using assms(4) by (cases "owns p"; cases "owns (pcs t)") auto
  have u: "unowned (pcs(t := p)) i \<longleftrightarrow> unowned pcs i" for i
    by (rule unowned_same) (rule o)
  show ?thesis unfolding limbo_def u
    using limbo_settled[OF assms(1)] limbo_given[OF assms(1)] limbo_analysed[OF assms(1)] assms(3)
      same_content_lookup[OF assms(2)] by (auto, (metis+)?)
qed

lemma limbo_write:
  assumes "limbo pcs m G" "lookup_ad m' = (lookup_ad m)(i \<mapsto> b)" "analysed p"
    and "i \<notin> G" and "settled b \<or> (\<exists>s. owns p = Some (i, s))"
    and "\<And>j s. owns p = Some (j, s) \<Longrightarrow> j = i" and "\<And>j s. owns (pcs t) = Some (j, s) \<Longrightarrow> j = i"
  shows "limbo (pcs(t := p)) m' G"
proof -
  have u: "unowned (pcs(t := p)) j \<longleftrightarrow> unowned pcs j" if "j \<noteq> i" for j
    using that assms(6,7) by (intro unowned_same) blast
  have n: "j \<noteq> i" if "j \<in> G" for j using that assms(4) by auto
  have "settled a" if "lookup_ad m' j = Some a" "unowned (pcs(t := p)) j" "j \<notin> G" for j a
  proof (cases "j = i")
    case True
    with that assms(2,5) show ?thesis by (auto simp: unowned_update)
  next
    case False
    with that assms(2) u show ?thesis using limbo_settled[OF assms(1)] by simp
  qed
  moreover have "unowned (pcs(t := p)) j \<and> (\<exists>a. lookup_ad m' j = Some a \<and> pending a)" if "j \<in> G" for j
    using limbo_given[OF assms(1) that] n[OF that] by (simp add: u assms(2))
  moreover have "analysed ((pcs(t := p)) v)" for v
    using limbo_analysed[OF assms(1)] assms(3) by simp
  ultimately show ?thesis unfolding limbo_def by blast
qed

lemma limbo_drop:
  assumes "limbo pcs m G" "run_inv n pcs m" "ads m' = ads m" "owns p = None" "analysed p"
    and "owns (pcs t) = Some (i, s)" "s = StatusSubmitted \<or> s = StatusProcessing"
  shows "limbo (pcs(t := p)) m' (G \<union> {i})"
proof -
  have u: "unowned (pcs(t := p)) j \<longleftrightarrow> unowned pcs j" if "j \<noteq> i" for j
    using that assms(4,6) by (intro unowned_same) simp
  have i: "unowned (pcs(t := p)) i"
    using exclusiveD[OF run_inv_exclusive[OF assms(2)] assms(6)] assms(4) by (auto simp: unowned_update)
  from pc_okD(1)[OF run_inv_pc[OF assms(2)] assms(6)] obtain b where b: "lookup_ad m i = Some b" "Status b = s" by blast
  with assms(7) have p: "pending b" by (simp add: pending_def)
  have "settled a" if "lookup_ad m' j = Some a" "unowned (pcs(t := p)) j" "j \<notin> G \<union> {i}" for j a
    using that u[of j] limbo_settled[OF assms(1)] by (simp add: assms(3))
  moreover have "unowned (pcs(t := p)) j \<and> (\<exists>a. lookup_ad m' j = Some a \<and> pending a)" if "j \<in> G \<union> {i}" for j
    using that i b(1) p u[of j] limbo_given[OF assms(1), of j] by (cases "j = i") (simp_all add: assms(3))
  moreover have "analysed ((pcs(t := p)) v)" for v
    using limbo_analysed[OF assms(1)] assms(5) by simp
  ultimately show ?thesis unfolding limbo_def by blast
qed

lemma not_given:
  assumes "limbo pcs m G"
    and "owns (pcs t) = Some (i, s) \<or> lookup_ad m i = None \<or> (\<exists>b. lookup_ad m i = Some b \<and> Status b = StatusQueued)"
  shows "i \<notin> G"
proof
  assume "i \<in> G"
  from limbo_given[OF assms(1) this] assms(2) show False
    by (auto simp: unowned_def pending_def)
qed

lemma SetStatus_update:
  assumes "run_inv n pcs m" "pcs t = Submitting ad"
  shows "fst (update_ad (SetStatus now StatusQueued ad) m) = Ok ()"
proof -
  have o: "owned_copy (pcs t) = Some ad" by (simp add: assms(2))
  from pc_okD(2)[OF run_inv_pc[OF assms(1)] o] obtain b
    where "lookup_ad m (AdID ad) = Some b" "Version b = Version ad" by blast
  moreover from this have "AdID ad \<noteq> ''''" using assms(1) by (auto simp: run_inv_def versions_upto_def)
  ultimately show ?thesis by (simp add: store_eval)
qed

text \<open>A step that gives nothing up and writes no ad.\<close>

lemma limbo_quiet:
  assumes "limbo pcs m G" "same_content m m'" "analysed p" "map_option fst (owns p) = map_option fst (owns (pcs t))"
    and "given_up (pcs t) p = {}"
  shows "limbo (pcs(t := p)) m' (G \<union> given_up (pcs t) p)"
  using limbo_keep[OF assms(1-4)] assms(5) by simp

lemma limbo_written:
  assumes "limbo pcs m G" "lookup_ad m' = (lookup_ad m)(i \<mapsto> b)" "analysed p"
    and "i \<notin> G" and "settled b \<or> (\<exists>s. owns p = Some (i, s))"
    and "\<And>j s. owns p = Some (j, s) \<Longrightarrow> j = i" and "\<And>j s. owns (pcs t) = Some (j, s) \<Longrightarrow> j = i"
    and "given_up (pcs t) p = {}"
  shows "limbo (pcs(t := p)) m' (G \<union> given_up (pcs t) p)"
  using limbo_write[OF assms(1-7)] assms(8) by simp

lemma PushToQueue_same_content: "mem_PushToQueue qn i n m = (r, m') \<Longrightarrow> same_content m m'"
  by (auto simp: mem_PushToQueue_def same_content_def option.rel_refl option.rel_map option.rel_eq
      split: if_splits option.splits)

lemma same_content_refl [simp]: "same_content m m"
  by (rule same_content_ads) (rule refl)

lemma given_up_same: "given_up p p = {}"
  by (cases p) (simp_all add: given_up_def)

lemma tstep_limbo:
  assumes "tstep q (pcs t, m) (p, m')" "run_inv n pcs m" "int n + 1 < 2 ^ 62" "limbo pcs m G"
  shows "limbo (pcs(t := p)) m' (G \<union> given_up (pcs t) p)"
proof -
  note L = assms(4)
  note V = assms(2)[unfolded run_inv_def, THEN conjunct2, THEN conjunct2]
  note W = update_ad_writes[OF V assms(3)]
  note S = AtomicStatusUpdate_writes[OF V assms(3)]
  have id: "AdID a = i" if "lookup_ad m i = Some a" for i a using V that by (simp add: versions_upto_def)
  show ?thesis using assms(1)
  proof cases
    case (claim now ad pp)
    from S[OF claim(3)] obtain b b' where b: "lookup_ad m (AdID ad) = Some b" "Status b = StatusQueued"
      "lookup_ad m' = (lookup_ad m)(AdID ad \<mapsto> b')" by blast
    show ?thesis
      by (rule limbo_written[OF L b(3)]) (use claim b not_given[OF L, of t "AdID ad"] in \<open>auto simp: given_up_def\<close>)
  next
    case (claim_lost now ad e pp)
    then show ?thesis using failed_status[OF claim_lost(3)] by (intro limbo_quiet[OF L]) (auto simp: given_up_def)
  next
    case (fetch i ad pp)
    then show ?thesis using id[of i ad] by (intro limbo_quiet[OF L]) (auto simp: given_up_def Get_lookup)
  next
    case (fetch_lost i e pp)
    then show ?thesis using owned_get[OF assms(2), of t i StatusProcessing] by simp
  next
    case (assign ad ad' pp i)
    from W[OF assign(3)] have w: "lookup_ad m' = (lookup_ad m)(AdID ad \<mapsto> ad')" "AdID ad' = AdID ad" by auto
    show ?thesis
      by (rule limbo_written[OF L w(1)])
        (use assign w(2) not_given[OF L, of t "AdID ad"] in \<open>auto simp: given_up_def split: dequeue_path.splits\<close>)
  next
    case (assign_lost ad e ad' pp i)
    then show ?thesis using owned_update[OF assms(2), of t ad] by simp
  next
    case (work_lost ad)
    show ?thesis unfolding work_lost given_up_def
      using limbo_drop[OF L assms(2), of m Idle t "AdID ad" StatusProcessing] work_lost by simp
  next
    case (relock_taken now ad)
    then show ?thesis
      using limbo_drop[OF L assms(2) AcquireLock_same_ads[OF relock_taken(3)], of Idle t "AdID ad" StatusProcessing]
      by (simp add: given_up_def)
  next
    case (relock now ad an)
    then show ?thesis using same_content_ads[OF AcquireLock_same_ads[OF relock(3)]]
      by (intro limbo_quiet[OF L]) (auto simp: given_up_def)
  next
    case (finish now ad an)
    from S[OF finish(3)] obtain b' where b: "lookup_ad m' = (lookup_ad m)(AdID ad \<mapsto> b')" by blast
    show ?thesis
      by (rule limbo_written[OF L b]) (use finish not_given[OF L, of t "AdID ad"] in \<open>auto simp: given_up_def\<close>)
  next
    case (finish_lost now ad e an)
    then show ?thesis using owned_finish[OF assms(2), of t ad an now] by simp
  next
    case (reread i ad an)
    then show ?thesis using id[of i ad]
      by (intro limbo_quiet[OF L]) (auto simp: given_up_def Get_lookup SetAnalysisResults_def)
  next
    case (reread_lost i e an)
    then show ?thesis using owned_get[OF assms(2), of t i StatusCompleted] by simp
  next
    case (record_analysis ad r ad' i)
    have o: "owned_copy (pcs t) = Some ad" using record_analysis(1) by simp
    from owned_update[OF assms(2) o] record_analysis(3) have u: "update_ad ad m = (Ok (), ad', m')" by simp
    from W[OF u] have w: "lookup_ad m' = (lookup_ad m)(AdID ad \<mapsto> ad')" "Status ad' = Status ad" by auto
    have "Analysis ad' = Analysis ad" using u update_ad_cases[of m ad] by auto
    moreover have "Analysis ad \<noteq> None" using limbo_analysed[OF L, of t] record_analysis(1) by simp
    moreover have "Status ad = StatusCompleted"
      using pc_okD(1)[OF run_inv_pc[OF assms(2)], of t "AdID ad" StatusCompleted]
        pc_okD(2)[OF run_inv_pc[OF assms(2)] o] record_analysis(1) by auto
    ultimately have "settled ad'" using w(2) by (simp add: settled_def)
    then show ?thesis
      by (intro limbo_written[OF L w(1)])
        (use record_analysis not_given[OF L, of t "AdID ad"] in \<open>auto simp: given_up_def\<close>)
  next
    case (submit ad i)
    have "lookup_ad m' = (lookup_ad m)(AdID ad \<mapsto> ad)" using submit(6) by (auto simp: save_ad_def split: if_splits)
    then show ?thesis
      by (rule limbo_written[OF L]) (use submit not_given[OF L, of t "AdID ad"] in \<open>auto simp: given_up_def\<close>)
  next
    case (refuse ad)
    show ?thesis unfolding refuse given_up_def
      using limbo_drop[OF L assms(2), of m Idle t "AdID ad" StatusSubmitted] refuse by simp
  next
    case (enqueue now ad ad')
    from W[OF enqueue(3)] have w: "lookup_ad m' = (lookup_ad m)(AdID ad \<mapsto> ad')" "AdID ad' = AdID ad"
      "Status ad' = StatusQueued" by auto
    show ?thesis
      by (rule limbo_written[OF L w(1)])
        (use enqueue w(3) not_given[OF L, of t "AdID ad"] in \<open>auto simp: given_up_def settled_def\<close>)
  next
    case (enqueue_lost now ad e ad')
    then show ?thesis using SetStatus_update[OF assms(2), of t ad now] by simp
  next
    case (push i k r)
    then show ?thesis using PushToQueue_same_content[OF push(3)] by (intro limbo_quiet[OF L]) (auto simp: given_up_def)
  next
    case (age ad ad')
    from W[OF age(3)] obtain b where w: "lookup_ad m' = (lookup_ad m)(AdID ad \<mapsto> ad')" "Status ad' = Status ad"
      "lookup_ad m (AdID ad) = Some b" "Version b = Version ad" by auto
    have "Status ad = StatusQueued" "Status b = StatusQueued"
      using pc_okD(3)[OF run_inv_pc[OF assms(2)], of t ad] age(1) w(3,4) by auto
    with w(2,3) show ?thesis
      by (intro limbo_written[OF L w(1)])
        (use age not_given[OF L, of t "AdID ad"] in \<open>auto simp: given_up_def settled_def\<close>)
  next
    case (age_lost ad e ad')
    then show ?thesis using failed_update[OF age_lost(3)] by (intro limbo_quiet[OF L]) (auto simp: given_up_def)
  next
    case (late_release i)
    have "analysed (pcs t)" by (rule limbo_analysed[OF L])
    moreover have "given_up (pcs t) p = {}" using late_release by (simp add: given_up_same)
    ultimately show ?thesis using late_release by (intro limbo_quiet[OF L]) (auto intro: same_content_ads)
  qed (use L in \<open>auto intro!: limbo_keep simp: given_up_def AcquireLock_same_ads same_content_ads dest!: PopFromQueue_same_ads\<close>)
qed

lemma traced_run_limbo:
  "traced_run q n pcs m G \<Longrightarrow> int n < 2 ^ 62 \<Longrightarrow> limbo pcs m G"
proof (induction rule: traced_run.induct)
  case traced_start
  show ?case by (simp add: limbo_def NewMemoryRepository_def)
next
  case (traced_step n pcs m G t p m')
  from traced_step.prems have n: "int n < 2 ^ 62" "int n + 1 < 2 ^ 62" by simp_all
  show ?case
    by (rule tstep_limbo[OF traced_step.hyps(2) run_invariant[OF traced_run_run[OF traced_step.hyps(1)] n(1)] n(2)
      traced_step.IH[OF n(1)]])
qed

section \<open>The ads left behind\<close>

text \<open>C7. Nothing else is lost, and what is given up is lost for good.  In every run with the memory cache of
  fewer than 2^62 steps of any number of threads (\<^verbatim>\<open>RequeueExpired\<close> and the write of \<^verbatim>\<open>GetAd\<close> into the cache
  are no steps), the ads that no thread holds and that are neither queued nor
  completed with an analysis are exactly the ones given up at two places: by a worker between \<^verbatim>\<open>Dequeue\<close>
  and the first lock of \<^verbatim>\<open>Complete\<close>, and by \<^verbatim>\<open>SubmitAd\<close> between its save and the enqueueing.  Every other
  step, the retries and the writes that may be refused included, leaves each ad in the queue, with a
  thread or at a result.  The ads given up only increase: none is ever taken again, each stays
  submitted or processing.\<close>

theorem abandoned_exactly:
  assumes "traced_run q n pcs m G" and "int n < 2 ^ 62"
  shows "{i. unowned pcs i \<and> (\<exists>a. lookup_ad m i = Some a \<and> \<not> settled a)} = G
    \<and> (\<forall>i \<in> G. \<exists>a. lookup_ad m i = Some a \<and> pending a)"
proof -
  note L = traced_run_limbo[OF assms]
  show ?thesis using limbo_settled[OF L] limbo_given[OF L] pending_settled by blast
qed

lemma traced_step_eq:
  "traced_run q n pcs m G \<Longrightarrow> pcs t = p0 \<Longrightarrow> tstep q (p0, m) (p, m') \<Longrightarrow>
    traced_run q (Suc n) (pcs(t := p)) m' (G \<union> given_up p0 p)"
  by (auto intro: traced_step)

text \<open>A worker claims an ad and its analysis fails.\<close>

theorem abandoned_exactly_witness:
  "\<exists>pcs m G a. traced_run threads_queue 11 pcs m G \<and> unowned pcs ''a'' \<and> lookup_ad m ''a'' = Some a \<and> pending a"
proof -
  let ?ad = "IncrementAttempts (AssignWorker ''api-1'' claimed_ad)"
  let ?pcs = "(\<lambda>_ :: nat. Idle)(1 := Idle, 0 := Fetched Fast ''a'' ?ad)"
  obtain m G where r: "traced_run threads_queue 8 ?pcs m G" using sample_run run_traced by metis
  have R: "run_inv 8 ?pcs m" using run_invariant[OF traced_run_run[OF r]] by simp
  have V: "versions_upto 9 m" using R by (simp add: run_inv_def)
  have o: "owned_copy (?pcs 0) = Some ?ad" by simp
  obtain ad' m' where u: "update_ad ?ad m = (Ok (), ad', m')"
    using owned_update[OF R o] by (cases "update_ad ?ad m") auto
  have i: "AdID ad' = ''a''" using update_ad_writes[OF V _ u] by simp
  have r9: "traced_run threads_queue (Suc 8) (?pcs(0 := Returning ''a'' ad')) m' G"
    using traced_step_eq[OF r _ assign[OF u, of threads_queue Fast "''a''"], of 0] by (simp add: given_up_def)
  have r10: "\<exists>m. traced_run threads_queue (Suc (Suc 8)) (?pcs(0 := Working ad')) m G"
    using traced_step_eq[OF r9 _ unlock, of 0] by (auto simp: given_up_def)
  then obtain m2 where r10: "traced_run threads_queue (Suc (Suc 8)) (?pcs(0 := Working ad')) m2 G" by blast
  have "traced_run threads_queue (Suc (Suc (Suc 8))) (?pcs(0 := Idle)) m2 (G \<union> {''a''})"
    using traced_step_eq[OF r10 _ work_lost, of 0] i by (simp add: given_up_def)
  then have r11: "traced_run threads_queue 11 (?pcs(0 := Idle)) m2 (G \<union> {''a''})" by (simp add: eval_nat_numeral)
  have "unowned (?pcs(0 := Idle)) ''a'' \<and> (\<exists>a. lookup_ad m2 ''a'' = Some a \<and> pending a)"
    using abandoned_exactly[OF r11] by auto
  with r11 show ?thesis by blast
qed

end
