(* ===== verification/Go_Utils.thy ===== *)
theory Go_Utils
  imports App_Errors
begin

text \<open>
  The helpers of \<^verbatim>\<open>pkg/utils\<close> (\<^verbatim>\<open>retry.go\<close>, \<^verbatim>\<open>id_generator.go\<close>) and the event bus of
  \<^verbatim>\<open>internal/domain/events/event.go\<close>.  A function value of the code is a function on some state;
  sleeping is recorded as the list of delays, and random numbers are arguments.
\<close>

section \<open>Retrying\<close>

type_synonym 's action = "'s \<Rightarrow> goerr option \<times> 's"

fun retry_loop :: "'s action \<Rightarrow> nat \<Rightarrow> duration \<Rightarrow> 's \<Rightarrow> bool \<times> duration list \<times> 's" where
  "retry_loop fn 0 delay s = (False, [], s)"
| "retry_loop fn (Suc k) delay s =
     (case fn s of
        (None, s) \<Rightarrow> (True, [], s)
      | (Some _, s) \<Rightarrow> (case retry_loop fn k delay s of (ok, sleeps, s) \<Rightarrow> (ok, delay # sleeps, s)))"

definition Retry :: "'s action \<Rightarrow> int \<Rightarrow> duration \<Rightarrow> 's \<Rightarrow> goerr option \<times> duration list \<times> 's" where
  "Retry fn maxAttempts delay s =
     (case retry_loop fn (nat maxAttempts) delay s of
        (True, sleeps, s) \<Rightarrow> (None, sleeps, s)
      | (False, sleeps, s) \<Rightarrow>
          (Some (Errorf (''failed to execute function after '' @ fmt_d maxAttempts @ '' attempts'')), sleeps, s))"

fun backoff_loop :: "'s action \<Rightarrow> nat \<Rightarrow> duration \<Rightarrow> duration \<Rightarrow> 's \<Rightarrow> duration list \<times> 's" where
  "backoff_loop fn 0 delay maxDelay s = ([], s)"
| "backoff_loop fn (Suc k) delay maxDelay s =
     (case fn s of
        (None, s) \<Rightarrow> backoff_loop fn k delay maxDelay s
      | (Some _, s) \<Rightarrow>
          let delay' = i64 (delay * 2);
              delay' = (if maxDelay < delay' then maxDelay else delay')
          in (case backoff_loop fn k delay' maxDelay s of (sleeps, s) \<Rightarrow> (delay # sleeps, s)))"

definition RetryWithBackoff ::
  "'s action \<Rightarrow> int \<Rightarrow> duration \<Rightarrow> duration \<Rightarrow> 's \<Rightarrow> goerr option \<times> duration list \<times> 's" where
  "RetryWithBackoff fn maxAttempts initialDelay maxDelay s =
     (None, backoff_loop fn (nat maxAttempts) initialDelay maxDelay s)"

fun jitter_loop :: "(nat \<Rightarrow> int) \<Rightarrow> 's action \<Rightarrow> nat \<Rightarrow> duration \<Rightarrow> duration \<Rightarrow> 's \<Rightarrow> duration list \<times> 's" where
  "jitter_loop rnd fn 0 delay maxDelay s = ([], s)"
| "jitter_loop rnd fn (Suc k) delay maxDelay s =
     (case fn s of
        (None, s) \<Rightarrow> jitter_loop (rnd \<circ> Suc) fn k delay maxDelay s
      | (Some _, s) \<Rightarrow>
          let delay' = i64 (delay * 2);
              delay' = (if maxDelay < delay' then maxDelay else delay');
              delay' = i64 (delay' + rnd 0 * 1000000)
          in (case jitter_loop (rnd \<circ> Suc) fn k delay' maxDelay s of (sleeps, s) \<Rightarrow> (delay # sleeps, s)))"

definition RetryWithJitter ::
  "(nat \<Rightarrow> int) \<Rightarrow> 's action \<Rightarrow> int \<Rightarrow> duration \<Rightarrow> duration \<Rightarrow> 's \<Rightarrow> goerr option \<times> duration list \<times> 's" where
  "RetryWithJitter rnd fn maxAttempts initialDelay maxDelay s =
     (None, jitter_loop rnd fn (nat maxAttempts) initialDelay maxDelay s)"

text \<open>The state after \<open>k\<close> calls, and whether call number \<open>k\<close> succeeds.\<close>

definition after :: "'s action \<Rightarrow> nat \<Rightarrow> 's \<Rightarrow> 's" where
  "after fn k s = ((snd \<circ> fn) ^^ k) s"

definition succeeds :: "'s action \<Rightarrow> 's \<Rightarrow> nat \<Rightarrow> bool" where
  "succeeds fn s k \<longleftrightarrow> fst (fn (after fn k s)) = None"

lemma after_simps [simp]: "after fn 0 s = s" "after fn (Suc k) s = after fn k (snd (fn s))"
  by (simp_all add: after_def funpow_Suc_right del: funpow.simps)

lemma succeeds_Suc: "succeeds fn s (Suc k) = succeeds fn (snd (fn s)) k"
  by (simp add: succeeds_def)

lemma find_upt_Suc:
  "find P [0..<Suc n] = (if P 0 then Some 0 else map_option Suc (find (P \<circ> Suc) [0..<n]))"
proof -
  have "find P (map Suc xs) = map_option Suc (find (P \<circ> Suc) xs)" for xs by (induction xs) auto
  moreover have "[0..<Suc n] = 0 # map Suc [0..<n]" by (simp add: upt_conv_Cons map_Suc_upt)
  ultimately show ?thesis by simp
qed

lemma retry_loop_eq:
  "retry_loop fn n delay s =
     (case find (succeeds fn s) [0..<n] of
        Some k \<Rightarrow> (True, replicate k delay, after fn (Suc k) s)
      | None \<Rightarrow> (False, replicate n delay, after fn n s))"
proof (induction n arbitrary: s)
  case (Suc n)
  have c: "succeeds fn s \<circ> Suc = succeeds fn (snd (fn s))" by (rule ext) (simp add: succeeds_Suc)
  obtain e s' where f: "fn s = (e, s')" by (cases "fn s")
  have "succeeds fn s 0 = (e = None)" by (simp add: succeeds_def f)
  then have F: "find (succeeds fn s) [0..<Suc n] =
      (if e = None then Some 0 else map_option Suc (find (succeeds fn s') [0..<n]))"
    unfolding find_upt_Suc c by (simp add: f)
  show ?case unfolding F
    by (cases e; cases "find (succeeds fn s') [0..<n]") (simp_all add: f Suc.IH)
qed simp

text \<open>Retrying stops at the first success.  \<^verbatim>\<open>Retry\<close> calls the function until a call succeeds, sleeps the given
  delay after each failure, and returns no error with the state that call left; if none of the
  allowed calls succeeds it has made them all, slept after each, and returns an error.  A bound that
  is not positive allows no call.\<close>

theorem retry_first_success:
  "Retry fn maxAttempts delay s =
     (case find (succeeds fn s) [0..<nat maxAttempts] of
        Some k \<Rightarrow> (None, replicate k delay, after fn (Suc k) s)
      | None \<Rightarrow> (Some (Errorf (''failed to execute function after '' @ fmt_d maxAttempts @ '' attempts'')),
          replicate (nat maxAttempts) delay, after fn (nat maxAttempts) s))"
  by (auto simp: Retry_def retry_loop_eq split: option.split)

lemma jitter_loop_state: "snd (jitter_loop rnd fn n delay maxDelay s) = after fn n s"
proof (induction n arbitrary: rnd delay s)
  case (Suc n)
  obtain e s' where f: "fn s = (e, s')" by (cases "fn s")
  show ?case using Suc.IH[where s = s'] by (cases e) (simp_all add: f Let_def case_prod_unfold)
qed simp

text \<open>The delay after \<open>i\<close> failures.\<close>

definition backoff :: "duration \<Rightarrow> duration \<Rightarrow> nat \<Rightarrow> duration" where
  "backoff initialDelay maxDelay i = (if i = 0 then initialDelay else min maxDelay (initialDelay * 2 ^ i))"

lemma backoff_next:
  assumes "0 \<le> d" "d < 2 ^ 62" "0 \<le> m" "m < 2 ^ 62"
  defines "d' \<equiv> (if m < i64 (d * 2) then m else i64 (d * 2))"
  shows "0 \<le> d'" "d' < 2 ^ 62" "backoff d' m i = backoff d m (Suc i)"
proof -
  have w: "i64 (d * 2) = d * 2" using assms by (intro i64_id) (simp add: in_i64_def)
  then have d': "d' = min m (d * 2)" by (simp add: d'_def)
  then show "0 \<le> d'" "d' < 2 ^ 62" using assms(1-4) by auto
  have "m \<le> m * 2 ^ i" using assms(3) by (simp add: mult_le_cancel_left1)
  then have "min m (min m (d * 2) * 2 ^ i) = min m (d * 2 * 2 ^ i)"
  proof (cases "m \<le> d * 2")
    case True
    have "m * 2 ^ i \<le> d * 2 * 2 ^ i" using True by (rule mult_right_mono) simp
    with \<open>m \<le> m * 2 ^ i\<close> have "m \<le> d * 2 * 2 ^ i" by (rule order_trans)
    with True \<open>m \<le> m * 2 ^ i\<close> show ?thesis by (simp only: min_absorb1)
  qed (simp add: min_def)
  then show "backoff d' m i = backoff d m (Suc i)"
    by (cases i) (simp_all add: backoff_def d' min_def mult.assoc)
qed

lemma backoff_loop_eq:
  assumes "0 \<le> m" "m < 2 ^ 62"
  shows "0 \<le> d \<Longrightarrow> d < 2 ^ 62 \<Longrightarrow> backoff_loop fn n d m s =
    (map (backoff d m) [0..<length (filter (\<lambda>k. \<not> succeeds fn s k) [0..<n])], after fn n s)"
proof (induction n arbitrary: d s)
  case (Suc n)
  obtain e s' where f: "fn s = (e, s')" by (cases "fn s")
  have u: "[0..<Suc n] = 0 # map Suc [0..<n]" by (simp add: upt_conv_Cons map_Suc_upt)
  have c: "length (filter (\<lambda>k. \<not> succeeds fn s k) [0..<Suc n]) =
      (if succeeds fn s 0 then 0 else 1) + length (filter (\<lambda>k. \<not> succeeds fn s' k) [0..<n])"
    unfolding u by (simp add: filter_map comp_def succeeds_Suc f)
  show ?case
  proof (cases e)
    case None
    then have "succeeds fn s 0" by (simp add: succeeds_def f)
    with c None Suc.IH[OF Suc.prems, of s'] show ?thesis by (simp add: f del: upt_Suc)
  next
    case (Some x)
    let ?d = "if m < i64 (d * 2) then m else i64 (d * 2)"
    note b = backoff_next[OF Suc.prems assms]
    have ns: "\<not> succeeds fn s 0" using Some by (simp add: succeeds_def f)
    have m: "map (backoff d m) [0..<Suc k] = d # map (backoff ?d m) [0..<k]" for k
    proof -
      have "map (backoff d m) [0..<Suc k] = backoff d m 0 # map (backoff d m \<circ> Suc) [0..<k]"
        by (simp add: upt_conv_Cons map_Suc_upt[symmetric] del: upt_Suc)
      then show ?thesis using b(3) by (simp add: backoff_def comp_def)
    qed
    show ?thesis using c ns Some Suc.IH[OF b(1,2), of s'] m
      by (simp add: f Let_def del: upt_Suc)
  qed
qed simp

text \<open>C40. Backing off never stops at a success.  For delays that are not negative and below 2^62 nanoseconds,
  \<^verbatim>\<open>RetryWithBackoff\<close> and \<^verbatim>\<open>RetryWithJitter\<close> make all the allowed calls even after one has succeeded, and
  return no error even when all of them have failed.  The backoff sleeps once for each failed call:
  the initial delay, and then the initial delay doubled each time and cut at the maximum (the
  initial delay itself is not cut).\<close>

theorem backoff_never_stops:
  assumes "0 \<le> initialDelay" "initialDelay < 2 ^ 62" "0 \<le> maxDelay" "maxDelay < 2 ^ 62"
  shows "RetryWithBackoff fn maxAttempts initialDelay maxDelay s =
      (None, map (backoff initialDelay maxDelay)
         [0..<length (filter (\<lambda>k. \<not> succeeds fn s k) [0..<nat maxAttempts])], after fn (nat maxAttempts) s)
    \<and> (\<exists>sleeps. RetryWithJitter rnd fn maxAttempts initialDelay maxDelay s =
         (None, sleeps, after fn (nat maxAttempts) s))"
  using backoff_loop_eq[OF assms(3,4,1,2), of fn "nat maxAttempts" s]
    jitter_loop_state[of rnd fn "nat maxAttempts" initialDelay maxDelay s]
  by (simp add: RetryWithBackoff_def RetryWithJitter_def) (metis prod.collapse)

text \<open>A function that succeeds at its second call is called three more times.\<close>

theorem backoff_never_stops_witness:
  "snd (snd (RetryWithBackoff (\<lambda>n. (if n = (1 :: nat) then None else Some ErrQueueEmpty, n + 1)) 5 nsSecond nsMinute 0)) = 5"
proof -
  have d: "0 \<le> nsSecond" "nsSecond < 2 ^ 62" "0 \<le> nsMinute" "nsMinute < 2 ^ 62"
    by (simp_all add: nsSecond_def nsMinute_def)
  have "after (\<lambda>n. (if n = (1 :: nat) then None else Some ErrQueueEmpty, n + 1)) k n = n + k" for k n
    by (induction k arbitrary: n) simp_all
  then show ?thesis
    using backoff_never_stops[OF d, of "\<lambda>n. (if n = (1 :: nat) then None else Some ErrQueueEmpty, n + 1)" 5 0] by simp
qed

section \<open>Identifiers\<close>

definition letters :: string where
  "letters = ''abcdefghijklmnopqrstuvwxyzABCDEFGHIJKLMNOPQRSTUVWXYZ''"

text \<open>\<^verbatim>\<open>rand.Intn(52)\<close> is documented to be in [0, 52); \<^verbatim>\<open>make\<close> panics on a negative length.\<close>

definition RandomString :: "(nat \<Rightarrow> nat) \<Rightarrow> int \<Rightarrow> string result" where
  "RandomString rnd n = (if n < 0 then Panic else Ok (map (\<lambda>i. letters ! rnd i) [0..<nat n]))"

definition GenerateInstanceID :: "(nat \<Rightarrow> nat) \<Rightarrow> string \<Rightarrow> string result" where
  "GenerateInstanceID rnd name =
     (case RandomString rnd 8 of Ok s \<Rightarrow> Ok (name @ ''-'' @ s) | Err e \<Rightarrow> Err e | Panic \<Rightarrow> Panic)"

lemma length_letters: "length letters = 52"
  by (simp add: letters_def)

lemma GenerateInstanceID_shape:
  assumes "\<And>i. rnd i < 52"
  shows "\<exists>s. GenerateInstanceID rnd name = Ok (name @ ''-'' @ s) \<and> length s = 8 \<and> set s \<subseteq> set letters"
  using assms by (auto simp: GenerateInstanceID_def RandomString_def length_letters)

section \<open>The event bus\<close>

record event =
  ev_ID :: string
  ev_EventType :: string
  ev_CreatedAt :: instant
  ev_UpdatedAt :: instant

type_synonym 's event_handler = "event \<Rightarrow> 's \<Rightarrow> goerr option \<times> 's"

record 's EventBusImpl =
  handlers :: "string \<Rightarrow> 's event_handler list"

definition NewEventBus :: "'s EventBusImpl" where "NewEventBus = \<lparr>handlers = (\<lambda>_. [])\<rparr>"

definition Publish :: "'s EventBusImpl \<Rightarrow> event \<Rightarrow> 's \<Rightarrow> goerr option \<times> 's" where
  "Publish e ev s = (None, fold (\<lambda>h s. snd (h ev s)) (handlers e (ev_EventType ev)) s)"

definition Subscribe :: "'s EventBusImpl \<Rightarrow> string \<Rightarrow> 's event_handler \<Rightarrow> 's EventBusImpl" where
  "Subscribe e eventType h = e\<lparr>handlers := (handlers e)(eventType := handlers e eventType @ [h])\<rparr>"

text \<open>An event reaches exactly the handlers subscribed to its type, in the order of their subscriptions;
  an error of one stops none of the others and is dropped.\<close>

lemma publish_reaches_subscribers:
  "Publish (fold (\<lambda>(t, h) b. Subscribe b t h) subs NewEventBus) ev s =
     (None, fold (\<lambda>(t, h) s. if t = ev_EventType ev then snd (h ev s) else s) subs s)"
proof -
  have "handlers (fold (\<lambda>(t, h) b. Subscribe b t h) subs b) k =
      handlers b k @ map snd (filter (\<lambda>(t, h). t = k) subs)" for b k
    by (induction subs arbitrary: b) (auto simp: Subscribe_def)
  moreover have "fold (\<lambda>h s. snd (h ev s)) (map snd (filter (\<lambda>(t, h). t = ev_EventType ev) subs)) s =
      fold (\<lambda>(t, h) s. if t = ev_EventType ev then snd (h ev s) else s) subs s" for s
    by (induction subs arbitrary: s) auto
  ultimately show ?thesis by (simp add: Publish_def NewEventBus_def)
qed

end
