(* ===== verification/Metrics.thy ===== *)
theory Metrics
  imports App_Errors Floats
begin

text \<open>
  The Prometheus metrics of \<^verbatim>\<open>pkg/metrics/prometheus.go\<close>: the four maps of metric vectors, created on
  first use, the operations on them, the timer, and the two HTTP middlewares and two gRPC
  interceptors.  The client library is a parameter: how it creates a vector and what a vector does
  with label values.  A call is a function on the state; the result \<^term>\<open>None\<close> is a panic.  The
  iteration orders of the label maps and the clock readings are arguments.
\<close>

section \<open>The library and the state\<close>

datatype metric_op = OpAdd float64 | OpSet float64 | OpInc | OpDec | OpObserve float64

record vec_opts =
  vo_Namespace :: string
  vo_Name :: string
  vo_Help :: string
  vo_Buckets :: "float64 list"
  vo_Objectives :: "(float64 \<times> float64) list"

text \<open>
  \<open>NewCounterVec\<close> and its three siblings create and register a vector for some label names;
  \<open>WithLabelValues v vals op\<close> is the metric of \<open>v\<close> for these label values and an operation
  on it; \<open>MustRegisterBuildInfo\<close> registers a new build-info collector and panics when the registry has
  one; \<open>FromError\<close> is the name of the gRPC code an error carries, if it carries one.
\<close>

record ('v, 'r) prom_lib =
  NewCounterVec :: "vec_opts \<Rightarrow> string list \<Rightarrow> 'r \<Rightarrow> 'v option \<times> 'r"
  NewGaugeVec :: "vec_opts \<Rightarrow> string list \<Rightarrow> 'r \<Rightarrow> 'v option \<times> 'r"
  NewHistogramVec :: "vec_opts \<Rightarrow> string list \<Rightarrow> 'r \<Rightarrow> 'v option \<times> 'r"
  NewSummaryVec :: "vec_opts \<Rightarrow> string list \<Rightarrow> 'r \<Rightarrow> 'v option \<times> 'r"
  WithLabelValues :: "'v \<Rightarrow> string list \<Rightarrow> metric_op \<Rightarrow> 'r \<Rightarrow> unit option \<times> 'r"
  MustRegisterBuildInfo :: "'r \<Rightarrow> unit option \<times> 'r"
  DefBuckets :: "float64 list"
  FromError :: "goerr \<Rightarrow> string option"

record 'v PrometheusMetrics =
  pm_counters :: "string \<rightharpoonup> 'v"
  pm_gauges :: "string \<rightharpoonup> 'v"
  pm_histograms :: "string \<rightharpoonup> 'v"
  pm_summaries :: "string \<rightharpoonup> 'v"
  pm_namespace :: string

definition NewPrometheusMetrics :: "('v, 'r) prom_lib \<Rightarrow> string \<Rightarrow> 'r \<Rightarrow> 'v PrometheusMetrics option \<times> 'r" where
  "NewPrometheusMetrics lib namespace r =
     (case MustRegisterBuildInfo lib r of
        (None, r') \<Rightarrow> (None, r')
      | (Some _, r') \<Rightarrow>
          (Some \<lparr>pm_counters = Map.empty, pm_gauges = Map.empty, pm_histograms = Map.empty,
                 pm_summaries = Map.empty, pm_namespace = namespace\<rparr>, r'))"

text \<open>The state of a call: the metrics, the library's registry, and the rest of the program.\<close>

record ('v, 'r, 'w) metrics_world =
  mw_metrics :: "'v PrometheusMetrics"
  mw_registry :: 'r
  mw_rest :: 'w

type_synonym labels = "(string \<times> string) list"

section \<open>Vectors, created on first use\<close>

text \<open>\<open>create\<close> makes the vector with the library, \<open>put\<close> stores it in its map.\<close>

definition get_or_create ::
  "('v PrometheusMetrics \<Rightarrow> string \<rightharpoonup> 'v) \<Rightarrow> ((string \<rightharpoonup> 'v) \<Rightarrow> 'v PrometheusMetrics \<Rightarrow> 'v PrometheusMetrics)
   \<Rightarrow> ('r \<Rightarrow> 'v option \<times> 'r) \<Rightarrow> string \<Rightarrow> ('v, 'r, 'w) metrics_world \<Rightarrow> 'v option \<times> ('v, 'r, 'w) metrics_world" where
  "get_or_create get put create name w =
     (case get (mw_metrics w) name of
        Some v \<Rightarrow> (Some v, w)
      | None \<Rightarrow>
          (case create (mw_registry w) of
             (None, r) \<Rightarrow> (None, w\<lparr>mw_registry := r\<rparr>)
           | (Some v, r) \<Rightarrow>
               (Some v, w\<lparr>mw_registry := r,
                          mw_metrics := put ((get (mw_metrics w))(name \<mapsto> v)) (mw_metrics w)\<rparr>)))"

definition getCounter where
  "getCounter lib name labelNames w =
     get_or_create pm_counters (\<lambda>m. pm_counters_update (\<lambda>_. m))
       (NewCounterVec lib \<lparr>vo_Namespace = pm_namespace (mw_metrics w), vo_Name = name,
          vo_Help = name @ '' counter'', vo_Buckets = [], vo_Objectives = []\<rparr> labelNames) name w"

definition getGauge where
  "getGauge lib name labelNames w =
     get_or_create pm_gauges (\<lambda>m. pm_gauges_update (\<lambda>_. m))
       (NewGaugeVec lib \<lparr>vo_Namespace = pm_namespace (mw_metrics w), vo_Name = name,
          vo_Help = name @ '' gauge'', vo_Buckets = [], vo_Objectives = []\<rparr> labelNames) name w"

definition getHistogram where
  "getHistogram lib name labelNames w =
     get_or_create pm_histograms (\<lambda>m. pm_histograms_update (\<lambda>_. m))
       (NewHistogramVec lib \<lparr>vo_Namespace = pm_namespace (mw_metrics w), vo_Name = name,
          vo_Help = name @ '' histogram'', vo_Buckets = DefBuckets lib, vo_Objectives = []\<rparr> labelNames) name w"

definition getSummary where
  "getSummary lib name labelNames w =
     get_or_create pm_summaries (\<lambda>m. pm_summaries_update (\<lambda>_. m))
       (NewSummaryVec lib \<lparr>vo_Namespace = pm_namespace (mw_metrics w), vo_Name = name,
          vo_Help = name @ '' summary'', vo_Buckets = [],
          vo_Objectives = [(f64 (5 / 10), f64 (5 / 100)), (f64 (9 / 10), f64 (1 / 100)), (f64 (99 / 100), f64 (1 / 1000))]\<rparr>
          labelNames) name w"

section \<open>Operations\<close>

text \<open>
  Every operation ranges over the label map once, to list its names; the values follow in the same
  order.  The vector gets these names only if this call creates it.
\<close>

definition with_labels ::
  "(string list \<Rightarrow> ('v, 'r, 'w) metrics_world \<Rightarrow> 'v option \<times> ('v, 'r, 'w) metrics_world)
   \<Rightarrow> ('v, 'r) prom_lib \<Rightarrow> nat list \<Rightarrow> labels \<Rightarrow> metric_op
   \<Rightarrow> ('v, 'r, 'w) metrics_world \<Rightarrow> unit option \<times> ('v, 'r, 'w) metrics_world" where
  "with_labels get lib ord labels op w =
     (let labelNames = shuffle ord (map fst labels);
          labelValues = map (\<lambda>k. case map_of labels k of Some x \<Rightarrow> x | None \<Rightarrow> '''') labelNames
      in (case get labelNames w of
            (None, w) \<Rightarrow> (None, w)
          | (Some v, w) \<Rightarrow>
              (case WithLabelValues lib v labelValues op (mw_registry w) of
                 (res, r) \<Rightarrow> (res, w\<lparr>mw_registry := r\<rparr>))))"

definition AddToCounter where
  "AddToCounter lib ord name x labels = with_labels (getCounter lib name) lib ord labels (OpAdd x)"

definition IncrementCounter where
  "IncrementCounter lib ord name labels = AddToCounter lib ord name (Fin 1) labels"

definition SetGauge where
  "SetGauge lib ord name x labels = with_labels (getGauge lib name) lib ord labels (OpSet x)"

definition IncrementGauge where
  "IncrementGauge lib ord name labels = with_labels (getGauge lib name) lib ord labels OpInc"

definition DecrementGauge where
  "DecrementGauge lib ord name labels = with_labels (getGauge lib name) lib ord labels OpDec"

definition ObserveHistogram where
  "ObserveHistogram lib ord name x labels = with_labels (getHistogram lib name) lib ord labels (OpObserve x)"

definition ObserveSummary where
  "ObserveSummary lib ord name x labels = with_labels (getSummary lib name) lib ord labels (OpObserve x)"

text \<open>\<^verbatim>\<open>Duration.Seconds\<close>.\<close>

definition Seconds :: "duration \<Rightarrow> float64" where
  "Seconds d = f64_add (f64_of_int (go_quot d nsSecond))
     (f64_div (f64_of_int (go_rem d nsSecond)) (f64_of_int nsSecond))"

text \<open>
  The function \<^verbatim>\<open>StartTimer\<close> returns is called with the clock of that moment and with the label map
  as it is then: the map is shared with the caller.
\<close>

definition StartTimer where
  "StartTimer lib start name =
     (\<lambda>now ord labels. ObserveHistogram lib ord (name @ ''_duration_seconds'') (Seconds (time_since now start)) labels)"

section \<open>Middleware and interceptors\<close>

text \<open>A deferred call runs whether the body returned or panicked; a panic of either is one of the whole.\<close>

definition deferred :: "('s \<Rightarrow> unit option \<times> 's) \<Rightarrow> 'a option \<times> 's \<Rightarrow> 'a option \<times> 's" where
  "deferred f c = (case c of (x, s) \<Rightarrow> (case f s of (None, s) \<Rightarrow> (None, s) | (Some _, s) \<Rightarrow> (x, s)))"

text \<open>
  The four wrappers are one text with different names: count the request, raise the in-flight gauge,
  start the timer, run the handler, add the status to the label map, count the completion; then
  the deferred timer and the deferred decrement of the gauge run, on the label map as it is then.
\<close>

record metric_names =
  mn_total :: string
  mn_in_flight :: string
  mn_duration :: string
  mn_completed :: string

definition instrumented ::
  "('v, 'r) prom_lib \<Rightarrow> (nat \<Rightarrow> nat list) \<Rightarrow> instant \<Rightarrow> instant \<Rightarrow> metric_names \<Rightarrow> labels \<Rightarrow> ('a \<Rightarrow> string)
   \<Rightarrow> (('v, 'r, 'w) metrics_world \<Rightarrow> 'a option \<times> ('v, 'r, 'w) metrics_world)
   \<Rightarrow> ('v, 'r, 'w) metrics_world \<Rightarrow> 'a option \<times> ('v, 'r, 'w) metrics_world" where
  "instrumented lib ord start now n labels status_of handler w =
     (case IncrementCounter lib (ord 0) (mn_total n) labels w of
        (None, w) \<Rightarrow> (None, w)
      | (Some _, w) \<Rightarrow>
          (case IncrementGauge lib (ord 1) (mn_in_flight n) labels w of
             (None, w) \<Rightarrow> (None, w)
           | (Some _, w) \<Rightarrow>
               (case (case handler w of
                        (None, w) \<Rightarrow> (None, labels, w)
                      | (Some x, w) \<Rightarrow>
                          let labels' = AList.update ''status'' (status_of x) labels
                          in (case IncrementCounter lib (ord 2) (mn_completed n) labels' w of
                                (None, w) \<Rightarrow> (None, labels', w)
                              | (Some _, w) \<Rightarrow> (Some x, labels', w))) of
                  (res, labels', w) \<Rightarrow>
                    deferred (DecrementGauge lib (ord 4) (mn_in_flight n) labels')
                      (deferred (StartTimer lib start (mn_duration n) now (ord 3) labels') (res, w)))))"

text \<open>The reason phrases of \<^verbatim>\<open>http.StatusText\<close>; an unknown code has the empty one.\<close>

definition status_texts :: "(int \<times> string) list" where
  "status_texts =
     [(100, ''Continue''), (101, ''Switching Protocols''), (102, ''Processing''), (103, ''Early Hints''),
      (200, ''OK''), (201, ''Created''), (202, ''Accepted''), (203, ''Non-Authoritative Information''),
      (204, ''No Content''), (205, ''Reset Content''), (206, ''Partial Content''), (207, ''Multi-Status''),
      (208, ''Already Reported''), (226, ''IM Used''), (300, ''Multiple Choices''), (301, ''Moved Permanently''),
      (302, ''Found''), (303, ''See Other''), (304, ''Not Modified''), (305, ''Use Proxy''),
      (307, ''Temporary Redirect''), (308, ''Permanent Redirect''), (400, ''Bad Request''), (401, ''Unauthorized''),
      (402, ''Payment Required''), (403, ''Forbidden''), (404, ''Not Found''), (405, ''Method Not Allowed''),
      (406, ''Not Acceptable''), (407, ''Proxy Authentication Required''), (408, ''Request Timeout''),
      (409, ''Conflict''), (410, ''Gone''), (411, ''Length Required''), (412, ''Precondition Failed''),
      (413, ''Request Entity Too Large''), (414, ''Request URI Too Long''), (415, ''Unsupported Media Type''),
      (416, ''Requested Range Not Satisfiable''), (417, ''Expectation Failed''), (418, ''I'm a teapot''),
      (421, ''Misdirected Request''), (422, ''Unprocessable Entity''), (423, ''Locked''), (424, ''Failed Dependency''),
      (425, ''Too Early''), (426, ''Upgrade Required''), (428, ''Precondition Required''), (429, ''Too Many Requests''),
      (431, ''Request Header Fields Too Large''), (451, ''Unavailable For Legal Reasons''),
      (500, ''Internal Server Error''), (501, ''Not Implemented''), (502, ''Bad Gateway''), (503, ''Service Unavailable''),
      (504, ''Gateway Timeout''), (505, ''HTTP Version Not Supported''), (506, ''Variant Also Negotiates''),
      (507, ''Insufficient Storage''), (508, ''Loop Detected''), (510, ''Not Extended''),
      (511, ''Network Authentication Required'')]"

definition status_text :: "int \<Rightarrow> string" where
  "status_text code = (case map_of status_texts code of Some t \<Rightarrow> t | None \<Rightarrow> '''')"

text \<open>
  An HTTP handler is known here by the codes it passes to \<^verbatim>\<open>WriteHeader\<close>; \<^verbatim>\<open>responseWriter\<close> keeps the
  last one, and 200 at first.
\<close>

definition WriteHeader :: "int \<Rightarrow> int \<Rightarrow> int" where "WriteHeader code statusCode = code"

definition captured_status :: "int list \<Rightarrow> string" where
  "captured_status codes = status_text (fold WriteHeader codes 200)"

definition HTTPMiddleware where
  "HTTPMiddleware lib ord start now next method path =
     instrumented lib ord start now
       \<lparr>mn_total = ''http_requests_total'', mn_in_flight = ''http_in_flight_requests'',
        mn_duration = ''http_request_duration_seconds'', mn_completed = ''http_requests_completed_total''\<rparr>
       [(''method'', method), (''path'', path)] captured_status next"

definition RESTMiddleware where
  "RESTMiddleware lib ord start now next method path =
     instrumented lib ord start now
       \<lparr>mn_total = ''api_requests_total'', mn_in_flight = ''api_in_flight_requests'',
        mn_duration = ''api_request_duration_seconds'', mn_completed = ''api_requests_completed_total''\<rparr>
       [(''method'', method), (''path'', path), (''type'', ''rest'')] captured_status next"

text \<open>The status label of a gRPC call with this error.\<close>

definition grpc_status :: "('v, 'r) prom_lib \<Rightarrow> goerr option \<Rightarrow> string" where
  "grpc_status lib err =
     (case err of
        Some e \<Rightarrow> (case FromError lib e of Some c \<Rightarrow> c | None \<Rightarrow> ''Unknown'')
      | None \<Rightarrow> ''OK'')"

definition GRPCUnaryInterceptor where
  "GRPCUnaryInterceptor lib ord start now handler fullMethod =
     instrumented lib ord start now
       \<lparr>mn_total = ''grpc_requests_total'', mn_in_flight = ''grpc_in_flight_requests'',
        mn_duration = ''grpc_request_duration_seconds'', mn_completed = ''grpc_requests_completed_total''\<rparr>
       [(''method'', fullMethod), (''type'', ''unary'')] (\<lambda>(resp, err). grpc_status lib err) handler"

definition GRPCStreamInterceptor where
  "GRPCStreamInterceptor lib ord start now handler fullMethod =
     instrumented lib ord start now
       \<lparr>mn_total = ''grpc_stream_requests_total'', mn_in_flight = ''grpc_stream_in_flight_requests'',
        mn_duration = ''grpc_stream_duration_seconds'', mn_completed = ''grpc_stream_requests_completed_total''\<rparr>
       [(''method'', fullMethod), (''type'', ''stream'')] (grpc_status lib) handler"

text \<open>\<^verbatim>\<open>RegisterWithRESTServer\<close> wraps every handler of its map.\<close>

definition RegisterWithRESTServer where
  "RegisterWithRESTServer lib ord start now choices patterns mux =
     mux @ map (\<lambda>(pattern, handler). (pattern, RESTMiddleware lib ord start now handler)) (shuffle choices patterns)"

text \<open>
  \<^verbatim>\<open>SetupMetricsServer\<close> makes a server with one route and lets it listen in a goroutine of its own:
  any error of the listener but the library's \<^verbatim>\<open>ErrServerClosed\<close> is a panic, which ends the process.
\<close>

record 'h metrics_server =
  ms_Addr :: string
  ms_Handler :: "(string \<times> 'h) list"

definition SetupMetricsServer :: "'h \<Rightarrow> string \<Rightarrow> 'h metrics_server" where
  "SetupMetricsServer metricsHandler addr = \<lparr>ms_Addr = addr, ms_Handler = [(''/metrics'', metricsHandler)]\<rparr>"

definition metrics_listen :: "goerr \<Rightarrow> goerr option \<Rightarrow> unit option" where
  "metrics_listen errServerClosed err =
     (case err of None \<Rightarrow> Some () | Some e \<Rightarrow> if e \<noteq> errServerClosed then None else Some ())"

text \<open>\<^verbatim>\<open>RegisterWithGRPCServer\<close> returns the two interceptors as server options.\<close>

datatype ('u, 's) grpc_option = UnaryInterceptor 'u | StreamInterceptor 's

definition RegisterWithGRPCServer where
  "RegisterWithGRPCServer lib ord start now ord' start' now' =
     [UnaryInterceptor (GRPCUnaryInterceptor lib ord start now),
      StreamInterceptor (GRPCStreamInterceptor lib ord' start' now')]"

section \<open>The vectors only grow\<close>

definition keeps :: "('v, 'r, 'w) metrics_world \<Rightarrow> ('v, 'r, 'w) metrics_world \<Rightarrow> bool" where
  "keeps w w' \<longleftrightarrow>
     pm_counters (mw_metrics w) \<subseteq>\<^sub>m pm_counters (mw_metrics w') \<and>
     pm_gauges (mw_metrics w) \<subseteq>\<^sub>m pm_gauges (mw_metrics w') \<and>
     pm_histograms (mw_metrics w) \<subseteq>\<^sub>m pm_histograms (mw_metrics w') \<and>
     pm_summaries (mw_metrics w) \<subseteq>\<^sub>m pm_summaries (mw_metrics w')"

lemma keeps_refl [simp, intro]: "keeps w w"
  by (simp add: keeps_def)

lemma keeps_trans [trans]: "keeps a b \<Longrightarrow> keeps b c \<Longrightarrow> keeps a c"
  unfolding keeps_def by (blast intro: map_le_trans)

lemma keeps_registry [simp]: "keeps a (b\<lparr>mw_registry := r\<rparr>) = keeps a b"
  by (simp add: keeps_def)

lemma map_le_upd_new: "m k = None \<Longrightarrow> m \<subseteq>\<^sub>m m(k \<mapsto> v)"
  by (simp add: map_le_def dom_def)

lemmas get_vec_defs = getCounter_def getGauge_def getHistogram_def getSummary_def get_or_create_def

lemma get_vec_keeps:
  "keeps w (snd (getCounter lib name ns w))" "keeps w (snd (getGauge lib name ns w))"
  "keeps w (snd (getHistogram lib name ns w))" "keeps w (snd (getSummary lib name ns w))"
  by (auto simp: get_vec_defs keeps_def map_le_upd_new split: option.split prod.split)

lemma with_labels_keeps:
  assumes "\<And>ns w. keeps w (snd (get ns w))"
  shows "keeps w (snd (with_labels get lib ord labels op w))"
  using assms by (auto simp: with_labels_def Let_def split: option.split prod.split) (metis snd_conv)+

lemmas metric_ops = IncrementCounter_def AddToCounter_def SetGauge_def IncrementGauge_def DecrementGauge_def
  ObserveHistogram_def ObserveSummary_def StartTimer_def

lemma metric_ops_keep:
  "keeps w (snd (IncrementCounter lib ord name labels w))" "keeps w (snd (IncrementGauge lib ord name labels w))"
  "keeps w (snd (DecrementGauge lib ord name labels w))"
  "keeps w (snd (StartTimer lib start name now ord labels w))"
  unfolding metric_ops by (intro with_labels_keeps get_vec_keeps)+

lemma getGauge_present: "pm_gauges (mw_metrics w) name = Some v \<Longrightarrow> getGauge lib name ns w = (Some v, w)"
  by (simp add: getGauge_def get_or_create_def)

lemma getGauge_stores:
  "getGauge lib name ns w = (Some v, w') \<Longrightarrow> pm_gauges (mw_metrics w') name = Some v"
  by (auto simp: getGauge_def get_or_create_def split: option.splits prod.splits)

section \<open>Label values\<close>

text \<open>
  What the client library documents of label values: a call of \<^verbatim>\<open>WithLabelValues\<close> with another number
  of values than the vector has label names panics.
\<close>

definition label_arity :: "('v, 'r) prom_lib \<Rightarrow> ('v \<Rightarrow> nat) \<Rightarrow> bool" where
  "label_arity lib arity \<longleftrightarrow> (\<forall>v vals op r. length vals \<noteq> arity v \<longrightarrow> fst (WithLabelValues lib v vals op r) = None)"

lemma label_arityD:
  "label_arity lib arity \<Longrightarrow> WithLabelValues lib v vals op r = (Some u, r') \<Longrightarrow> length vals = arity v"
  unfolding label_arity_def by (metis fst_conv option.distinct(1))

lemma with_labels_returns:
  assumes "with_labels get lib ord labels op w = (Some u, w')" "label_arity lib arity"
  obtains v w1 where "get (shuffle ord (map fst labels)) w = (Some v, w1)" "arity v = length labels"
    "mw_metrics w' = mw_metrics w1"
proof -
  from assms(1) obtain v w1 vals r where g: "get (shuffle ord (map fst labels)) w = (Some v, w1)"
    and o: "WithLabelValues lib v vals op (mw_registry w1) = (Some u, r)" and l: "length vals = length labels"
    and w': "w' = w1\<lparr>mw_registry := r\<rparr>"
    by (auto simp: with_labels_def Let_def split: option.splits prod.splits)
  from label_arityD[OF assms(2) o] l have "arity v = length labels" by simp
  with g w' that show thesis by simp
qed

text \<open>
  A vector keeps the order of the names it was created with, but a later call passes its values in
  the order of its own iteration: every order of the values is possible.
\<close>

lemma label_values_any_order:
  assumes "pm_gauges (mw_metrics w) name = Some v" "mset ns = mset (map fst labels)"
  obtains ord where "SetGauge lib ord name x labels w =
    (case WithLabelValues lib v (map (\<lambda>k. case map_of labels k of Some y \<Rightarrow> y | None \<Rightarrow> '''') ns) (OpSet x) (mw_registry w) of
       (res, r) \<Rightarrow> (res, w\<lparr>mw_registry := r\<rparr>))"
proof -
  from shuffle_complete[OF assms(2)] obtain ord where "shuffle ord (map fst labels) = ns" ..
  then show thesis using that[of ord]
    by (simp add: SetGauge_def with_labels_def Let_def getGauge_present[OF assms(1)])
qed

text \<open>The gauge that was raised with some labels cannot be lowered with another number of them.\<close>

lemma decrement_other_labels:
  assumes "label_arity lib arity" "IncrementGauge lib ord name labels w = (Some u, w1)" "keeps w1 w2"
    and "length labels' \<noteq> length labels"
  shows "fst (DecrementGauge lib ord' name labels' w2) = None"
proof (rule ccontr)
  assume "\<not> ?thesis"
  then obtain u' w3 where d: "DecrementGauge lib ord' name labels' w2 = (Some u', w3)"
    by (cases "DecrementGauge lib ord' name labels' w2") auto
  from assms(2) obtain v w0 where 1: "getGauge lib name (shuffle ord (map fst labels)) w = (Some v, w0)"
      "arity v = length labels" "mw_metrics w1 = mw_metrics w0"
    unfolding metric_ops by (rule with_labels_returns[OF _ assms(1)])
  from getGauge_stores[OF 1(1)] 1(3) have "pm_gauges (mw_metrics w1) name = Some v" by simp
  with assms(3) have "pm_gauges (mw_metrics w2) name = Some v"
    unfolding keeps_def map_le_def by (metis domI)
  note p = getGauge_present[OF this]
  from d obtain v' w4 where 2: "getGauge lib name (shuffle ord' (map fst labels')) w2 = (Some v', w4)"
      "arity v' = length labels'"
    unfolding metric_ops by (rule with_labels_returns[OF _ assms(1)])
  from 2 1(2) assms(4) show False by (simp add: p)
qed

lemma length_update_new: "map_of xs k = None \<Longrightarrow> length (AList.update k v xs) = Suc (length xs)"
  by (induction xs) (auto split: if_splits)

lemma instrumented_panics:
  assumes a: "label_arity lib arity" and k: "\<And>w. keeps w (snd (handler w))" and l: "map_of labels ''status'' = None"
  shows "fst (instrumented lib ord start now n labels status_of handler w) = None"
proof -
  obtain x1 w1 where 1: "IncrementCounter lib (ord 0) (mn_total n) labels w = (x1, w1)" by fastforce
  obtain x2 w2 where 2: "IncrementGauge lib (ord 1) (mn_in_flight n) labels w1 = (x2, w2)" by fastforce
  obtain x3 w3 where 3: "handler w2 = (x3, w3)" by fastforce
  show ?thesis
  proof (cases "x1 = None \<or> x2 = None \<or> x3 = None")
    case True
    then show ?thesis
      by (auto simp: instrumented_def 1 2 3 deferred_def simp del: One_nat_def split: option.split prod.split)
  next
    case False
    then obtain u x where u: "x2 = Some u" and x: "x3 = Some x" and "x1 \<noteq> None" by auto
    let ?l = "AList.update ''status'' (status_of x) labels"
    obtain x4 w4 where 4: "IncrementCounter lib (ord 2) (mn_completed n) ?l w3 = (x4, w4)" by fastforce
    obtain x5 w5 where 5: "StartTimer lib start (mn_duration n) now (ord 3) ?l w4 = (x5, w5)" by fastforce
    have "keeps w2 w3" using k[of w2] 3 by simp
    also have "keeps w3 w4" using metric_ops_keep(1) 4 by (metis snd_conv)
    also have "keeps w4 w5" using metric_ops_keep(4) 5 by (metis snd_conv)
    finally have "fst (DecrementGauge lib (ord 4) (mn_in_flight n) ?l w5) = None"
      using decrement_other_labels[OF a 2[unfolded u]] length_update_new[OF l] by simp
    with \<open>x1 \<noteq> None\<close> show ?thesis
      by (auto simp: instrumented_def 1 2 3 4 5 u x deferred_def Let_def simp del: One_nat_def split: option.split prod.split)
  qed
qed

text \<open>C39. No instrumented request returns.  The status is added to the label map that the deferred decrement of the
  in-flight gauge shares, so the decrement passes one label value more than the gauge has names
  and, as the client library documents, panics: every request through one of the four wrappers ends
  in a panic, whatever the handler does, if the handler leaves the metric vectors in their maps (as
  every operation of the metrics does) and whatever was recorded before.\<close>

theorem wrapped_request_panics:
  assumes "label_arity lib arity"
    and "\<And>w. keeps w (snd (handler w))" "\<And>w. keeps w (snd (unary w))" "\<And>w. keeps w (snd (stream w))"
  shows "fst (HTTPMiddleware lib ord start now handler method path w) = None
    \<and> fst (RESTMiddleware lib ord start now handler method path w) = None
    \<and> fst (GRPCUnaryInterceptor lib ord start now unary fullMethod w) = None
    \<and> fst (GRPCStreamInterceptor lib ord start now stream fullMethod w) = None"
  unfolding HTTPMiddleware_def RESTMiddleware_def GRPCUnaryInterceptor_def GRPCStreamInterceptor_def
  by (intro conjI; rule instrumented_panics[OF assms(1)]; simp add: assms)

text \<open>
  A library that records every sample with its label pairs, and a first request that is handled with
  status 404.
\<close>

definition recording_lib :: "(string list, (labels \<times> metric_op) list) prom_lib" where
  "recording_lib =
     \<lparr>NewCounterVec = (\<lambda>_ ns r. (Some ns, r)), NewGaugeVec = (\<lambda>_ ns r. (Some ns, r)),
      NewHistogramVec = (\<lambda>_ ns r. (Some ns, r)), NewSummaryVec = (\<lambda>_ ns r. (Some ns, r)),
      WithLabelValues = (\<lambda>v vals op r. if length vals = length v then (Some (), r @ [(zip v vals, op)]) else (None, r)),
      MustRegisterBuildInfo = (\<lambda>r. (Some (), r)), DefBuckets = [], FromError = (\<lambda>_. None)\<rparr>"

theorem wrapped_request_panics_witness:
  "\<exists>p r. NewPrometheusMetrics recording_lib ''ads'' [] = (Some p, r)
    \<and> fst (HTTPMiddleware recording_lib (\<lambda>_. []) 0 nsSecond (\<lambda>w. (Some [404], w)) ''GET'' ''/x''
        \<lparr>mw_metrics = p, mw_registry = r, mw_rest = ()\<rparr>) = None"
proof -
  obtain p r where p: "NewPrometheusMetrics recording_lib ''ads'' [] = (Some p, r)"
    by (simp add: NewPrometheusMetrics_def recording_lib_def)
  have "label_arity recording_lib length" by (simp add: label_arity_def recording_lib_def)
  from wrapped_request_panics[where handler = "\<lambda>w. (Some [404], w)" and unary = "\<lambda>w. (Some ((), None), w)"
      and stream = "\<lambda>w. (Some None, w)", OF this]
  have "fst (HTTPMiddleware recording_lib (\<lambda>_. []) 0 nsSecond (\<lambda>w. (Some [404], w)) ''GET'' ''/x''
      \<lparr>mw_metrics = p, mw_registry = r, mw_rest = ()\<rparr>) = None" by (rule conjunct1) simp_all
  with p show ?thesis by blast
qed

text \<open>What this request has recorded: everything but the decrement.\<close>

lemma wrapped_request_samples:
  "NewPrometheusMetrics recording_lib ''ads'' [] = (Some p, r) \<Longrightarrow>
   map (\<lambda>(l, op). (map_of l ''status'', op)) (mw_registry (snd (HTTPMiddleware recording_lib (\<lambda>_. []) 0 nsSecond (\<lambda>w. (Some [404], w)) ''GET'' ''/x''
     \<lparr>mw_metrics = p, mw_registry = r, mw_rest = ()\<rparr>))) =
   [(None, OpAdd (Fin 1)), (None, OpInc), (Some ''Not Found'', OpAdd (Fin 1)), (Some ''Not Found'', OpObserve (Seconds nsSecond))]"
  by (clarsimp simp: NewPrometheusMetrics_def HTTPMiddleware_def instrumented_def metric_ops with_labels_def get_vec_defs recording_lib_def
    Let_def deferred_def captured_status_def WriteHeader_def status_text_def status_texts_def
    time_since_def sat64_def nsSecond_def)

end
