(* ===== verification/Logging.thy ===== *)
theory Logging
  imports Service_Config
begin

text \<open>
  The loggers of \<^verbatim>\<open>pkg/logger\<close>: the wrapper around zap (\<^verbatim>\<open>logger.go\<close>, \<^verbatim>\<open>zap.go\<close>), the request data
  kept in a context (\<^verbatim>\<open>ctx.go\<close>), and the adapter for gorm (\<^verbatim>\<open>gorm.go\<close>); and the start of the
  program, which loads the configuration (\<^verbatim>\<open>cmd/root.go\<close>).  Zap itself is a parameter: how a logger
  is built and what it does with a message.
\<close>

section \<open>Levels\<close>

datatype Level = DebugLevel | InfoLevel | WarnLevel | ErrorLevel | FatalLevel

fun level_rank :: "Level \<Rightarrow> int" where
  "level_rank DebugLevel = -1"
| "level_rank InfoLevel = 0"
| "level_rank WarnLevel = 1"
| "level_rank ErrorLevel = 2"
| "level_rank FatalLevel = 5"

lemma level_rank_inj: "level_rank a = level_rank b \<Longrightarrow> a = b"
  by (cases a; cases b) simp_all

instantiation Level :: linorder
begin

definition less_eq_Level :: "Level \<Rightarrow> Level \<Rightarrow> bool" where "a \<le> b \<longleftrightarrow> level_rank a \<le> level_rank b"
definition less_Level :: "Level \<Rightarrow> Level \<Rightarrow> bool" where "a < b \<longleftrightarrow> level_rank a < level_rank b"

instance
  by standard (auto simp: less_eq_Level_def less_Level_def intro: level_rank_inj)

end

text \<open>The names of the levels, constants of \<^verbatim>\<open>logger.go\<close>.\<close>

definition Debug :: string where "Debug = ''debug''"
definition Info :: string where "Info = ''info''"
definition Warn :: string where "Warn = ''warn''"
definition Error_level :: string where "Error_level = ''error''"
definition Fatal :: string where "Fatal = ''fatal''"

lemmas level_names = Debug_def Info_def Warn_def Error_level_def Fatal_def

definition getZapLevel :: "string \<Rightarrow> Level" where
  "getZapLevel level =
     (if level = Info then InfoLevel
      else if level = Warn then WarnLevel
      else if level = Debug then DebugLevel
      else if level = Error_level then ErrorLevel
      else if level = Fatal then FatalLevel
      else InfoLevel)"

section \<open>The zap logger\<close>

datatype Encoder = JSONEncoder | ConsoleEncoder

definition getEncoder :: "bool \<Rightarrow> Encoder" where
  "getEncoder isJSON = (if isJSON then JSONEncoder else ConsoleEncoder)"

datatype log_arg = ArgS string | ArgD int | ArgErr goerr | ArgDur duration | ArgList "log_arg list"

record Configuration =
  EnableConsole :: bool
  ConsoleJSONFormat :: bool
  ConsoleLevel :: string

text \<open>
  Zap: \<open>zap_New\<close> makes a logger of cores (an encoder and a level), \<open>zap_Logf\<close> and
  \<open>zap_Info\<close> write a message, \<open>zap_With\<close> adds fields.  \<open>'z\<close> is a sugared logger, \<open>'o\<close> the output.
\<close>

record ('z, 'o) zap =
  zap_New :: "(Encoder \<times> Level) list \<Rightarrow> 'z"
  zap_Logf :: "'z \<Rightarrow> Level \<Rightarrow> string \<Rightarrow> log_arg list \<Rightarrow> 'o \<Rightarrow> 'o"
  zap_Info :: "'z \<Rightarrow> log_arg list \<Rightarrow> 'o \<Rightarrow> 'o"
  zap_With :: "'z \<Rightarrow> log_arg list \<Rightarrow> 'z"

record 'z zapLogger = sugaredLogger :: 'z

definition newZapLogger :: "('z, 'o) zap \<Rightarrow> Configuration \<Rightarrow> 'z zapLogger result" where
  "newZapLogger zap config =
     (let cores = (if EnableConsole config
                   then [(getEncoder (ConsoleJSONFormat config), getZapLevel (ConsoleLevel config))] else [])
      in Ok \<lparr>sugaredLogger = zap_New zap cores\<rparr>)"

definition Debugf where "Debugf zap l format args = zap_Logf zap (sugaredLogger l) DebugLevel format args"
definition Infof where "Infof zap l format args = zap_Logf zap (sugaredLogger l) InfoLevel format args"
definition Infow where "Infow zap l args = zap_Info zap (sugaredLogger l) [ArgList args]"
definition Warnf where "Warnf zap l format args = zap_Logf zap (sugaredLogger l) WarnLevel format args"
definition log_Errorf where "log_Errorf zap l format args = zap_Logf zap (sugaredLogger l) ErrorLevel format args"

definition Fatalf where
  "Fatalf zap l (err :: goerr) format args = zap_Logf zap (sugaredLogger l) FatalLevel format args"

text \<open>The fields are a map; its iteration order is chosen by \<open>ord\<close>.\<close>

definition WithFields ::
  "('z, 'o) zap \<Rightarrow> nat list \<Rightarrow> 'z zapLogger \<Rightarrow> (string \<times> log_arg) list \<Rightarrow> 'z zapLogger" where
  "WithFields zap ord l kvs =
     \<lparr>sugaredLogger = zap_With zap (sugaredLogger l) (concat (map (\<lambda>(k, v). [ArgS k, v]) (shuffle ord kvs)))\<rparr>"

text \<open>\<^verbatim>\<open>NewLogger\<close>; an error of the constructor would be a panic.\<close>

definition NewLogger :: "('z, 'o) zap \<Rightarrow> Config \<Rightarrow> 'z zapLogger result" where
  "NewLogger zap cfg =
     (case newZapLogger zap \<lparr>EnableConsole = True, ConsoleJSONFormat = (Format (Logging cfg) = ''json''),
             ConsoleLevel = Level (Logging cfg)\<rparr> of
        Err e \<Rightarrow> Panic
      | Panic \<Rightarrow> Panic
      | Ok l \<Rightarrow> Ok l)"

lemma NewLogger_ok:
  "NewLogger zap cfg =
     Ok \<lparr>sugaredLogger = zap_New zap [(getEncoder (Format (Logging cfg) = ''json''), getZapLevel (Level (Logging cfg)))]\<rparr>"
  by (simp add: NewLogger_def newZapLogger_def)

text \<open>Of the five level names each gives its level; any other text gives the default.\<close>

lemma getZapLevel_image: "getZapLevel s = InfoLevel \<or> s \<in> {Warn, Debug, Error_level, Fatal}"
  by (simp add: getZapLevel_def)

lemma getZapLevel_names:
  "map getZapLevel [Debug, Info, Warn, Error_level, Fatal] = [DebugLevel, InfoLevel, WarnLevel, ErrorLevel, FatalLevel]"
  by (simp add: getZapLevel_def level_names)

text \<open>The error handed to \<^verbatim>\<open>Fatalf\<close> is not written.\<close>

lemma Fatalf_drops_error: "Fatalf zap l e format args = Fatalf zap l e' format args"
  by (simp add: Fatalf_def)

section \<open>The package's own logger\<close>

text \<open>
  The variable \<^verbatim>\<open>log\<close> of the package: nil (\<^term>\<open>None\<close>) until \<^verbatim>\<open>NewLogger\<close> assigns it.  The functions
  of the package call its methods; on nil that is a panic.  \<^verbatim>\<open>Enqueue\<close> and \<^verbatim>\<open>Complete\<close> of the queue log
  this way.
\<close>

definition on_log :: "('z zapLogger \<Rightarrow> 'b) \<Rightarrow> 'z zapLogger option \<Rightarrow> 'b result" where
  "on_log f lg = (case lg of None \<Rightarrow> Panic | Some l \<Rightarrow> Ok (f l))"

definition pkg_Debugf where "pkg_Debugf zap lg format args out = on_log (\<lambda>l. Debugf zap l format args out) lg"
definition pkg_Infof where "pkg_Infof zap lg format args out = on_log (\<lambda>l. Infof zap l format args out) lg"
definition pkg_Warnf where "pkg_Warnf zap lg format args out = on_log (\<lambda>l. Warnf zap l format args out) lg"
definition pkg_Errorf where "pkg_Errorf zap lg format args out = on_log (\<lambda>l. log_Errorf zap l format args out) lg"
definition pkg_Fatalf where "pkg_Fatalf zap lg err format args out = on_log (\<lambda>l. Fatalf zap l err format args out) lg"
definition pkg_WithFields where "pkg_WithFields zap ord lg kvs = on_log (\<lambda>l. WithFields zap ord l kvs) lg"

definition install_logger :: "('z, 'o) zap \<Rightarrow> Config \<Rightarrow> 'z zapLogger option \<Rightarrow> 'z zapLogger option" where
  "install_logger zap cfg lg = (case NewLogger zap cfg of Ok l \<Rightarrow> Some l | _ \<Rightarrow> lg)"

text \<open>
  Before \<^verbatim>\<open>NewLogger\<close> every function of the package panics; from then on each writes with the level
  of its name, under the configured level and encoder.  Both commands call \<^verbatim>\<open>NewLogger\<close> first.
\<close>

lemma package_logger:
  "pkg_Infof zap None format args out = Panic" "pkg_Errorf zap None format args out = Panic"
  "pkg_Infof zap (install_logger zap cfg lg) format args out =
     Ok (zap_Logf zap (zap_New zap [(getEncoder (Format (Logging cfg) = ''json''), getZapLevel (Level (Logging cfg)))])
          InfoLevel format args out)"
  "pkg_Errorf zap (install_logger zap cfg lg) format args out =
     Ok (zap_Logf zap (zap_New zap [(getEncoder (Format (Logging cfg) = ''json''), getZapLevel (Level (Logging cfg)))])
          ErrorLevel format args out)"
  by (simp_all add: pkg_Infof_def pkg_Errorf_def on_log_def install_logger_def NewLogger_ok Infof_def log_Errorf_def)

section \<open>Contexts\<close>

text \<open>
  A context key is a value of a type: the packages' two key types are two constructors.  The text
  of one is not the other, whatever the strings.
\<close>

datatype ctx_key = ContextKey string | CtxKey string
datatype ctx_value = CtxString string | CtxTime instant

type_synonym go_context = "(ctx_key \<times> ctx_value) list option"

definition RqIDCtxKey :: ctx_key where "RqIDCtxKey = ContextKey ''request_id''"
definition RqClientIPCtxKey :: ctx_key where "RqClientIPCtxKey = ContextKey ''client_ip''"
definition RqExecTimeCtxKey :: ctx_key where "RqExecTimeCtxKey = ContextKey ''exec_time''"
definition RqURICtxKey :: ctx_key where "RqURICtxKey = ContextKey ''request_uri''"
definition withCtx :: ctx_key where "withCtx = CtxKey ''withCtx''"

lemmas ctx_keys = RqIDCtxKey_def RqClientIPCtxKey_def RqExecTimeCtxKey_def RqURICtxKey_def withCtx_def

text \<open>A nil context is \<^term>\<open>None\<close>; \<^verbatim>\<open>context.WithValue\<close> panics on it.\<close>

definition WithValue :: "go_context \<Rightarrow> ctx_key \<Rightarrow> ctx_value \<Rightarrow> go_context result" where
  "WithValue ctx k v = (case ctx of None \<Rightarrow> Panic | Some xs \<Rightarrow> Ok (Some ((k, v) # xs)))"

definition ctx_Value :: "go_context \<Rightarrow> ctx_key \<Rightarrow> ctx_value option" where
  "ctx_Value ctx k = (case ctx of None \<Rightarrow> None | Some xs \<Rightarrow> map_of xs k)"

definition getStringFromCtx :: "go_context \<Rightarrow> ctx_key \<Rightarrow> string" where
  "getStringFromCtx ctx key = (case ctx_Value ctx key of Some (CtxString v) \<Rightarrow> v | _ \<Rightarrow> '''')"

definition GetRqIDFromCtx where "GetRqIDFromCtx ctx = getStringFromCtx ctx RqIDCtxKey"
definition GetRqClientIPFromCtx where "GetRqClientIPFromCtx ctx = getStringFromCtx ctx RqClientIPCtxKey"
definition GetRqURIFromCtx where "GetRqURIFromCtx ctx = getStringFromCtx ctx RqURICtxKey"
definition NewRequestID :: "string \<Rightarrow> string" where "NewRequestID uuid = uuid"
definition WithRqID where "WithRqID ctx rqID = WithValue ctx RqIDCtxKey (CtxString rqID)"
definition SetRqIDToCtx where "SetRqIDToCtx uuid ctx = WithValue ctx RqIDCtxKey (CtxString (NewRequestID uuid))"
definition SetTimeToCtx where "SetTimeToCtx now ctx = WithValue ctx RqExecTimeCtxKey (CtxTime now)"

definition GetRqExecTimeFromCtx :: "instant \<Rightarrow> go_context \<Rightarrow> float64" where
  "GetRqExecTimeFromCtx now ctx =
     (case ctx_Value ctx RqExecTimeCtxKey of
        Some (CtxTime val) \<Rightarrow> f64_div (f64_of_int (time_since now val)) (f64_of_int 1000000)
      | _ \<Rightarrow> Fin 0)"

definition Context :: "('z, 'o) zap \<Rightarrow> 'z zapLogger \<Rightarrow> go_context \<Rightarrow> 'z zapLogger" where
  "Context zap l ctx =
     (case ctx_Value ctx withCtx of
        Some (CtxString ctxRqID) \<Rightarrow> WithFields zap [] l [(''rqID'', ArgS ctxRqID)]
      | _ \<Rightarrow> l)"

text \<open>What is put into a context is read back, and nothing else changes.\<close>

lemma context_roundtrip:
  assumes "WithRqID ctx i = Ok ctx'"
  shows "GetRqIDFromCtx ctx' = i \<and> GetRqClientIPFromCtx ctx' = GetRqClientIPFromCtx ctx
    \<and> GetRqURIFromCtx ctx' = GetRqURIFromCtx ctx \<and> GetRqExecTimeFromCtx now ctx' = GetRqExecTimeFromCtx now ctx"
proof -
  have "ctx_Value ctx' k = (if k = RqIDCtxKey then Some (CtxString i) else ctx_Value ctx k)" for k
    using assms by (cases ctx) (auto simp: WithRqID_def WithValue_def ctx_Value_def)
  then show ?thesis
    by (simp add: GetRqIDFromCtx_def GetRqClientIPFromCtx_def GetRqURIFromCtx_def GetRqExecTimeFromCtx_def
        getStringFromCtx_def ctx_keys)
qed

text \<open>
  The contextual logger looks for a key that no function of the package sets: the identifier of the
  request, whichever way it was put into the context, never reaches a log entry.
\<close>

lemma context_logger_ignores_request:
  assumes "WithRqID ctx i = Ok ctx' \<or> SetRqIDToCtx i ctx = Ok ctx' \<or> SetTimeToCtx now ctx = Ok ctx'"
  shows "Context zap l ctx' = Context zap l ctx"
proof -
  have "ctx_Value ctx' withCtx = ctx_Value ctx withCtx"
    using assms
    by (cases ctx) (auto simp: WithRqID_def SetRqIDToCtx_def SetTimeToCtx_def WithValue_def ctx_Value_def ctx_keys)
  then show ?thesis by (simp add: Context_def)
qed

section \<open>The gorm adapter\<close>

text \<open>The levels are gorm's; only their order and the comparison with 0 matter to the code.\<close>

record gorm_levels =
  gorm_Silent :: int
  gorm_Error :: int
  gorm_Warn :: int
  gorm_Info :: int

record 'z ZapGormLogger =
  g_zapLogger :: 'z
  g_logLevel :: int

definition NewZapGormLogger where "NewZapGormLogger z level = \<lparr>g_zapLogger = z, g_logLevel = level\<rparr>"
definition LogMode :: "'z ZapGormLogger \<Rightarrow> int \<Rightarrow> 'z ZapGormLogger" where "LogMode l level = l\<lparr>g_logLevel := level\<rparr>"

definition gorm_info where
  "gorm_info lv zap l msg data out =
     (if gorm_Info lv \<le> g_logLevel l then zap_Logf zap (g_zapLogger l) InfoLevel msg data out else out)"
definition gorm_warn where
  "gorm_warn lv zap l msg data out =
     (if gorm_Warn lv \<le> g_logLevel l then zap_Logf zap (g_zapLogger l) WarnLevel msg data out else out)"
definition gorm_error where
  "gorm_error lv zap l msg data out =
     (if gorm_Error lv \<le> g_logLevel l then zap_Logf zap (g_zapLogger l) ErrorLevel msg data out else out)"

definition Trace ::
  "('z, 'o) zap \<Rightarrow> 'z ZapGormLogger \<Rightarrow> instant \<Rightarrow> instant \<Rightarrow> (unit \<Rightarrow> string \<times> int) \<Rightarrow> goerr option \<Rightarrow> 'o \<Rightarrow> 'o" where
  "Trace zap l now begn fc err out =
     (if g_logLevel l \<le> 0 then out
      else let elapsed = time_since now begn; (sql, rows) = fc () in
        (case err of
           Some e \<Rightarrow> zap_Logf zap (g_zapLogger l) ErrorLevel ''SQL: %s, Rows affected: %d, Error: %s, Elapsed: %s''
             [ArgS sql, ArgD rows, ArgErr e, ArgDur elapsed] out
         | None \<Rightarrow>
             if nsSecond < elapsed
             then zap_Logf zap (g_zapLogger l) WarnLevel ''Slow query detected. SQL: %s, Rows affected: %d, Elapsed: %s''
               [ArgS sql, ArgD rows, ArgDur elapsed] out
             else zap_Logf zap (g_zapLogger l) DebugLevel ''SQL: %s, Rows affected: %d, Elapsed: %s''
               [ArgS sql, ArgD rows, ArgDur elapsed] out))"

text \<open>
  Gorm's silent level is documented to be 1, the lowest: a logger in that mode still traces, exactly
  as at every higher level.
\<close>

lemma silent_mode_traces:
  assumes "gorm_Silent lv = 1" and "0 < g_logLevel l"
  shows "Trace zap (LogMode l (gorm_Silent lv)) now begn fc err out = Trace zap l now begn fc err out"
  using assms by (simp add: Trace_def LogMode_def Let_def split: option.split prod.split)

section \<open>The start of the program\<close>

text \<open>
  \<^verbatim>\<open>main\<close> runs the command tree (the cobra library's) and leaves with status 1 when it returns an
  error; \<^verbatim>\<open>Execute\<close> passes the error on.
\<close>

definition Execute :: "('w \<Rightarrow> goerr option \<times> 'w) \<Rightarrow> 'w \<Rightarrow> goerr option \<times> 'w" where
  "Execute rootCmd w = (case rootCmd w of (Some err, w) \<Rightarrow> (Some err, w) | (None, w) \<Rightarrow> (None, w))"

definition main :: "('w \<Rightarrow> goerr option \<times> 'w) \<Rightarrow> 'w \<Rightarrow> int \<times> 'w" where
  "main rootCmd w = (case Execute rootCmd w of (Some err, w) \<Rightarrow> (1, w) | (None, w) \<Rightarrow> (0, w))"


text \<open>\<^term>\<open>None\<close> is the exit with status 1.\<close>

definition initConfig :: "viper \<Rightarrow> Config option" where
  "initConfig v =
     (case LoadConfig v ''config.yaml'' of
        Ok cfg \<Rightarrow> (case Validate cfg of Ok _ \<Rightarrow> Some cfg | _ \<Rightarrow> None)
      | _ \<Rightarrow> None)"

lemma Validate_valid: "valid_config c \<Longrightarrow> Validate c = Ok ()"
  using Validate_cases[of c] by auto

lemma LoadConfig_file: "LoadConfig v path = Ok cfg \<Longrightarrow> path \<noteq> '''' \<Longrightarrow> ReadInConfig v path = None"
  by (auto simp: LoadConfig_def split: option.splits)

text \<open>
  The program starts only with a readable configuration file, never on the defaults alone, and its
  second validation never fails.
\<close>

lemma initConfig_eq:
  "initConfig v = (case LoadConfig v ''config.yaml'' of Ok cfg \<Rightarrow> Some cfg | _ \<Rightarrow> None)"
  "initConfig v = Some cfg \<Longrightarrow> ReadInConfig v ''config.yaml'' = None \<and> valid_config cfg"
proof -
  show 1: "initConfig v = (case LoadConfig v ''config.yaml'' of Ok cfg \<Rightarrow> Some cfg | _ \<Rightarrow> None)"
    by (auto simp: initConfig_def Validate_valid dest!: LoadConfig_valid split: result.split)
  show "initConfig v = Some cfg \<Longrightarrow> ReadInConfig v ''config.yaml'' = None \<and> valid_config cfg"
    by (auto simp: 1 intro: LoadConfig_valid dest: LoadConfig_file split: result.splits)
qed

end
