(* ===== verification/Messaging.thy ===== *)
theory Messaging
  imports Prelude
begin

text \<open>
  The message brokers of \<^verbatim>\<open>pkg/messaging\<close> over Kafka and RabbitMQ.  The two client libraries are
  parameters that act on a state \<open>'s\<close>; a stream of deliveries is the list of what arrives until the
  library closes it.  A handler acts on the same state.
\<close>

section \<open>RabbitMQ\<close>

text \<open>\<open>'c\<close> is a connection, \<open>'h\<close> a channel.\<close>

record ('c, 'h, 's) amqp_client =
  amqp_Dial :: "string \<Rightarrow> 's \<Rightarrow> (goerr + 'c) \<times> 's"
  amqp_Channel :: "'c \<Rightarrow> 's \<Rightarrow> (goerr + 'h) \<times> 's"
  amqp_Close :: "'h \<Rightarrow> 's \<Rightarrow> 's"
  amqp_Publish :: "'h \<Rightarrow> string \<Rightarrow> string \<Rightarrow> string \<Rightarrow> string \<Rightarrow> 's \<Rightarrow> goerr option \<times> 's"
  amqp_QueueDeclare :: "'h \<Rightarrow> string \<Rightarrow> 's \<Rightarrow> (goerr + string) \<times> 's"
  amqp_Consume :: "'h \<Rightarrow> string \<Rightarrow> 's \<Rightarrow> (goerr + string list) \<times> 's"

definition NewRabbitMQ :: "('c, 'h, 's) amqp_client \<Rightarrow> string \<Rightarrow> 's \<Rightarrow> (goerr + 'c) \<times> 's" where
  "NewRabbitMQ lib url = amqp_Dial lib url"

text \<open>The channel that is opened is closed on every return: the deferred call.\<close>

definition with_channel ::
  "('c, 'h, 's) amqp_client \<Rightarrow> 'c \<Rightarrow> ('h \<Rightarrow> 's \<Rightarrow> goerr option \<times> 's) \<Rightarrow> 's \<Rightarrow> goerr option \<times> 's" where
  "with_channel lib conn body s =
     (case amqp_Channel lib conn s of
        (Inl err, s) \<Rightarrow> (Some err, s)
      | (Inr ch, s) \<Rightarrow> (case body ch s of (res, s) \<Rightarrow> (res, amqp_Close lib ch s)))"

definition rabbit_Publish ::
  "('c, 'h, 's) amqp_client \<Rightarrow> 'c \<Rightarrow> string \<Rightarrow> string \<Rightarrow> 's \<Rightarrow> goerr option \<times> 's" where
  "rabbit_Publish lib conn topic message =
     with_channel lib conn (\<lambda>ch. amqp_Publish lib ch topic '''' ''text/plain'' message)"

definition rabbit_Subscribe ::
  "('c, 'h, 's) amqp_client \<Rightarrow> 'c \<Rightarrow> string \<Rightarrow> (string \<Rightarrow> 's \<Rightarrow> 's) \<Rightarrow> 's \<Rightarrow> goerr option \<times> 's" where
  "rabbit_Subscribe lib conn topic handler =
     with_channel lib conn (\<lambda>ch s.
       case amqp_QueueDeclare lib ch topic s of
         (Inl err, s) \<Rightarrow> (Some err, s)
       | (Inr name, s) \<Rightarrow>
           (case amqp_Consume lib ch name s of
              (Inl err, s) \<Rightarrow> (Some err, s)
            | (Inr msgs, s) \<Rightarrow> (None, fold handler msgs s)))"

section \<open>Kafka\<close>

datatype kafka_event = KafkaMessage string | KafkaError goerr | KafkaOther

record ('p, 'c, 's) kafka_client =
  kafka_NewProducer :: "string \<Rightarrow> 's \<Rightarrow> (goerr + 'p) \<times> 's"
  kafka_NewConsumer :: "string \<Rightarrow> 's \<Rightarrow> (goerr + 'c) \<times> 's"
  kafka_Produce :: "'p \<Rightarrow> string \<Rightarrow> string \<Rightarrow> 's \<Rightarrow> goerr option \<times> 's"
  kafka_SubscribeTopic :: "'c \<Rightarrow> string \<Rightarrow> 's \<Rightarrow> goerr option \<times> 's"
  kafka_Events :: "'c \<Rightarrow> 's \<Rightarrow> kafka_event list \<times> 's"
  kafka_CloseConsumer :: "'c \<Rightarrow> 's \<Rightarrow> goerr option \<times> 's"

record ('p, 'c) Kafka =
  producer :: 'p
  consumer :: 'c

fun join :: "string \<Rightarrow> string list \<Rightarrow> string" where
  "join sep [] = ''''"
| "join sep [x] = x"
| "join sep (x # y # xs) = x @ sep @ join sep (y # xs)"

definition NewKafka ::
  "('p, 'c, 's) kafka_client \<Rightarrow> string list \<Rightarrow> 's \<Rightarrow> (goerr + ('p, 'c) Kafka) \<times> 's" where
  "NewKafka lib brokers s =
     (case kafka_NewProducer lib (join '','' brokers) s of
        (Inl err, s) \<Rightarrow> (Inl err, s)
      | (Inr p, s) \<Rightarrow>
          (case kafka_NewConsumer lib (join '','' brokers) s of
             (Inl err, s) \<Rightarrow> (Inl err, s)
           | (Inr c, s) \<Rightarrow> (Inr \<lparr>producer = p, consumer = c\<rparr>, s)))"

definition kafka_Publish ::
  "('p, 'c, 's) kafka_client \<Rightarrow> ('p, 'c) Kafka \<Rightarrow> string \<Rightarrow> string \<Rightarrow> 's \<Rightarrow> goerr option \<times> 's" where
  "kafka_Publish lib k topic message s = kafka_Produce lib (producer k) topic message s"

fun event_loop :: "(string \<Rightarrow> 's \<Rightarrow> 's) \<Rightarrow> kafka_event list \<Rightarrow> 's \<Rightarrow> goerr option \<times> 's" where
  "event_loop handler [] s = (None, s)"
| "event_loop handler (KafkaMessage m # es) s = event_loop handler es (handler m s)"
| "event_loop handler (KafkaError e # es) s = (Some e, s)"
| "event_loop handler (KafkaOther # es) s = event_loop handler es s"

definition kafka_Subscribe ::
  "('p, 'c, 's) kafka_client \<Rightarrow> ('p, 'c) Kafka \<Rightarrow> string \<Rightarrow> (string \<Rightarrow> 's \<Rightarrow> 's) \<Rightarrow> 's \<Rightarrow> goerr option \<times> 's" where
  "kafka_Subscribe lib k topic handler s =
     (case kafka_SubscribeTopic lib (consumer k) topic s of
        (Some err, s) \<Rightarrow> (Some err, s)
      | (None, s) \<Rightarrow>
          (case kafka_Events lib (consumer k) s of
             (es, s) \<Rightarrow> (case event_loop handler es s of
                (res, s) \<Rightarrow> (res, snd (kafka_CloseConsumer lib (consumer k) s)))))"

definition kafka_Close :: "('p, 'c, 's) kafka_client \<Rightarrow> ('p, 'c) Kafka \<Rightarrow> 's \<Rightarrow> goerr option \<times> 's" where
  "kafka_Close lib k s = kafka_CloseConsumer lib (consumer k) s"

section \<open>The messages a subscription handles\<close>

definition messages :: "kafka_event list \<Rightarrow> string list" where
  "messages es = concat (map (\<lambda>e. case e of KafkaMessage m \<Rightarrow> [m] | _ \<Rightarrow> []) es)"

definition first_error :: "kafka_event list \<Rightarrow> kafka_event option" where
  "first_error es = find (\<lambda>e. \<exists>x. e = KafkaError x) es"

text \<open>The handler sees the messages before the first error, in order; the error is returned.\<close>

lemma event_loop_eq:
  "event_loop handler es s =
     ((case first_error es of Some (KafkaError x) \<Rightarrow> Some x | _ \<Rightarrow> None),
      fold handler (messages (takeWhile (\<lambda>e. \<forall>x. e \<noteq> KafkaError x) es)) s)"
  by (induction handler es s rule: event_loop.induct) (simp_all add: first_error_def messages_def)

text \<open>A subscription whose channel, queue and consumer could be had handles every message, and closes the channel.\<close>

lemma rabbit_subscribe_handles:
  assumes "amqp_Channel lib conn s = (Inr ch, s1)" and "amqp_QueueDeclare lib ch topic s1 = (Inr name, s2)"
    and "amqp_Consume lib ch name s2 = (Inr msgs, s3)"
  shows "rabbit_Subscribe lib conn topic handler s = (None, amqp_Close lib ch (fold handler msgs s3))"
  using assms by (simp add: rabbit_Subscribe_def with_channel_def)

end
