(* ===== verification/Validation.thy ===== *)
theory Validation
  imports Prelude
begin

text \<open>
  The validation wrapper (\<^verbatim>\<open>pkg/utils/validate.go\<close>).  The library that checks the tags of a struct is a
  parameter: \<open>'v\<close> is a validator with the rules registered on it, \<open>'x\<close> the values it checks and
  \<open>'f\<close> a custom rule.
\<close>

record ('v, 'x, 'f) validator_lib =
  vl_New :: 'v
  vl_Struct :: "'v \<Rightarrow> 'x \<Rightarrow> goerr option"
  vl_RegisterValidation :: "'v \<Rightarrow> string \<Rightarrow> 'f \<Rightarrow> goerr option \<times> 'v"

record 'v defaultValidator = vd_validate :: 'v

definition NewValidator :: "('v, 'x, 'f) validator_lib \<Rightarrow> 'v defaultValidator" where
  "NewValidator lib = \<lparr>vd_validate = vl_New lib\<rparr>"

definition ValidateStruct :: "('v, 'x, 'f) validator_lib \<Rightarrow> 'v defaultValidator \<Rightarrow> 'x \<Rightarrow> goerr option" where
  "ValidateStruct lib v s = vl_Struct lib (vd_validate v) s"

definition RegisterCustomValidation ::
  "('v, 'x, 'f) validator_lib \<Rightarrow> 'v defaultValidator \<Rightarrow> string \<Rightarrow> 'f \<Rightarrow> goerr option \<times> 'v defaultValidator" where
  "RegisterCustomValidation lib v tag fn =
     (case vl_RegisterValidation lib (vd_validate v) tag fn of (err, v') \<Rightarrow> (err, v\<lparr>vd_validate := v'\<rparr>))"

text \<open>The instance of the package, made once; nothing registers a rule on it.\<close>

definition defaultInstance :: "('v, 'x, 'f) validator_lib \<Rightarrow> 'v defaultValidator" where
  "defaultInstance lib = NewValidator lib"

definition validate_Validate :: "('v, 'x, 'f) validator_lib \<Rightarrow> 'x \<Rightarrow> goerr option" where
  "validate_Validate lib v = ValidateStruct lib (defaultInstance lib) v"

text \<open>
  The handlers validate with the library's own rules: a rule registered on a validator of one's own
  is checked by that validator and not by \<^verbatim>\<open>Validate\<close>.
\<close>

lemma custom_rule_is_local:
  assumes "RegisterCustomValidation lib (NewValidator lib) tag fn = (None, v)"
  shows "ValidateStruct lib v x = vl_Struct lib (snd (vl_RegisterValidation lib (vl_New lib) tag fn)) x"
    and "validate_Validate lib x = vl_Struct lib (vl_New lib) x"
  using assms
  by (auto simp: RegisterCustomValidation_def NewValidator_def ValidateStruct_def validate_Validate_def
      defaultInstance_def split: prod.splits)

end
