(* ===== verification/Spec2Isabelle.thy ===== *)
theory Spec2Isabelle
  imports Thread_Runs Http_Api Queue_Maintenance Queue_Progress Life_Cycle Queue_Spec Heap_Views Shared_Redis Abandoned Go_Utils
    Metrics Logging Messaging Validation
begin

text \<open>
  A model of the game ad service: a Go program that takes advertisements over HTTP, keeps them in a
  repository, orders them in a priority queue, and lets workers analyse them.

  \<^bold>\<open>The program.\<close>  An ad (\<^verbatim>\<open>internal/domain/models\<close>) is submitted to \<^verbatim>\<open>POST /ads\<close>
  (\<^verbatim>\<open>internal/api\<close>), saved by the service (\<^verbatim>\<open>internal/service\<close>) in the memory repository
  (\<^verbatim>\<open>internal/storage/memory\<close>) and put into the queue (\<^verbatim>\<open>internal/processor/queue.go\<close>), whose order is
  kept by a cache: the memory repository again, or Redis (\<^verbatim>\<open>internal/storage/cache\<close>).  The workers of a
  pool (\<^verbatim>\<open>worker.go\<close>) take ads with \<^verbatim>\<open>Dequeue\<close>, analyse them (\<^verbatim>\<open>analyzer.go\<close>) and finish them with
  \<^verbatim>\<open>Complete\<close>; a maintenance loop requeues, ages and boosts.  Two commands (\<^verbatim>\<open>cmd\<close>) start an API server
  with one worker, or a process of workers only.  An ad goes from submitted to queued to processing
  to completed; versions and locks in the repository are meant to keep workers apart.

  \<^bold>\<open>The theories.\<close>
  \<^item> \<open>Prelude\<close>: Go's 64-bit integers (\<open>i64\<close> after every operation that may wrap), instants and
    durations, results (\<open>Ok\<close>, \<open>Err\<close>, \<open>Panic\<close>) with the program's error values, the iteration order of a
    map (\<open>shuffle\<close>), \<^verbatim>\<open>sort.Slice\<close> over a strict weak order (a locale, interpreted by each comparison).
  \<^item> \<open>Floats\<close>: binary64 arithmetic, rounding to nearest even; a locale for monotone rounding.
  \<^item> \<open>Ad_Model\<close>: \<^verbatim>\<open>models/ad.go\<close> and \<^verbatim>\<open>enum.go\<close>; priority aging in floating point and its bounds.
  \<^item> \<open>Memory_Store\<close>: every method of \<^verbatim>\<open>memory_store.go\<close>, and the dispatch on \<^verbatim>\<open>CacheRepository\<close>.  The
    ads are an association list in the place of the Go map.  The lock service and the versioned store are
    locales (mutual exclusion, no lost update), interpreted on the model's own operations.
  \<^item> \<open>Heap_Store\<close>, \<open>Heap_Views\<close>: the same methods with a heap of ads and pointers, copied where the code
    copies them, and the proof that no caller can tell this repository from the one of values.
  \<^item> \<open>Redis_Cache\<close>: every method of \<^verbatim>\<open>redis.go\<close> over a client that is a parameter; \<open>redis_documented\<close>
    is what the Redis documentation promises of it, and \<open>ref_client\<close> a client that keeps the promise.
  \<^item> \<open>Priority_Queue\<close>: \<^verbatim>\<open>queue.go\<close>.  \<open>Queue_Lemmas\<close>, \<open>Queue_Dequeue\<close>, \<open>Queue_Complete\<close>: what
    \<^verbatim>\<open>Enqueue\<close>, \<^verbatim>\<open>Dequeue\<close> and \<^verbatim>\<open>Complete\<close> do on every branch.  \<open>Queue_Invariants\<close>: properties of the
    stored ads, in a locale for those that a change of the effective priority keeps and an extension
    for those that every change of an ad keeps, with three interpretations.
    \<open>Queue_Maintenance\<close>: the scans (a locale for a pass over a list of ads, interpreted by each).
    \<open>Queue_Progress\<close>: successive calls of \<^verbatim>\<open>Dequeue\<close>, in the order of the priorities, to the end.
    \<open>Life_Cycle\<close>: the fields that an ad's status determines (the first of the two locales again).
    \<open>Queue_Spec\<close>: the abstract bounded priority queue, and the simulation by the code's calls.
  \<^item> \<open>Ad_Analyzer\<close>, \<open>Ad_Worker\<close>, \<open>Worker_Pool\<close>: \<^verbatim>\<open>analyzer.go\<close> and \<^verbatim>\<open>worker.go\<close>: the analysis, the
    loop of a worker, the life cycle of workers and pool, the auto-scaler.
  \<^item> \<open>Interleaving\<close>, \<open>Thread_Runs\<close>: any number of threads whose atomic steps are the calls of the
    repository; inductive step and run relations, the invariant of a run, and the proof that each
    operation of the code, run alone, is a run of its thread.  \<open>Abandoned\<close>: runs with the ads that
    were given up, which are exactly the ads that end neither in the queue nor at a result.
  \<^item> \<open>App_Errors\<close>, \<open>Ad_Service\<close>, \<open>Http_Api\<close>: \<^verbatim>\<open>pkg/errors\<close>, \<^verbatim>\<open>pkg/utils/response\<close>; the service with
    its DTOs and mapping; the handlers, the middleware chain and the router.
  \<^item> \<open>Service_Config\<close>: \<^verbatim>\<open>config.go\<close> and what the two commands build, start and close.  \<open>End_To_End\<close>: the
    server's components together, from submissions to the answers of \<^verbatim>\<open>GetAd\<close>.  \<open>Shared_Redis\<close>: the
    same server while other processes use its Redis queue (a locale for a queue that can claim an ad,
    interpreted for both caches).
  \<^item> \<open>Go_Utils\<close> (\<^verbatim>\<open>pkg/utils\<close>, the event bus), \<open>Metrics\<close> (\<^verbatim>\<open>pkg/metrics\<close>), \<open>Logging\<close>
    (\<^verbatim>\<open>pkg/logger\<close>, \<^verbatim>\<open>main.go\<close>, \<^verbatim>\<open>cmd/root.go\<close>), \<open>Messaging\<close> (\<^verbatim>\<open>pkg/messaging\<close>), \<open>Validation\<close>
    (\<^verbatim>\<open>pkg/utils/validate.go\<close>).

  \<^bold>\<open>State.\<close>  A struct is a record with the fields of the source; where two structs share a field name
  the model's has a prefix.  The state of a call is passed and returned; \<open>world\<close> is the repository and
  the state of Redis.  What the code shares by pointer and changes is behind a pointer: the ads of the
  repository in \<open>Heap_Store\<close>, and the worker pools, which live in a heap (\<open>pool_heap\<close>) where the service
  and the server each hold the pointer they were given.  What a call reads from outside is an argument: every \<^verbatim>\<open>time.Now()\<close>, random
  number, fresh identifier, and choice of a map's order.  Each method of the memory repository holds
  its mutex and is one atomic step.

  \<^bold>\<open>What is proved.\<close>  The end-to-end result, alone and with other processes on the shared Redis
  queue; the refinement of an abstract priority queue, safety and refinement under interleaving, with the exact set of
  the ads that threads leave unfinished; that
  pointers and values cannot be told apart at the repository; the life cycle of an ad, the
  invariants of store and queue, the behaviour of each operation on every branch, ordering and
  termination of \<^verbatim>\<open>Dequeue\<close>, liveness of the worker's loop, the bounds of aging, of the pool and of the
  processing time, round trips of the Redis cache and the error codes, pagination against a reference;
  and the places where the code does not do what it means to: expired work is never requeued,
  interrupted ads are lost, the oldest ads starve, unknown ads are answered with 500, the memory queue
  can livelock on a locked head, the worker process drops what it takes from Redis, the server's
  statistics never show a worker, the instrumented handlers always panic, the backoff loops never stop
  at a success.

  \<^bold>\<open>Bounds and fuel.\<close>  \<^verbatim>\<open>Dequeue\<close> retries by calling itself; its model has fuel, one unit for each call,
  and \<open>None\<close> means that the fuel ended.  With Redis a fuel of one more than the members of the queue is
  proved to give a result, because each retry removes a member; with the memory cache and no foreign
  lock one unit is enough, and with a locked head no fuel is (both proved).  The worker's loop takes a
  list of iterations, the pool and the maintenance loop a list of events: the theorems hold for all
  lists.  Runs of threads are bounded by 2^62 steps, so that versions do not wrap; listing by fewer
  than 2^62 ads.

  \<^bold>\<open>Not modelled.\<close>  Log lines inside the operations, HTTP headers and sockets, which do not touch the
  state.  A signal, the return of the HTTP listener and the end of a process are events and results
  (\<open>server_end\<close>, \<open>worker_shutdown\<close>, \<open>main\<close>).  The rate limiter is an empty file, the factory and the
  metrics interface of the service have no implementation, and the test file is left out.
  Threads (\<open>Interleaving\<close>, \<open>Abandoned\<close>) run with the memory cache only, and two things are no steps of
  theirs: \<^verbatim>\<open>RequeueExpired\<close>, which finds no work in any reachable state, and the write of \<^verbatim>\<open>GetAd\<close> into the
  cache, which with the memory cache can write back an older copy of an ad, but only for a request that
  asks for the ad's random identifier before the ad is saved.
  Third-party code is a parameter: the Redis client, JSON encoding and decoding, the validator, the
  matching and cleaning of paths by the router, viper, zap, Prometheus, the message brokers, the tree of cobra commands.  Context
  deadlines are the events of the worker's iteration; a cancellation inside a call of the repository
  does not exist in the code, which ignores its context there.  The mutexes make each call of the
  repository one step; races of Go's memory model below that are outside the model.
\<close>

end
